(* ===== verification/Prelude.thy ===== *)
theory Prelude
  imports Complex_Main "HOL-Library.Word" "HOL-Library.Monad_Syntax" "HOL-Library.Multiset"
    "HOL-Library.List_Lexorder" "HOL-Library.Char_ord"
begin

text \<open>
  Shared vocabulary of the development: the value types the sources take from the Qt
  foundation library (QString, QStringList, QMap, QVariant, QDateTime, double), the
  operations the sources use on them, and the generic lemmas every component needs.
  A QString is a \<open>string\<close>, a QList a \<open>list\<close>, a QMap the list of its entries in key
  order (the order QMapIterator visits them). What the program leaves to the platform
  (rounding of doubles, parsing of numbers and addresses, clocks, sockets, processes) is
  an argument of the definitions that use it.
\<close>

section \<open>Fact collections\<close>

named_theorems qt_simps \<open>rewrite rules for the string and list operations of the library\<close>
named_theorems frame_simps \<open>what an operation leaves unchanged\<close>

section \<open>Strings\<close>

type_synonym byte = "8 word"
type_synonym host = string  \<comment> \<open>a QHostAddress, by its canonical text; the null address is the empty text\<close>
type_synonym time = int     \<comment> \<open>a QDateTime, in milliseconds\<close>

definition is_space :: "char \<Rightarrow> bool" where
  "is_space c = (let n = of_char c :: nat
     in (9 \<le> n \<and> n \<le> 13) \<or> n = 32 \<or> n = 133 \<or> n = 160)"

definition trimmed :: "string \<Rightarrow> string" where
  "trimmed s = rev (dropWhile is_space (rev (dropWhile is_space s)))"

fun split_on :: "'a \<Rightarrow> 'a list \<Rightarrow> 'a list list" where
  "split_on c [] = [[]]"
| "split_on c (x # xs) =
     (if x = c then [] # split_on c xs
      else (case split_on c xs of [] \<Rightarrow> [[x]] | p # ps \<Rightarrow> (x # p) # ps))"

fun join_with :: "'a list \<Rightarrow> 'a list list \<Rightarrow> 'a list" where
  "join_with sep [] = []"
| "join_with sep [x] = x"
| "join_with sep (x # y # ys) = x @ sep @ join_with sep (y # ys)"

fun squeeze :: "string \<Rightarrow> string" where
  "squeeze [] = []"
| "squeeze [x] = [if is_space x then CHR '' '' else x]"
| "squeeze (x # y # ys) =
     (if is_space x \<and> is_space y then squeeze (y # ys)
      else (if is_space x then CHR '' '' else x) # squeeze (y # ys))"

definition simplified :: "string \<Rightarrow> string" where
  "simplified s = squeeze (trimmed s)"

text \<open>\<open>QString::number\<close> of an integer: decimal digits, a minus sign in front.\<close>

definition digit :: "nat \<Rightarrow> char" where
  "digit d = char_of (48 + d)"

fun number_nat :: "nat \<Rightarrow> string" where
  "number_nat n = (if n < 10 then [digit n] else number_nat (n div 10) @ [digit (n mod 10)])"

declare number_nat.simps [simp del]

definition number :: "int \<Rightarrow> string" where
  "number i = (if i < 0 then CHR ''-'' # number_nat (nat (- i)) else number_nat (nat i))"

text \<open>The line feed, written once.\<close>

definition nl :: char where
  "nl = CHR 0x0A"

subsection \<open>Lemmas on trimming\<close>

lemma dropWhile_id: "xs = [] \<or> \<not> P (hd xs) \<Longrightarrow> dropWhile P xs = xs"
  by (cases xs) auto

definition trim_ok :: "string \<Rightarrow> bool" where
  "trim_ok s = (s = [] \<or> (\<not> is_space (hd s) \<and> \<not> is_space (last s)))"

lemma trimmed_id: "trim_ok s \<Longrightarrow> trimmed s = s"
  by (auto simp: trimmed_def trim_ok_def dropWhile_id hd_rev)

lemma trim_ok_trimmed [simp]: "trim_ok (trimmed s)"
proof -
  define t where "t = dropWhile is_space s"
  define u where "u = dropWhile is_space (rev t)"
  show ?thesis
  proof (cases "u = []")
    case True
    then show ?thesis by (simp add: trim_ok_def trimmed_def t_def u_def)
  next
    case False
    then have last: "\<not> is_space (hd u)" unfolding u_def by (rule hd_dropWhile)
    have "rev t = takeWhile is_space (rev t) @ u" by (simp add: u_def)
    then have t: "t = rev u @ rev (takeWhile is_space (rev t))"
      by (metis rev_append rev_rev_ident)
    from False t have "t \<noteq> []" by auto
    then have "\<not> is_space (hd t)" unfolding t_def by (rule hd_dropWhile)
    moreover have "hd t = hd (rev u)" using False by (subst t) (simp add: hd_append)
    ultimately show ?thesis using last False
      by (simp add: trim_ok_def trimmed_def t_def [symmetric] u_def [symmetric] last_rev)
  qed
qed

lemma trimmed_trimmed [simp, qt_simps]: "trimmed (trimmed s) = trimmed s"
  by (rule trimmed_id) simp

lemma trimmed_Nil [simp, qt_simps]: "trimmed [] = []"
  by (simp add: trimmed_def)

lemma set_trimmed: "set (trimmed s) \<subseteq> set s"
  by (auto simp: trimmed_def dest!: set_dropWhileD)

lemma trimmed_append_space: "is_space c \<Longrightarrow> trimmed (s @ [c]) = trimmed s"
proof (cases "dropWhile is_space s = []")
  case True
  then have "\<forall>x \<in> set s. is_space x" by (simp add: dropWhile_eq_Nil_conv)
  then show "is_space c \<Longrightarrow> trimmed (s @ [c]) = trimmed s" using True
    by (auto simp: trimmed_def dropWhile_append dest: set_dropWhileD)
next
  case False
  then have "\<not> (\<forall>x \<in> set s. is_space x)" by (simp add: dropWhile_eq_Nil_conv)
  then show "is_space c \<Longrightarrow> trimmed (s @ [c]) = trimmed s"
    by (auto simp: trimmed_def dropWhile_append)
qed

lemma is_space_nl [simp]: "is_space nl"
  by (simp add: is_space_def nl_def)

lemma is_space_blank [simp]: "is_space (CHR '' '')"
  by (simp add: is_space_def)

lemma is_space_dot [simp]: "\<not> is_space (CHR ''.'')"
  by (simp add: is_space_def)

lemma is_space_semicolon [simp]: "\<not> is_space (CHR '';'')"
  by (simp add: is_space_def)

lemma nl_neq_semicolon [simp]: "nl \<noteq> CHR '';''" "CHR '';'' \<noteq> nl"
  by (simp_all add: nl_def)

subsection \<open>Lemmas on splitting and joining\<close>

lemma split_on_neq_Nil [simp]: "split_on c s \<noteq> []"
  by (cases s) (auto split: list.splits)

lemma split_on_no_sep [qt_simps]: "c \<notin> set s \<Longrightarrow> split_on c s = [s]"
  by (induction s) auto

lemma split_on_append [qt_simps]: "c \<notin> set a \<Longrightarrow> split_on c (a @ c # b) = a # split_on c b"
  by (induction a) auto

lemma split_on_parts: "p \<in> set (split_on c s) \<Longrightarrow> c \<notin> set p"
  by (induction s arbitrary: p) (auto split: list.splits if_splits)

lemma split_on_parts_subset: "p \<in> set (split_on c s) \<Longrightarrow> set p \<subseteq> set s"
proof (induction s arbitrary: p)
  case (Cons x xs)
  then show ?case by (cases "split_on c xs") (fastforce split: if_splits)+
qed simp

lemma join_split: "join_with [c] (split_on c s) = s"
proof (induction s)
  case (Cons x xs)
  then show ?case
    by (cases "split_on c xs"; cases "tl (split_on c xs)") (auto simp: neq_Nil_conv)
qed simp

lemma split_join:
  "xs \<noteq> [] \<Longrightarrow> \<forall>x \<in> set xs. c \<notin> set x \<Longrightarrow> split_on c (join_with [c] xs) = xs"
  by (induction "[c]" xs rule: join_with.induct) (auto simp: split_on_no_sep split_on_append)

lemma length_split_on: "length (split_on c s) = Suc (count_list s c)"
  by (induction s) (auto split: list.splits)

lemma split_on_single_iff: "length (split_on c s) \<ge> 2 \<longleftrightarrow> c \<in> set s"
  by (simp add: length_split_on Suc_le_eq count_list_0_iff[symmetric] del: count_list_0_iff)
     (metis count_list_0_iff gr0I less_numeral_extra(3))

lemma split_on_takeWhile:
  "split_on c s = takeWhile (\<lambda>x. x \<noteq> c) s #
     (case dropWhile (\<lambda>x. x \<noteq> c) s of [] \<Rightarrow> [] | _ # r \<Rightarrow> split_on c r)"
proof (induction s)
  case (Cons x xs)
  then show ?case by (cases "x = c") (auto split: list.splits)
qed simp

subsection \<open>Lines that are not blank\<close>

definition nonblank :: "string list \<Rightarrow> string list" where
  "nonblank items = [trimmed i. i \<leftarrow> items, trimmed i \<noteq> []]"

lemma nonblank_simps [simp]:
  "nonblank [] = []"
  "nonblank (i # is) = (if trimmed i \<noteq> [] then trimmed i # nonblank is else nonblank is)"
  by (simp_all add: nonblank_def)

section \<open>Lists as the sources index them\<close>

definition take_at :: "nat \<Rightarrow> 'a list \<Rightarrow> 'a list" where
  \<comment> \<open>\<open>QList::takeAt\<close>, without the element it returns\<close>
  "take_at n xs = take n xs @ drop (Suc n) xs"

lemma length_take_at [simp]: "n < length xs \<Longrightarrow> length (take_at n xs) = length xs - 1"
  by (simp add: take_at_def)

lemma set_take_at: "set (take_at n xs) \<subseteq> set xs"
  by (auto simp: take_at_def dest: in_set_takeD in_set_dropD)

definition swap_at :: "nat \<Rightarrow> nat \<Rightarrow> 'a list \<Rightarrow> 'a list" where
  "swap_at a b xs = xs[a := xs ! b, b := xs ! a]"

lemma length_swap_at [simp]: "length (swap_at a b xs) = length xs"
  by (simp add: swap_at_def)

lemma mset_swap_at [simp]: "a < length xs \<Longrightarrow> b < length xs \<Longrightarrow> mset (swap_at a b xs) = mset xs"
  by (simp add: swap_at_def mset_swap)

section \<open>QMap and QVariant\<close>

fun qinsert :: "string \<Rightarrow> 'v \<Rightarrow> (string \<times> 'v) list \<Rightarrow> (string \<times> 'v) list" where
  "qinsert k v [] = [(k, v)]"
| "qinsert k v ((k', v') # m) =
     (if k = k' then (k, v) # m
      else if k < k' then (k, v) # (k', v') # m
      else (k', v') # qinsert k v m)"

abbreviation qlookup :: "(string \<times> 'v) list \<Rightarrow> string \<Rightarrow> 'v option" where
  "qlookup m \<equiv> map_of m"

definition qmap_ok :: "(string \<times> 'v) list \<Rightarrow> bool" where
  "qmap_ok m = sorted_wrt (<) (map fst m)"

lemma qlookup_qinsert [simp, qt_simps]: "qlookup (qinsert k v m) = (qlookup m)(k \<mapsto> v)"
  by (induction k v m rule: qinsert.induct) (auto simp: fun_eq_iff)

lemma keys_qinsert [simp]: "fst ` set (qinsert k v m) = insert k (fst ` set m)"
  by (induction k v m rule: qinsert.induct) auto

lemma qinsert_ok [simp, intro]: "qmap_ok m \<Longrightarrow> qmap_ok (qinsert k v m)"
proof (induction k v m rule: qinsert.induct)
  case (2 k v k' v' m)
  then have tail: "qmap_ok m" "\<forall>x \<in> fst ` set m. k' < x"
    by (auto simp: qmap_ok_def)
  show ?case
  proof (cases "k = k' \<or> k < k'")
    case True
    with tail show ?thesis by (auto simp: qmap_ok_def intro: less_trans)
  next
    case False
    then have "k' < k" by auto
    have "qmap_ok (qinsert k v m)" using 2(1) False tail(1) by auto
    moreover have "\<forall>x \<in> fst ` set (qinsert k v m). k' < x"
      using tail(2) \<open>k' < k\<close> by simp
    ultimately show ?thesis using False by (auto simp: qmap_ok_def)
  qed
qed (simp add: qmap_ok_def)

lemma qmap_ok_Nil [simp]: "qmap_ok []"
  by (simp add: qmap_ok_def)

datatype variant = VInvalid | VInt int | VBool bool | VStr string | VList "string list"

definition int_ok :: "int \<Rightarrow> bool" where
  "int_ok i = (- (2 ^ 31) \<le> i \<and> i < 2 ^ 31)"

definition is_digit :: "char \<Rightarrow> bool" where
  "is_digit c = (let n = of_char c :: nat in 48 \<le> n \<and> n \<le> 57)"

definition digit_val :: "char \<Rightarrow> int" where
  "digit_val c = of_char c - 48"

definition digits_val :: "string \<Rightarrow> int" where
  "digits_val s = foldl (\<lambda>a c. 10 * a + digit_val c) 0 s"

text \<open>\<open>QString::toInt\<close>: 0 when the text is not a decimal int.\<close>

definition read_int :: "string \<Rightarrow> int" where
  "read_int s =
     (let t = trimmed s;
          neg = (t \<noteq> [] \<and> hd t = CHR ''-'');
          ds = (if t \<noteq> [] \<and> (hd t = CHR ''-'' \<or> hd t = CHR ''+'') then tl t else t);
          v = (if neg then - digits_val ds else digits_val ds)
      in if ds \<noteq> [] \<and> list_all is_digit ds \<and> int_ok v then v else 0)"

definition ascii_lower :: "char \<Rightarrow> char" where
  "ascii_lower c = (let n = of_char c :: nat in if 65 \<le> n \<and> n \<le> 90 then char_of (n + 32) else c)"

fun to_int :: "variant \<Rightarrow> int" where
  "to_int (VInt i) = i"
| "to_int (VBool b) = (if b then 1 else 0)"
| "to_int (VStr s) = read_int s"
| "to_int _ = 0"

fun to_bool :: "variant \<Rightarrow> bool" where
  "to_bool (VBool b) = b"
| "to_bool (VInt i) = (i \<noteq> 0)"
| "to_bool (VStr s) = (map ascii_lower s \<notin> {[], ''0'', ''false''})"
| "to_bool _ = False"

fun to_str :: "variant \<Rightarrow> string" where
  "to_str (VStr s) = s"
| "to_str (VInt i) = number i"
| "to_str (VBool b) = (if b then ''true'' else ''false'')"
| "to_str (VList [s]) = s"
| "to_str _ = []"

fun to_strs :: "variant \<Rightarrow> string list" where
  "to_strs (VList xs) = xs"
| "to_strs (VStr s) = [s]"
| "to_strs _ = []"

subsection \<open>Printed numbers can be read back\<close>

lemma digit_facts: "d < 10 \<Longrightarrow> is_digit (digit d)" "d < 10 \<Longrightarrow> digit_val (digit d) = int d"
  "d < 10 \<Longrightarrow> \<not> is_space (digit d)" "d < 10 \<Longrightarrow> digit d \<noteq> CHR ''-''" "d < 10 \<Longrightarrow> digit d \<noteq> CHR ''+''"
proof -
  assume "d < 10"
  then have n: "of_char (digit d) = 48 + d" by (simp add: digit_def)
  then have i: "(of_char (digit d) :: int) = 48 + int d"
    by (metis of_nat_of_char of_nat_add of_nat_numeral)
  show "is_digit (digit d)" "digit_val (digit d) = int d" "\<not> is_space (digit d)"
    using n i \<open>d < 10\<close> by (simp_all add: is_digit_def digit_val_def is_space_def)
  have "of_char (CHR ''-'') = (45 :: nat)" "of_char (CHR ''+'') = (43 :: nat)" by simp_all
  with n show "digit d \<noteq> CHR ''-''" "digit d \<noteq> CHR ''+''" by (metis not_add_less1 numeral_less_iff semiring_norm)+
qed

definition digits_ok :: "nat \<Rightarrow> string \<Rightarrow> bool" where
  "digits_ok n s = (list_all is_digit s \<and> s \<noteq> [] \<and> digits_val s = int n \<and>
     (\<forall>c \<in> set s. \<not> is_space c \<and> c \<noteq> CHR ''-'' \<and> c \<noteq> CHR ''+''))"

lemma digits_ok_snoc: "digits_ok n s \<Longrightarrow> d < 10 \<Longrightarrow> digits_ok (10 * n + d) (s @ [digit d])"
  using digit_facts [of d] by (simp add: digits_ok_def digits_val_def)

lemma number_nat_ok: "digits_ok n (number_nat n)"
proof (induction n rule: number_nat.induct)
  case (1 n)
  show ?case
  proof (cases "n < 10")
    case True
    then show ?thesis using digit_facts [of n] number_nat.simps [of n] by (simp add: digits_ok_def digits_val_def)
  next
    case False
    then have "digits_ok (10 * (n div 10) + n mod 10) (number_nat (n div 10) @ [digit (n mod 10)])"
      using 1 by (intro digits_ok_snoc) simp_all
    moreover have "number_nat n = number_nat (n div 10) @ [digit (n mod 10)]"
      using False number_nat.simps [of n] by simp
    ultimately show ?thesis by simp
  qed
qed

lemma read_number: "int_ok i \<Longrightarrow> read_int (number i) = i"
proof (cases "i < 0")
  case True
  assume "int_ok i"
  have ok: "digits_ok (nat (- i)) (number_nat (nat (- i)))" by (rule number_nat_ok)
  then have "trim_ok (number i)" using True by (auto simp: trim_ok_def number_def digits_ok_def is_space_def)
  then show ?thesis using True ok \<open>int_ok i\<close>
    by (simp add: read_int_def trimmed_id number_def digits_ok_def)
next
  case False
  assume "int_ok i"
  have ok: "digits_ok (nat i) (number_nat (nat i))" by (rule number_nat_ok)
  then have "trim_ok (number i)" using False by (auto simp: trim_ok_def number_def digits_ok_def)
  moreover have "hd (number_nat (nat i)) \<in> set (number_nat (nat i))" using ok by (simp add: digits_ok_def)
  ultimately show ?thesis using False ok \<open>int_ok i\<close>
    by (auto simp: read_int_def trimmed_id number_def digits_ok_def)
qed

section \<open>Doubles\<close>

text \<open>
  An IEEE double is a finite value, one of the infinities or not a number. Arithmetic on
  finite values is exact arithmetic followed by rounding, and the rounding function
  \<open>rnd\<close> is an argument of the definitions that compute. Comparison is the IEEE one:
  nothing is less than, or greater than, not a number.
\<close>

datatype double = NaN | NInf | Fin rat | PInf

fun dlt :: "double \<Rightarrow> double \<Rightarrow> bool" where
  "dlt NaN _ = False"
| "dlt _ NaN = False"
| "dlt _ NInf = False"
| "dlt NInf _ = True"
| "dlt PInf _ = False"
| "dlt _ PInf = True"
| "dlt (Fin a) (Fin b) = (a < b)"

fun deq :: "double \<Rightarrow> double \<Rightarrow> bool" where
  "deq NaN _ = False"
| "deq _ NaN = False"
| "deq a b = (a = b)"

lemma dlt_irrefl [simp]: "\<not> dlt a a"
  by (cases a) auto

lemma dlt_asym: "dlt a b \<Longrightarrow> \<not> dlt b a"
  by (cases a; cases b) auto

lemma dlt_negtrans: "\<not> dlt a b \<Longrightarrow> \<not> dlt b c \<Longrightarrow> b \<noteq> NaN \<Longrightarrow> \<not> dlt a c"
  by (cases a; cases b; cases c) auto

section \<open>Random numbers\<close>

text \<open>
  \<open>OpenNICSystem::random(low, high)\<close> applied to one value of \<open>qrand()\<close>. The C++
  remainder by zero traps: None.
\<close>

definition random_in :: "nat \<Rightarrow> int \<Rightarrow> int \<Rightarrow> int option" where
  "random_in q low high =
     (let m = (high + 1) - low in if m = 0 then None else Some (int q mod \<bar>m\<bar> + low))"

lemma random_in_range:
  "low \<le> high \<Longrightarrow> \<exists>r. random_in q low high = Some r \<and> low \<le> r \<and> r \<le> high"
proof -
  assume "low \<le> high"
  then have pos: "0 < high + 1 - low" by simp
  then have "0 \<le> int q mod (high + 1 - low)" "int q mod (high + 1 - low) < high + 1 - low"
    by simp_all
  then have "0 \<le> int q mod (high + 1 - low) \<and> int q mod (high + 1 - low) + low \<le> high"
    by linarith
  then show ?thesis using pos by (simp add: random_in_def Let_def)
qed

section \<open>Reachable states and invariants\<close>

inductive reachable :: "('s \<Rightarrow> bool) \<Rightarrow> ('s \<Rightarrow> 's \<Rightarrow> bool) \<Rightarrow> 's \<Rightarrow> bool"
  for init :: "'s \<Rightarrow> bool" and step :: "'s \<Rightarrow> 's \<Rightarrow> bool" where
  initial: "init s \<Longrightarrow> reachable init step s"
| stepped: "reachable init step s \<Longrightarrow> step s t \<Longrightarrow> reachable init step t"

text \<open>The contract of a component that keeps an invariant.\<close>

locale invariant_system =
  fixes init :: "'s \<Rightarrow> bool" and step :: "'s \<Rightarrow> 's \<Rightarrow> bool" and inv :: "'s \<Rightarrow> bool"
  assumes init_inv: "init s \<Longrightarrow> inv s"
    and step_inv: "inv s \<Longrightarrow> step s t \<Longrightarrow> inv t"
begin

lemma reach_inv: "reachable init step s \<Longrightarrow> inv s"
  by (induction rule: reachable.induct) (auto intro: init_inv step_inv)

lemma path_inv: "step\<^sup>*\<^sup>* s t \<Longrightarrow> inv s \<Longrightarrow> inv t"
  by (induction rule: rtranclp_induct) (auto intro: step_inv)

end

text \<open>The contract of a text or byte format: what is printed can be read back.\<close>

locale codec =
  fixes encode :: "'a \<Rightarrow> 'b" and decode :: "'b \<Rightarrow> 'c" and view :: "'a \<Rightarrow> 'c" and ok :: "'a \<Rightarrow> bool"
  assumes decode_encode: "ok x \<Longrightarrow> decode (encode x) = view x"
begin

lemma decode_all: "list_all ok xs \<Longrightarrow> map (\<lambda>x. decode (encode x)) xs = map view xs"
  by (induction xs) (auto simp: decode_encode)

lemma encode_inj: "ok x \<Longrightarrow> ok y \<Longrightarrow> encode x = encode y \<Longrightarrow> view x = view y"
  by (metis decode_encode)

end

interpretation decimal: codec number read_int id int_ok
  by unfold_locales (simp add: read_number)

text \<open>
  The contract of a pool that appends an element only when its key is new: the domain pool
  (by text) and the resolver pool (by address).
\<close>

locale keyed_pool =
  fixes key :: "'x \<Rightarrow> 'k" and add :: "'x list \<Rightarrow> 'x \<Rightarrow> 'x list"
  assumes add_eq: "add p x = (if key x \<in> key ` set p then p else p @ [x])"
begin

lemma keys_add: "key ` set (add p x) = insert (key x) (key ` set p)"
  by (auto simp: add_eq)

lemma distinct_add: "distinct (map key p) \<Longrightarrow> distinct (map key (add p x))"
  by (auto simp: add_eq)

lemma keys_add_all: "key ` set (foldl add p xs) = key ` set p \<union> key ` set xs"
  by (induction xs arbitrary: p) (auto simp: keys_add)

lemma distinct_add_all: "distinct (map key p) \<Longrightarrow> distinct (map key (foldl add p xs))"
  by (induction xs arbitrary: p) (auto intro: distinct_add)

lemma add_all_fresh: "distinct (map key (p @ xs)) \<Longrightarrow> foldl add p xs = p @ xs"
  by (induction xs arbitrary: p) (auto simp: add_eq)

lemma set_add: "set (add p x) \<subseteq> insert x (set p)"
  by (auto simp: add_eq)

end

text \<open>
  The contract of a comparison that can rank: it is asymmetric, and not being less is
  transitive through the values that compare properly.
\<close>

locale ranking =
  fixes lt :: "'k \<Rightarrow> 'k \<Rightarrow> bool" and proper :: "'k \<Rightarrow> bool"
  assumes lt_asym: "lt a b \<Longrightarrow> \<not> lt b a"
    and lt_negtrans: "proper b \<Longrightarrow> \<not> lt a b \<Longrightarrow> \<not> lt b c \<Longrightarrow> \<not> lt a c"

end
