(* ===== verification/DomainName.thy ===== *)
theory DomainName
  imports Prelude
begin

text \<open>
  \<open>server/opennicdomainname.cpp\<close> and \<open>server/opennicdomainnamepool.cpp\<close>: a domain
  to test, written \<open>service;name\<close>, and the pool of them without duplicates. Equality of
  domains is equality of their texts.
\<close>

section \<open>OpenNICDomainName\<close>

record domain_name =
  mDnsService :: string
  mDomainName :: string

definition anonymous_service :: string where
  "anonymous_service = ''{annon}''"

definition default_domain :: domain_name where
  "default_domain = \<lparr>mDnsService = anonymous_service, mDomainName = []\<rparr>"

definition fromString :: "string \<Rightarrow> domain_name" where
  "fromString text =
     (let parts = split_on (CHR '';'') text
      in if length parts \<ge> 2
         then \<lparr>mDnsService = trimmed (parts ! 0), mDomainName = trimmed (parts ! 1)\<rparr>
         else \<lparr>mDnsService = anonymous_service, mDomainName = text\<rparr>)"

definition toString :: "domain_name \<Rightarrow> string" where
  "toString d = trimmed (mDnsService d) @ '';'' @ trimmed (mDomainName d)"

definition domain_eq :: "domain_name \<Rightarrow> domain_name \<Rightarrow> bool" where
  "domain_eq a b = (toString a = toString b)"

definition domain_neq :: "domain_name \<Rightarrow> domain_name \<Rightarrow> bool" where
  "domain_neq a b = (toString a \<noteq> toString b)"

definition copy_domain :: "domain_name \<Rightarrow> domain_name \<Rightarrow> domain_name" where
  \<comment> \<open>the assignment operator and \<open>copy\<close>\<close>
  "copy_domain this other =
     this\<lparr>mDnsService := mDnsService other, mDomainName := mDomainName other\<rparr>"

section \<open>OpenNICDomainNamePool\<close>

type_synonym domain_pool = "domain_name list"

fun indexOf_from :: "nat \<Rightarrow> domain_pool \<Rightarrow> domain_name \<Rightarrow> int" where
  "indexOf_from n [] d = - 1"
| "indexOf_from n (item # rest) d =
     (if domain_eq item d then int n else indexOf_from (Suc n) rest d)"

definition indexOf :: "domain_pool \<Rightarrow> domain_name \<Rightarrow> int" where
  "indexOf pool d = indexOf_from 0 pool d"

definition pool_append :: "domain_pool \<Rightarrow> domain_name \<Rightarrow> domain_pool" where
  "pool_append pool d = (if indexOf pool d < 0 then pool @ [d] else pool)"

definition pool_toStringList :: "domain_pool \<Rightarrow> string list" where
  "pool_toStringList pool = map toString pool"

section \<open>Printing and parsing\<close>

definition no_semi :: "string \<Rightarrow> bool" where
  "no_semi s = (CHR '';'' \<notin> set s)"

lemma no_semi_trimmed [simp]: "no_semi s \<Longrightarrow> no_semi (trimmed s)"
  using set_trimmed by (auto simp: no_semi_def)

definition domain_ok :: "domain_name \<Rightarrow> bool" where
  \<comment> \<open>what \<open>fromString\<close> produces: fields without the separator\<close>
  "domain_ok d = (no_semi (mDnsService d) \<and> no_semi (mDomainName d))"

definition domain_trim :: "domain_name \<Rightarrow> domain_name" where
  "domain_trim d = \<lparr>mDnsService = trimmed (mDnsService d), mDomainName = trimmed (mDomainName d)\<rparr>"

lemma toString_trim [simp]: "toString (domain_trim d) = toString d"
  by (simp add: toString_def domain_trim_def)

lemma fromString_toString: "domain_ok d \<Longrightarrow> fromString (toString d) = domain_trim d"
proof -
  assume ok: "domain_ok d"
  then have "split_on (CHR '';'') (toString d) = [trimmed (mDnsService d), trimmed (mDomainName d)]"
    using no_semi_trimmed [of "mDnsService d"] no_semi_trimmed [of "mDomainName d"]
    by (simp add: toString_def domain_ok_def no_semi_def qt_simps)
  then show ?thesis by (simp add: fromString_def domain_trim_def)
qed

lemma domain_ok_fromString [simp]: "domain_ok (fromString t)"
proof (cases "length (split_on (CHR '';'') t) \<ge> 2")
  case True
  then have "no_semi (split_on (CHR '';'') t ! 0)" and "no_semi (split_on (CHR '';'') t ! 1)"
    unfolding no_semi_def by (intro split_on_parts [of _ _ t] nth_mem; simp)+
  with True show ?thesis by (simp add: fromString_def domain_ok_def Let_def)
next
  case False
  then have "CHR '';'' \<notin> set t" by (simp only: split_on_single_iff not_le) simp
  with False show ?thesis
    by (simp add: fromString_def domain_ok_def no_semi_def anonymous_service_def)
qed

lemma toString_not_blank [simp]: "toString d \<noteq> []"
  by (simp add: toString_def)

section \<open>The pool as a set of texts\<close>

definition pool_ok :: "domain_pool \<Rightarrow> bool" where
  "pool_ok pool = distinct (pool_toStringList pool)"

lemma indexOf_from_neg: "indexOf_from n pool d < 0 \<longleftrightarrow> toString d \<notin> toString ` set pool"
  by (induction n pool d rule: indexOf_from.induct) (auto simp: domain_eq_def)

lemma indexOf_neg [simp]: "indexOf pool d < 0 \<longleftrightarrow> toString d \<notin> toString ` set pool"
  by (simp add: indexOf_def indexOf_from_neg)

lemma indexOf_from_range:
  "toString d \<in> toString ` set pool \<Longrightarrow>
   \<exists>k < length pool. indexOf_from n pool d = int (n + k) \<and> toString (pool ! k) = toString d \<and>
     (\<forall>j < k. toString (pool ! j) \<noteq> toString d)"
proof (induction n pool d rule: indexOf_from.induct)
  case (2 n item rest d)
  show ?case
  proof (cases "domain_eq item d")
    case True
    then show ?thesis by (intro exI [of _ 0]) (simp add: domain_eq_def)
  next
    case False
    with 2 obtain k where "k < length rest" "indexOf_from (Suc n) rest d = int (Suc n + k)"
      "toString (rest ! k) = toString d" "\<forall>j < k. toString (rest ! j) \<noteq> toString d"
      by (auto simp: domain_eq_def)
    with False show ?thesis
      by (intro exI [of _ "Suc k"]) (auto simp: domain_eq_def less_Suc_eq_0_disj)
  qed
qed simp

interpretation domain_pool_laws: keyed_pool toString pool_append
  by unfold_locales (simp add: pool_append_def)

lemma pool_ok_append [intro]: "pool_ok pool \<Longrightarrow> pool_ok (pool_append pool d)"
  unfolding pool_ok_def pool_toStringList_def by (rule domain_pool_laws.distinct_add)

definition append_all :: "domain_pool \<Rightarrow> domain_name list \<Rightarrow> domain_pool" where
  "append_all pool ds = foldl pool_append pool ds"

lemma pool_ok_append_all [intro]: "pool_ok pool \<Longrightarrow> pool_ok (append_all pool ds)"
  unfolding pool_ok_def pool_toStringList_def append_all_def by (rule domain_pool_laws.distinct_add_all)

interpretation domain_text: codec toString fromString domain_trim domain_ok
  by unfold_locales (rule fromString_toString)

end
