(* ===== verification/DnsWire.thy ===== *)
theory DnsWire
  imports DomainName
begin

text \<open>
  The wire side of \<open>server/opennicdnsquery.cpp\<close>: the packet \<open>lookup\<close> builds, the
  name reader \<open>fetch\<close> and the reply parser inside \<open>processDatagram\<close>, over byte lists.
  A read outside the datagram or a store outside an array is undefined behaviour of the
  C++ and is None (or \<open>Undefined\<close>) here.
\<close>

datatype dns_query_type = DNS_A_RECORD | DNS_MX_RECORD

fun type_code :: "dns_query_type \<Rightarrow> nat" where
  "type_code DNS_A_RECORD = 1"
| "type_code DNS_MX_RECORD = 15"

definition dns_packet_len :: nat where
  "dns_packet_len = 2048"

section \<open>The query packet\<close>

definition bytes_of :: "string \<Rightarrow> byte list" where
  \<comment> \<open>\<open>toLocal8Bit().data()\<close> read as a C string: up to the first NUL\<close>
  "bytes_of s = takeWhile (\<lambda>b. b \<noteq> 0) (map of_char s)"

definition dot :: byte where
  "dot = 46"

text \<open>
  The label loop of \<open>lookup\<close>: a length byte (the int stored into a char), the label, and on
  to the next label while the scan stopped at a dot.
\<close>

function encode_labels :: "byte list \<Rightarrow> byte list" where
  "encode_labels name =
     (let chunk = takeWhile (\<lambda>b. b \<noteq> dot) name;
          rest = dropWhile (\<lambda>b. b \<noteq> dot) name
      in of_nat (length chunk) # chunk @ (if rest = [] then [] else encode_labels (tl rest)))"
  by pat_completeness auto
termination
proof (relation "measure length")
  fix name chunk rest :: "byte list"
  assume "rest = dropWhile (\<lambda>b. b \<noteq> dot) name" "rest \<noteq> []"
  then have "length (tl rest) < length rest" "length rest \<le> length name"
    by (simp_all add: length_dropWhile_le)
  then show "(tl rest, name) \<in> measure length" by simp
qed simp

declare encode_labels.simps [simp del]

definition be16 :: "nat \<Rightarrow> byte list" where
  "be16 n = [of_nat (n div 256), of_nat n]"

definition query_header :: "16 word \<Rightarrow> byte list" where
  \<comment> \<open>the transaction id is stored in host (little-endian) order, the rest through \<open>htons\<close>\<close>
  "query_header tid = [of_nat (unat tid), of_nat (unat tid div 256)] @ be16 0x100 @ be16 1 @
     be16 0 @ be16 0 @ be16 0"

definition query_packet :: "16 word \<Rightarrow> dns_query_type \<Rightarrow> byte list \<Rightarrow> byte list" where
  "query_packet tid queryType name =
     query_header tid @ encode_labels name @ [0, 0, of_nat (type_code queryType), 0, 1]"

text \<open>
  Stores through a running pointer into an array of \<open>cap\<close> bytes: None when one falls behind
  its end. \<open>out\<close> holds the bytes before the pointer.
\<close>

definition put_byte :: "nat \<Rightarrow> byte \<Rightarrow> byte list \<Rightarrow> byte list option" where
  "put_byte cap b out = (if length out < cap then Some (out @ [b]) else None)"

fun put_bytes :: "nat \<Rightarrow> byte list \<Rightarrow> byte list \<Rightarrow> byte list option" where
  "put_bytes cap [] out = Some out"
| "put_bytes cap (b # bs) out = do { out \<leftarrow> put_byte cap b out; put_bytes cap bs out }"

text \<open>The label loop of \<open>lookup\<close>, store by store.\<close>

function write_labels :: "nat \<Rightarrow> byte list \<Rightarrow> byte list \<Rightarrow> byte list option" where
  "write_labels cap name out =
     (let chunk = takeWhile (\<lambda>b. b \<noteq> dot) name;
          rest = dropWhile (\<lambda>b. b \<noteq> dot) name
      in do { out \<leftarrow> put_byte cap (of_nat (length chunk)) out;
              out \<leftarrow> put_bytes cap chunk out;
              if rest = [] then Some out else write_labels cap (tl rest) out })"
  by pat_completeness auto
termination
proof (relation "measure (\<lambda>(cap, name, out). length name)")
  fix cap :: nat and name chunk rest out1 out2 out :: "byte list"
  assume "rest = dropWhile (\<lambda>b. b \<noteq> dot) name" "rest \<noteq> []"
  then have "length (tl rest) < length rest" "length rest \<le> length name"
    by (simp_all add: length_dropWhile_le)
  then show "((cap, tl rest, out2), cap, name, out) \<in> measure (\<lambda>(cap, name, out). length name)"
    by simp
qed simp

declare write_labels.simps [simp del]

section \<open>Reading a name out of a datagram\<close>

text \<open>
  A QByteArray of length \<open>n\<close> owns \<open>n + 1\<close> bytes, the last of them NUL; a read beyond is
  undefined.
\<close>

definition rd :: "byte list \<Rightarrow> nat \<Rightarrow> byte option" where
  "rd pkt i = (if i < length pkt then Some (pkt ! i) else if i = length pkt then Some 0 else None)"

definition rd16 :: "byte list \<Rightarrow> nat \<Rightarrow> nat option" where
  "rd16 pkt i = do { a \<leftarrow> rd pkt i; b \<leftarrow> rd pkt (i + 1); Some (unat a * 256 + unat b) }"

fun rds :: "byte list \<Rightarrow> nat \<Rightarrow> nat \<Rightarrow> byte list option" where
  \<comment> \<open>the copy of \<open>n\<close> bytes from \<open>p\<close> on\<close>
  "rds pkt p 0 = Some []"
| "rds pkt p (Suc n) = do { b \<leftarrow> rd pkt p; bs \<leftarrow> rds pkt (Suc p) n; Some (b # bs) }"

datatype 'a outcome = Returns 'a | Undefined

text \<open>
  The inner loop of \<open>fetch\<close>: copy \<open>j\<close> bytes while the output index is below \<open>dstlen\<close>. The
  bytes written so far are \<open>dst\<close>, so the index \<open>i\<close> is its length.
\<close>

fun copy_label :: "byte list \<Rightarrow> nat \<Rightarrow> nat \<Rightarrow> nat \<Rightarrow> byte list \<Rightarrow> (nat \<times> byte list) option" where
  "copy_label pkt dstlen 0 s dst = Some (s, dst)"
| "copy_label pkt dstlen (Suc j) s dst =
     (if length dst < dstlen
      then (case rd pkt s of None \<Rightarrow> None | Some b \<Rightarrow> copy_label pkt dstlen j (Suc s) (dst @ [b]))
      else Some (s, dst))"

definition put_nul :: "nat \<Rightarrow> byte list \<Rightarrow> byte list outcome" where
  \<comment> \<open>\<open>dst[i] = 0\<close>, into an array of \<open>buf\<close> bytes\<close>
  "put_nul buf dst = (if length dst < buf then Returns dst else Undefined)"

text \<open>
  \<open>fetch\<close>, its loop. \<open>buf\<close> is the size of the array behind \<open>dst\<close>; \<open>n\<close> is the length of
  the last label. None: the loop does not end (a compression pointer leads back to itself).
\<close>

partial_function (option) fetch_loop ::
  "byte list \<Rightarrow> nat \<Rightarrow> nat \<Rightarrow> nat \<Rightarrow> nat \<Rightarrow> byte list \<Rightarrow> byte list outcome option" where
  "fetch_loop pkt buf dstlen s n dst =
     (case rd pkt s of
        None \<Rightarrow> Some Undefined
      | Some b \<Rightarrow>
          if b \<noteq> 0 \<and> s < length pkt then
            if n > 0 \<and> \<not> length dst < buf then Some Undefined
            else
              (let dst1 = (if n > 0 then dst @ [dot] else dst)
               in if length dst1 \<ge> dstlen then Some (put_nul buf dst1)
                  else if b = 0xc0 then
                    (case rd pkt (Suc s) of
                       None \<Rightarrow> Some Undefined
                     | Some off \<Rightarrow> fetch_loop pkt buf dstlen (unat off) 0 dst1)
                  else
                    (case copy_label pkt dstlen (unat b) (Suc s) dst1 of
                       None \<Rightarrow> Some Undefined
                     | Some (s', dst2) \<Rightarrow> fetch_loop pkt buf dstlen s' (unat b) dst2))
          else Some (put_nul buf dst))"

definition fetch :: "byte list \<Rightarrow> nat \<Rightarrow> nat \<Rightarrow> nat \<Rightarrow> byte list outcome option" where
  "fetch pkt s buf dstlen = fetch_loop pkt buf dstlen s 0 []"

section \<open>Parsing a reply\<close>

datatype reply = Ignored | NoAnswers | MxName "byte list" | Address "byte list"

function skip_host :: "byte list \<Rightarrow> nat \<Rightarrow> nat" where
  \<comment> \<open>the first zero byte from \<open>p\<close> on\<close>
  "skip_host pkt p = (if p < length pkt \<and> pkt ! p \<noteq> 0 then skip_host pkt (Suc p) else p)"
  by pat_completeness auto
termination by (relation "measure (\<lambda>(pkt, p). length pkt - p)") auto

function skip_name :: "byte list \<Rightarrow> nat \<Rightarrow> nat" where
  \<comment> \<open>the \<open>while\<close> loop over the name of an answer\<close>
  "skip_name pkt p = (if p + 12 < length pkt \<and> pkt ! p \<noteq> 0 then skip_name pkt (Suc p) else p)"
  by pat_completeness auto
termination by (relation "measure (\<lambda>(pkt, p). length pkt - p)") auto

declare skip_host.simps [simp del] skip_name.simps [simp del]

lemma skip_name_ge: "p \<le> skip_name pkt p"
  by (induction pkt p rule: skip_name.induct) (subst skip_name.simps, auto)

function answer_loop :: "nat \<Rightarrow> byte list \<Rightarrow> nat \<Rightarrow> (nat \<times> bool) option" where
  "answer_loop code pkt p =
     (if p + 12 < length pkt then
        (let p' = (if pkt ! p \<noteq> 0xc0 then skip_name pkt p - 1 else p)
         in case rd16 pkt (p' + 2) of
              None \<Rightarrow> None
            | Some type \<Rightarrow>
                if type = 5 then
                  (case rd16 pkt (p' + 10) of
                     None \<Rightarrow> None
                   | Some dlen \<Rightarrow> answer_loop code pkt (p' + 12 + dlen))
                else Some (p', type = code))
      else Some (p, False))"
  by pat_completeness auto
termination
proof (relation "measure (\<lambda>(code, pkt, p). length pkt - p)")
  fix code p p' type dlen and pkt :: "byte list"
  assume "p + 12 < length pkt" "p' = (if pkt ! p \<noteq> 0xc0 then skip_name pkt p - 1 else p)"
  then show "((code, pkt, p' + 12 + dlen), code, pkt, p) \<in> measure (\<lambda>(code, pkt, p). length pkt - p)"
    using skip_name_ge [of p pkt] by auto
qed simp

declare answer_loop.simps [simp del]

text \<open>
  \<open>processDatagram\<close> up to the calls that change the query. None: a read outside the
  datagram, or a \<open>fetch\<close> that overruns its buffer or never returns.
\<close>

definition parse_answer :: "dns_query_type \<Rightarrow> byte list \<Rightarrow> nat \<Rightarrow> reply option" where
  "parse_answer queryType pkt p =
     do { dlen \<leftarrow> rd16 pkt (p + 10);
          if p + 12 + dlen \<le> length pkt then
            (case queryType of
               DNS_MX_RECORD \<Rightarrow>
                 (case fetch pkt (p + 14) 1025 1024 of
                    Some (Returns name) \<Rightarrow> Some (MxName name)
                  | _ \<Rightarrow> None)
             | DNS_A_RECORD \<Rightarrow>
                 do { addr \<leftarrow> rds pkt (p + 12) dlen;
                      if dlen \<ge> 4 then Some (Address (take 4 addr)) else Some Ignored })
          else Some Ignored }"

definition parse_datagram :: "dns_query_type \<Rightarrow> byte list \<Rightarrow> reply option" where
  "parse_datagram queryType pkt =
     do { nqueries \<leftarrow> rd16 pkt 4;
          if nqueries \<noteq> 1 then Some Ignored
          else do {
            nanswers \<leftarrow> rd16 pkt 6;
            if nanswers = 0 then Some NoAnswers
            else
              (let p = skip_host pkt 12
               in if p + 5 > length pkt then Some Ignored
                  else do {
                    t \<leftarrow> rd16 pkt (p + 1);
                    if t \<noteq> type_code queryType then Some Ignored
                    else do {
                      (p, found) \<leftarrow> answer_loop (type_code queryType) pkt (p + 5);
                      if found \<and> p + 12 < length pkt then parse_answer queryType pkt p
                      else Some Ignored } }) } }"

definition dotted :: "byte list \<Rightarrow> string" where
  "dotted bs = join_with ''.'' (map (\<lambda>b. number (int (unat b))) bs)"

definition string_of_bytes :: "byte list \<Rightarrow> string" where
  "string_of_bytes bs = map (\<lambda>b. char_of (unat b)) bs"


section \<open>The encoder against the reference encoding\<close>

definition wire_label :: "byte list \<Rightarrow> byte list" where
  "wire_label l = of_nat (length l) # l"

lemma length_wire_label [simp]: "length (wire_label l) = Suc (length l)"
  by (simp add: wire_label_def)

lemma encode_labels_rec:
  "encode_labels name = wire_label (takeWhile (\<lambda>b. b \<noteq> dot) name) @
     (case dropWhile (\<lambda>b. b \<noteq> dot) name of [] \<Rightarrow> [] | _ # r \<Rightarrow> encode_labels r)"
  by (cases "dropWhile (\<lambda>b. b \<noteq> dot) name"; subst encode_labels.simps)
     (simp_all add: Let_def wire_label_def del: dropWhile_eq_Nil_conv)

lemma labels_induct:
  "(\<And>name. (\<And>d r. dropWhile (\<lambda>b. b \<noteq> dot) name = d # r \<Longrightarrow> P r) \<Longrightarrow> P name) \<Longrightarrow> P name"
proof (induction name rule: length_induct)
  case (1 name)
  show ?case
  proof (rule 1(2))
    fix d r assume "dropWhile (\<lambda>b. b \<noteq> dot) name = d # r"
    then have "length r < length name"
      using length_dropWhile_le [of "\<lambda>b. b \<noteq> dot" name] by simp
    then show "P r" using 1 by blast
  qed
qed

lemma encode_labels_split: "encode_labels name = concat (map wire_label (split_on dot name))"
proof (induction name rule: labels_induct)
  case (1 name)
  then show ?case
    by (subst encode_labels_rec, subst split_on_takeWhile)
       (cases "dropWhile (\<lambda>b. b \<noteq> dot) name"; simp del: dropWhile_eq_Nil_conv)
qed

lemma put_bytes_eq:
  "put_bytes cap bs out = (if length out + length bs \<le> cap \<or> bs = [] then Some (out @ bs) else None)"
  by (induction bs arbitrary: out) (auto simp: put_byte_def)

lemma length_encode_labels [simp]: "length (encode_labels name) = length name + 1"
proof (induction name rule: labels_induct)
  case (1 name)
  have "length name = length (takeWhile (\<lambda>b. b \<noteq> dot) name) + length (dropWhile (\<lambda>b. b \<noteq> dot) name)"
    by (metis length_append takeWhile_dropWhile_id)
  with 1 show ?case
    by (subst encode_labels_rec)
       (cases "dropWhile (\<lambda>b. b \<noteq> dot) name"; simp add: wire_label_def del: dropWhile_eq_Nil_conv)
qed

lemma write_labels_eq:
  "write_labels cap name out =
     (if length out + length name < cap then Some (out @ encode_labels name) else None)"
proof (induction name arbitrary: out rule: labels_induct)
  case (1 name)
  define chunk rest where "chunk = takeWhile (\<lambda>b. b \<noteq> dot) name" and "rest = dropWhile (\<lambda>b. b \<noteq> dot) name"
  have name: "length name = length chunk + length rest"
    unfolding chunk_def rest_def by (metis length_append takeWhile_dropWhile_id)
  have enc: "encode_labels name = of_nat (length chunk) # chunk @ (if rest = [] then [] else encode_labels (tl rest))"
    by (simp only: encode_labels.simps [of name] chunk_def rest_def Let_def)
  have wr: "write_labels cap name out =
     do { out \<leftarrow> put_byte cap (of_nat (length chunk)) out; out \<leftarrow> put_bytes cap chunk out;
          if rest = [] then Some out else write_labels cap (tl rest) out }"
    by (simp only: write_labels.simps [of cap name] chunk_def rest_def Let_def)
  show ?case
  proof (cases rest)
    case Nil
    then show ?thesis unfolding wr enc using name by (auto simp: put_byte_def put_bytes_eq)
  next
    case (Cons d r)
    have "write_labels cap r out' =
        (if length out' + length r < cap then Some (out' @ encode_labels r) else None)" for out'
      by (rule 1) (use Cons rest_def in simp)
    with Cons show ?thesis unfolding wr enc using name by (auto simp: put_byte_def put_bytes_eq)
  qed
qed

lemma length_query_header [simp]: "length (query_header tid) = 12"
  by (simp add: query_header_def be16_def)

lemma length_query_packet [simp]: "length (query_packet tid qt name) = length name + 18"
  by (simp add: query_packet_def)

text \<open>The question section as a name server reads it (RFC 1035, without compression).\<close>

function read_labels :: "byte list \<Rightarrow> (byte list list \<times> byte list) option" where
  "read_labels [] = None"
| "read_labels (n # bs) =
     (if n = 0 then Some ([], bs)
      else if unat n > 63 \<or> length bs < unat n then None
      else (case read_labels (drop (unat n) bs) of
              None \<Rightarrow> None
            | Some (ls, rest) \<Rightarrow> Some (take (unat n) bs # ls, rest)))"
  by pat_completeness auto
termination by (relation "measure length") auto

definition label_ok :: "byte list \<Rightarrow> bool" where
  "label_ok l = (l \<noteq> [] \<and> length l \<le> 63)"

lemma unat_of_nat_byte: "n < 256 \<Longrightarrow> unat (of_nat n :: byte) = n"
  by (simp add: unat_of_nat)

lemma of_nat_byte_eq_0: "n < 256 \<Longrightarrow> (of_nat n :: byte) = 0 \<longleftrightarrow> n = 0"
  using unat_of_nat_byte [of n] unat_eq_zero [of "of_nat n :: byte"] by simp

lemma read_labels_concat:
  "list_all label_ok ls \<Longrightarrow> read_labels (concat (map wire_label ls) @ 0 # rest) = Some (ls, rest)"
proof (induction ls)
  case (Cons l ls)
  then have "unat (of_nat (length l) :: byte) = length l" "(of_nat (length l) :: byte) \<noteq> 0"
    by (auto simp: label_ok_def unat_of_nat_byte of_nat_byte_eq_0)
  with Cons show ?case by (simp add: wire_label_def label_ok_def)
qed simp

section \<open>Reads\<close>

lemma rd_in [simp]: "i < length pkt \<Longrightarrow> rd pkt i = Some (pkt ! i)"
  by (simp add: rd_def)

lemma rd_append [simp]: "rd (pre @ xs) (length pre + k) = rd xs k"
  by (simp add: rd_def nth_append)

lemma rd16_append [simp]: "rd16 (pre @ xs) (length pre + k) = rd16 xs k"
  using rd_append [of pre xs k] rd_append [of pre xs "k + 1"]
  by (simp add: rd16_def del: rd_append)

lemma rd16_safe: "i + 1 \<le> length pkt \<Longrightarrow> \<exists>v. rd16 pkt i = Some v"
  by (auto simp: rd16_def rd_def)

lemma rds_eq:
  "p + n \<le> length pkt \<Longrightarrow> rds pkt p n = Some (take n (drop p pkt))"
proof (induction n arbitrary: p)
  case (Suc n)
  then have "drop p pkt = pkt ! p # drop (Suc p) pkt" by (simp add: Cons_nth_drop_Suc)
  with Suc show ?case by simp
qed simp

lemma rd16_unsafe: "length pkt \<le> i \<Longrightarrow> rd16 pkt i = None"
  by (auto simp: rd16_def rd_def split: option.splits)

lemma rd16_be16 [simp]: "n < 65536 \<Longrightarrow> rd16 (be16 n @ xs) 0 = Some n"
  by (simp add: rd16_def rd_def be16_def unat_of_nat)

lemma rd_tail: "i < length pkt \<Longrightarrow> length pkt = length pkt' \<Longrightarrow> pkt ! i = pkt' ! i \<Longrightarrow> rd pkt i = rd pkt' i"
  by simp

section \<open>The answer loop\<close>

lemma skip_name_le: "p + 12 < length pkt \<Longrightarrow> skip_name pkt p + 12 \<le> length pkt"
proof (induction pkt p rule: skip_name.induct)
  case (1 pkt p)
  show ?case
  proof (cases "pkt ! p \<noteq> 0 \<and> Suc p + 12 < length pkt")
    case True
    with 1 show ?thesis by (subst skip_name.simps) auto
  next
    case False
    have "skip_name pkt (Suc p) = Suc p" if "\<not> Suc p + 12 < length pkt"
      using that by (subst skip_name.simps) auto
    with False 1(2) show ?thesis by (subst skip_name.simps) auto
  qed
qed

lemma answer_loop_safe:
  "12 \<le> p \<Longrightarrow> answer_loop code pkt p \<noteq> None"
proof (induction code pkt p rule: answer_loop.induct)
  case (1 code pkt p)
  show ?case
  proof (cases "p + 12 < length pkt")
    case False
    then show ?thesis by (subst answer_loop.simps) simp
  next
    case True
    define p' where "p' = (if pkt ! p \<noteq> 0xc0 then skip_name pkt p - 1 else p)"
    have p': "11 \<le> p'" "p' + 12 \<le> length pkt" "p \<le> p' + 1"
      using True 1(2) skip_name_le [of p pkt] skip_name_ge [of p pkt] by (auto simp: p'_def)
    obtain type where type: "rd16 pkt (p' + 2) = Some type" using rd16_safe [of "p' + 2" pkt] p' by auto
    obtain dlen where dlen: "rd16 pkt (p' + 10) = Some dlen" using rd16_safe [of "p' + 10" pkt] p' by auto
    have "answer_loop code pkt (p' + 12 + dlen) \<noteq> None" if "type = 5"
      using 1(1) [OF True p'_def type that dlen] p' by simp
    with True type dlen show ?thesis
      by (subst answer_loop.simps) (auto simp: Let_def p'_def [symmetric])
  qed
qed

lemma parse_answer_A_safe: "p + 12 < length pkt \<Longrightarrow> parse_answer DNS_A_RECORD pkt p \<noteq> None"
  using rd16_safe [of "p + 10" pkt] by (auto simp: parse_answer_def rds_eq)

lemma skip_host_ge: "p \<le> skip_host pkt p"
  by (induction pkt p rule: skip_host.induct) (subst skip_host.simps, auto)

lemma parse_A_safe:
  assumes "7 \<le> length pkt" shows "parse_datagram DNS_A_RECORD pkt \<noteq> None"
proof -
  define p where "p = skip_host pkt 12"
  have p: "12 \<le> p" unfolding p_def by (rule skip_host_ge)
  obtain nq na where nq: "rd16 pkt 4 = Some nq" and na: "rd16 pkt 6 = Some na"
    using rd16_safe [of 4 pkt] rd16_safe [of 6 pkt] assms by auto
  show ?thesis
  proof (cases "nq \<noteq> 1 \<or> na = 0 \<or> p + 5 > length pkt")
    case True
    with nq na show ?thesis by (auto simp: parse_datagram_def p_def [symmetric] Let_def)
  next
    case False
    then obtain t where t: "rd16 pkt (p + 1) = Some t" using rd16_safe [of "p + 1" pkt] by auto
    obtain q found where loop: "answer_loop 1 pkt (p + 5) = Some (q, found)"
      using answer_loop_safe [of "p + 5" 1 pkt] p by (auto simp: not_None_eq)
    from False nq na t loop show ?thesis
      using parse_answer_A_safe [of q pkt]
      by (auto simp: parse_datagram_def p_def [symmetric] Let_def)
  qed
qed

lemma parse_too_short:
  assumes "length pkt \<le> 4" shows "parse_datagram qt pkt = None"
proof -
  have "rd16 pkt 4 = None" using assms by (rule rd16_unsafe)
  then show ?thesis by (simp add: parse_datagram_def)
qed

section \<open>Round trip of a reply\<close>

lemma skip_host_skips:
  "\<forall>b \<in> set xs. b \<noteq> 0 \<Longrightarrow> skip_host (pre @ xs @ 0 # rest) (length pre) = length pre + length xs"
proof (induction xs arbitrary: pre)
  case Nil
  then show ?case by (subst skip_host.simps) simp
next
  case (Cons x xs)
  then show ?case
    using Cons.IH [of "pre @ [x]"] by (subst skip_host.simps) (simp add: nth_append)
qed

lemma encode_labels_nonzero:
  assumes "list_all label_ok (split_on dot name)" "0 \<notin> set name"
  shows "\<forall>b \<in> set (encode_labels name). b \<noteq> 0"
proof -
  have "b \<noteq> 0" if "l \<in> set (split_on dot name)" "b \<in> set (wire_label l)" for l b
    using that assms split_on_parts_subset [of l dot name]
    by (auto simp: wire_label_def list_all_iff label_ok_def of_nat_byte_eq_0)
  then show ?thesis by (auto simp: encode_labels_split)
qed

text \<open>
  A resource record as servers send it. Its owner is a compression pointer, a name written
  out in full, or labels that end in a pointer.
\<close>

datatype owner = Pointer byte | Full "byte list list" | Partial "byte list list" byte

fun wire_owner :: "owner \<Rightarrow> byte list" where
  "wire_owner (Pointer off) = [0xc0, off]"
| "wire_owner (Full ls) = concat (map wire_label ls) @ [0]"
| "wire_owner (Partial ls off) = concat (map wire_label ls) @ [0xc0, off]"

definition host_label :: "byte list \<Rightarrow> bool" where
  "host_label l = (label_ok l \<and> 0 \<notin> set l)"

fun owner_read :: "owner \<Rightarrow> bool" where
  \<comment> \<open>the two forms the parser knows\<close>
  "owner_read (Pointer off) = True"
| "owner_read (Full ls) = list_all host_label ls"
| "owner_read (Partial ls off) = False"

record resource =
  r_owner :: owner
  r_type :: nat
  r_ttl :: "byte list"
  r_data :: "byte list"

definition wire_fixed :: "resource \<Rightarrow> byte list" where
  "wire_fixed r = be16 (r_type r) @ be16 1 @ r_ttl r @ be16 (length (r_data r))"

definition wire_resource :: "resource \<Rightarrow> byte list" where
  "wire_resource r = wire_owner (r_owner r) @ wire_fixed r @ r_data r"

definition resource_ok :: "resource \<Rightarrow> bool" where
  "resource_ok r = (r_type r < 65536 \<and> length (r_ttl r) = 4 \<and> length (r_data r) < 65536)"

lemma rd16_at:
  assumes "n < 65536" shows "rd16 (pre @ be16 n @ xs) (length pre) = Some n"
  using rd16_append [of pre "be16 n @ xs" 0] rd16_be16 [OF assms, of xs] by simp

lemma length_wire_fixed: "resource_ok r \<Longrightarrow> length (wire_fixed r) = 10"
  by (simp add: wire_fixed_def resource_ok_def be16_def)

lemma length_be16 [simp]: "length (be16 n) = 2"
  by (simp add: be16_def)

lemma fixed_type:
  "resource_ok r \<Longrightarrow> rd16 (pre @ wire_fixed r @ rest) (length pre) = Some (r_type r)"
  using rd16_at [of "r_type r" pre] by (simp add: wire_fixed_def resource_ok_def)

lemma fixed_length:
  assumes "resource_ok r"
  shows "rd16 (pre @ wire_fixed r @ rest) (length pre + 8) = Some (length (r_data r))"
  using rd16_at [of "length (r_data r)" "pre @ be16 (r_type r) @ be16 1 @ r_ttl r" rest] assms
  by (simp add: wire_fixed_def resource_ok_def add.commute)

lemma host_labels_nonzero:
  assumes "list_all host_label ls" "b \<in> set (concat (map wire_label ls))" shows "b \<noteq> 0"
proof -
  obtain l where "host_label l" "b \<in> set (wire_label l)" using assms by (auto simp: list_all_iff)
  then show ?thesis by (auto simp: wire_label_def host_label_def label_ok_def of_nat_byte_eq_0)
qed

lemma wire_labels_head:
  assumes "list_all label_ok ls" "ls \<noteq> []"
  shows "hd (concat (map wire_label ls)) \<noteq> 0xc0" "concat (map wire_label ls) \<noteq> []"
proof -
  obtain l ls' where ls: "ls = l # ls'" "length l \<le> 63" using assms by (cases ls) (auto simp: label_ok_def)
  then have "unat (of_nat (length l) :: byte) = length l" by (simp add: unat_of_nat_byte)
  then have "(of_nat (length l) :: byte) \<noteq> 0xc0" using ls(2) by auto
  then show "hd (concat (map wire_label ls)) \<noteq> 0xc0" "concat (map wire_label ls) \<noteq> []"
    by (simp_all add: ls wire_label_def)
qed

lemma skip_name_skips:
  assumes "\<forall>b \<in> set xs. b \<noteq> 0" "12 < length rest"
  shows "skip_name (pre @ xs @ 0 # rest) (length pre) = length pre + length xs"
  using assms
proof (induction xs arbitrary: pre)
  case Nil
  then show ?case by (subst skip_name.simps) simp
next
  case (Cons x xs)
  then show ?case
    using Cons.IH [of "pre @ [x]"] by (subst skip_name.simps) (simp add: nth_append)
qed

text \<open>Where the loop over the answers stands once it has stepped over the owner of a record.\<close>

definition owner_end :: "byte list \<Rightarrow> nat \<Rightarrow> nat" where
  "owner_end pkt p = (if pkt ! p \<noteq> 0xc0 then skip_name pkt p - 1 else p)"

lemma answer_loop_step:
  assumes "p + 12 < length pkt" "q = owner_end pkt p"
    "rd16 pkt (q + 2) = Some type" "rd16 pkt (q + 10) = Some dlen"
  shows "answer_loop code pkt p =
    (if type = 5 then answer_loop code pkt (q + 12 + dlen) else Some (q, type = code))"
  using assms by (subst answer_loop.simps) (simp add: Let_def owner_end_def)

lemma owner_skipped:
  assumes "owner_read w" "12 < length (fixed @ rest)" "pkt = pre @ wire_owner w @ fixed @ rest" "pre \<noteq> []"
  shows "owner_end pkt (length pre) + 2 = length (pre @ wire_owner w)"
proof (cases w)
  case (Full ls)
  let ?xs = "concat (map wire_label ls)"
  have "skip_name pkt (length pre) = length pre + length ?xs"
    using skip_name_skips [of ?xs "fixed @ rest" pre] host_labels_nonzero [of ls] assms Full by auto
  moreover have "pkt ! length pre \<noteq> 0xc0"
  proof (cases "ls = []")
    case False
    then have "hd ?xs \<noteq> 0xc0" "?xs \<noteq> []"
      using wire_labels_head [of ls] assms(1) Full by (auto simp: host_label_def list_all_iff)
    then show ?thesis using assms(3) Full by (simp add: nth_append hd_conv_nth)
  qed (use assms(3) Full in \<open>simp add: nth_append\<close>)
  ultimately show ?thesis using assms(4) Full by (cases pre) (auto simp: owner_end_def)
qed (use assms in \<open>auto simp: owner_end_def nth_append\<close>)

text \<open>What one round of the loop makes of a record it knows the owner form of.\<close>

lemma record_round:
  assumes "resource_ok r" "owner_read (r_owner r)" "12 < 10 + length (r_data r) + length rest" "pre \<noteq> []"
    "pkt = pre @ wire_resource r @ rest" "q + 2 = length (pre @ wire_owner (r_owner r))"
  shows "rd16 pkt (q + 10) = Some (length (r_data r))"
    "answer_loop code pkt (length pre) =
      (if r_type r = 5 then answer_loop code pkt (length (pre @ wire_resource r)) else Some (q, r_type r = code))"
proof -
  have pkt: "pkt = (pre @ wire_owner (r_owner r)) @ wire_fixed r @ (r_data r @ rest)"
    by (simp add: assms(5) wire_resource_def)
  have len: "length (wire_fixed r) = 10" using assms(1) by (rule length_wire_fixed)
  have q: "owner_end pkt (length pre) = q"
    using owner_skipped [of "r_owner r" "wire_fixed r" "r_data r @ rest" pkt pre] assms(2-4,6) len
    by (simp add: pkt)
  have type: "rd16 pkt (q + 2) = Some (r_type r)"
    using fixed_type [OF assms(1), of "pre @ wire_owner (r_owner r)"] unfolding assms(6) pkt .
  show dlen: "rd16 pkt (q + 10) = Some (length (r_data r))"
    using fixed_length [OF assms(1), of "pre @ wire_owner (r_owner r)" "r_data r @ rest"]
    unfolding assms(6) [symmetric] pkt by (simp add: add.commute)
  have "length pre + 12 < length pkt"
    using assms(3) len by (cases "r_owner r") (auto simp: pkt)
  moreover have "q + 12 + length (r_data r) = length (pre @ wire_resource r)"
    using assms(6) len by (simp add: wire_resource_def)
  ultimately show "answer_loop code pkt (length pre) =
      (if r_type r = 5 then answer_loop code pkt (length (pre @ wire_resource r)) else Some (q, r_type r = code))"
    using answer_loop_step [OF _ q [symmetric] type dlen, of code] by simp
qed

text \<open>A record the loop steps over.\<close>

definition alias_ok :: "resource \<Rightarrow> bool" where
  "alias_ok r = (resource_ok r \<and> owner_read (r_owner r) \<and> r_type r = 5)"

lemma answer_loop_aliases:
  assumes "list_all alias_ok rs" "12 < length rest" "pre \<noteq> []"
  shows "answer_loop code (pre @ concat (map wire_resource rs) @ rest) (length pre) =
    answer_loop code (pre @ concat (map wire_resource rs) @ rest)
      (length pre + length (concat (map wire_resource rs)))"
  using assms
proof (induction rs arbitrary: pre)
  case (Cons r rs)
  let ?more = "concat (map wire_resource rs) @ rest"
  define q where "q = length (pre @ wire_owner (r_owner r)) - 2"
  have "2 \<le> length (pre @ wire_owner (r_owner r))"
    using Cons.prems(3) by (cases "r_owner r"; cases pre) auto
  then have q: "q + 2 = length (pre @ wire_owner (r_owner r))" by (simp add: q_def)
  have "answer_loop code (pre @ wire_resource r @ ?more) (length pre) =
      answer_loop code ((pre @ wire_resource r) @ ?more) (length (pre @ wire_resource r))"
    using record_round(2) [of r ?more pre _ q code] Cons.prems q by (simp add: alias_ok_def)
  also have "\<dots> = answer_loop code ((pre @ wire_resource r) @ ?more)
       (length (pre @ wire_resource r) + length (concat (map wire_resource rs)))"
    using Cons.prems by (intro Cons.IH) auto
  finally show ?case by (simp add: add.assoc)
qed simp

text \<open>
  A reply to \<open>query_packet\<close>: header with one question and \<open>an\<close> answers, the question
  echoed, then the answers.
\<close>

definition reply_head ::
  "byte list \<Rightarrow> byte list \<Rightarrow> byte list \<Rightarrow> nat \<Rightarrow> byte list \<Rightarrow> byte list" where
  "reply_head tid flags name an nsar =
     tid @ flags @ be16 1 @ be16 an @ nsar @ encode_labels name @ [0, 0, 1, 0, 1]"

definition reply_packet ::
  "byte list \<Rightarrow> byte list \<Rightarrow> byte list \<Rightarrow> nat \<Rightarrow> byte list \<Rightarrow> resource list \<Rightarrow> byte list \<Rightarrow> byte list" where
  "reply_packet tid flags name an nsar rs behind =
     reply_head tid flags name an nsar @ concat (map wire_resource rs) @ behind"

text \<open>The header and the question are read as the code expects them.\<close>

lemma reply_start:
  assumes name: "list_all label_ok (split_on dot name)" "0 \<notin> set name"
    and head: "length tid = 2" "length flags = 2" "length nsar = 4" "0 < an" "an < 65536"
  shows "parse_datagram DNS_A_RECORD (reply_head tid flags name an nsar @ rest) =
    do { (p, found) \<leftarrow> answer_loop 1 (reply_head tid flags name an nsar @ rest)
             (length (reply_head tid flags name an nsar));
         if found \<and> p + 12 < length (reply_head tid flags name an nsar @ rest)
         then parse_answer DNS_A_RECORD (reply_head tid flags name an nsar @ rest) p
         else Some Ignored }"
proof -
  define hd12 where "hd12 = tid @ flags @ be16 1 @ be16 an @ nsar"
  define pkt where "pkt = reply_head tid flags name an nsar @ rest"
  have h12: "length hd12 = 12" using head by (simp add: hd12_def)
  have pkt: "pkt = hd12 @ encode_labels name @ 0 # [0, 1, 0, 1] @ rest"
    by (simp add: pkt_def reply_head_def hd12_def)
  have len: "length (reply_head tid flags name an nsar) = 18 + length name"
    using head by (simp add: reply_head_def)
  have nq: "rd16 pkt 4 = Some 1"
    using rd16_at [of 1 "tid @ flags"] head by (simp add: pkt hd12_def)
  have na: "rd16 pkt 6 = Some an"
    using rd16_at [of an "tid @ flags @ be16 1"] head by (simp add: pkt hd12_def)
  have skip: "skip_host pkt 12 = 13 + length name"
    using skip_host_skips [OF encode_labels_nonzero [OF name], of hd12] h12 by (simp add: pkt)
  have qt: "rd16 pkt (14 + length name) = Some 1"
    using rd16_at [of 1 "hd12 @ encode_labels name @ [0]"] h12 by (simp add: pkt be16_def add.commute)
  have "18 + length name \<le> length pkt" using h12 by (simp add: pkt)
  then show ?thesis
    unfolding pkt_def [symmetric] len
    using nq na skip qt head(4) by (simp add: parse_datagram_def Let_def add.commute)
qed

lemma reply_parsed:
  assumes name: "list_all label_ok (split_on dot name)" "0 \<notin> set name"
    and head: "length tid = 2" "length flags = 2" "length nsar = 4" "0 < an" "an < 65536"
    and aliases: "list_all alias_ok rs"
    and a: "resource_ok a" "owner_read (r_owner a)" "r_type a = 1" "length (r_data a) = 4"
  shows "parse_datagram DNS_A_RECORD (reply_packet tid flags name an nsar (rs @ [a]) behind) =
    Some (Address (r_data a))"
proof -
  define h where "h = reply_head tid flags name an nsar"
  define cs where "cs = concat (map wire_resource rs)"
  define pkt where "pkt = h @ cs @ wire_resource a @ behind"
  define q where "q = length ((h @ cs) @ wire_owner (r_owner a)) - 2"
  have h: "h \<noteq> []" "18 \<le> length h" using head by (auto simp: h_def reply_head_def)
  then have q: "q + 2 = length ((h @ cs) @ wire_owner (r_owner a))" by (simp add: q_def)
  have la: "length (wire_resource a) = length (wire_owner (r_owner a)) + 14"
    using a by (simp add: wire_resource_def length_wire_fixed)
  have "answer_loop 1 pkt (length h) = answer_loop 1 pkt (length h + length cs)"
    unfolding pkt_def cs_def using aliases la h by (intro answer_loop_aliases) auto
  moreover have "rd16 pkt (q + 10) = Some 4" "answer_loop 1 pkt (length (h @ cs)) = Some (q, True)"
    using record_round(1) [OF a(1,2) _ _ _ q, of behind pkt]
      record_round(2) [OF a(1,2) _ _ _ q, of behind pkt 1] a(3,4) h by (simp_all add: pkt_def)
  moreover have "length pkt = q + 16 + length behind"
    using q la by (simp add: pkt_def)
  moreover have "take 4 (drop (q + 12) pkt) = r_data a"
  proof -
    have "length ((h @ cs) @ wire_owner (r_owner a) @ wire_fixed a) = q + 12"
      using q length_wire_fixed [OF a(1)] by simp
    moreover have "pkt = ((h @ cs) @ wire_owner (r_owner a) @ wire_fixed a) @ r_data a @ behind"
      by (simp add: pkt_def wire_resource_def)
    ultimately show ?thesis using a(4) by (metis append_eq_conv_conj append_take_drop_id)
  qed
  ultimately have "parse_datagram DNS_A_RECORD (h @ cs @ wire_resource a @ behind) = Some (Address (r_data a))"
    using reply_start [OF name head, of "cs @ wire_resource a @ behind"]
    unfolding h_def [symmetric] pkt_def [symmetric]
    using a(4) by (simp add: parse_answer_def rds_eq)
  then show ?thesis by (simp add: reply_packet_def h_def cs_def)
qed

text \<open>
  The third form of an owner: the loop over the name runs over the pointer, whose bytes are
  not zero, and stops at the first byte of the record type; the type it reads is a byte off.
\<close>

lemma partial_owner_type:
  assumes "resource_ok r" "r_owner r = Partial ls off" "list_all host_label ls" "ls \<noteq> []" "off \<noteq> 0"
    "0 < r_type r" "r_type r < 256" "pre \<noteq> []" "4 \<le> length (r_data r @ rest)"
    "pkt = pre @ wire_resource r @ rest"
  shows "\<exists>q. answer_loop code pkt (length pre) = Some (q, r_type r * 256 = code)"
proof -
  let ?xs = "concat (map wire_label ls) @ [0xc0, off]"
  define q where "q = length pre + length (concat (map wire_label ls)) + 1"
  obtain t where t: "r_ttl r = t" "length t = 4" using assms(1) by (simp add: resource_ok_def)
  have bt: "be16 (r_type r) = [0, of_nat (r_type r)]" using assms(7) by (simp add: be16_def)
  have pkt: "pkt = pre @ ?xs @ 0 # (of_nat (r_type r) # be16 1 @ t @ be16 (length (r_data r)) @ r_data r @ rest)"
    by (simp add: assms(10) wire_resource_def wire_fixed_def assms(2) t bt)
  have long: "12 < length (of_nat (r_type r) # be16 1 @ t @ be16 (length (r_data r)) @ r_data r @ rest)"
    using t assms(9) by simp
  have "\<forall>b \<in> set ?xs. b \<noteq> 0" using host_labels_nonzero [OF assms(3)] assms(5) by auto
  then have "skip_name pkt (length pre) = length pre + length ?xs"
    unfolding pkt using long by (intro skip_name_skips) auto
  moreover have "pkt ! length pre \<noteq> 0xc0"
  proof -
    have "list_all label_ok ls" using assms(3) by (auto simp: host_label_def list_all_iff)
    from wire_labels_head [OF this assms(4)] show ?thesis by (simp add: pkt nth_append hd_conv_nth)
  qed
  ultimately have q: "owner_end pkt (length pre) = q" by (simp add: owner_end_def q_def)
  have "unat (of_nat (r_type r) :: byte) = r_type r" using assms(7) by (simp add: unat_of_nat_byte)
  then have type: "rd16 pkt (q + 2) = Some (r_type r * 256)"
    using rd16_append [of "pre @ ?xs @ [0]" "of_nat (r_type r) # 0 # 1 # t @ be16 (length (r_data r)) @ r_data r @ rest" 0]
    by (simp add: pkt q_def be16_def rd16_def rd_def add.commute)
  have "q + 11 \<le> length pkt" using long by (simp add: pkt q_def)
  then obtain dlen where dlen: "rd16 pkt (q + 10) = Some dlen" using rd16_safe [of "q + 10" pkt] by auto
  have "length pre + 12 < length pkt" using long by (simp add: pkt)
  from answer_loop_step [OF this q [symmetric] type dlen, of code] show ?thesis by (auto; presburger)
qed

lemma partial_ignored:
  assumes name: "list_all label_ok (split_on dot name)" "0 \<notin> set name"
    and head: "length tid = 2" "length flags = 2" "length nsar = 4" "0 < an" "an < 65536"
    and aliases: "list_all alias_ok rs"
    and a: "resource_ok a" "r_owner a = Partial ls off" "list_all host_label ls" "ls \<noteq> []" "off \<noteq> 0"
      "r_type a = 1 \<or> r_type a = 5" "4 \<le> length (r_data a @ behind)"
  shows "parse_datagram DNS_A_RECORD (reply_packet tid flags name an nsar (rs @ [a]) behind) = Some Ignored"
proof -
  define h where "h = reply_head tid flags name an nsar"
  define cs where "cs = concat (map wire_resource rs)"
  have h: "h \<noteq> []" using head by (auto simp: h_def reply_head_def)
  have "2 \<le> length (wire_owner (r_owner a))" by (simp add: a(2))
  then have la: "12 < length (wire_resource a @ behind)"
    using a(7) length_wire_fixed [OF a(1)] unfolding wire_resource_def length_append by linarith
  obtain q where "answer_loop 1 ((h @ cs) @ wire_resource a @ behind) (length (h @ cs)) = Some (q, False)"
    using partial_owner_type [OF a(1-5), of "h @ cs" behind _ 1] a(6,7) h by auto
  moreover have "answer_loop 1 (h @ cs @ wire_resource a @ behind) (length h) =
      answer_loop 1 (h @ cs @ wire_resource a @ behind) (length h + length cs)"
    unfolding cs_def using aliases la h by (intro answer_loop_aliases) auto
  ultimately have "parse_datagram DNS_A_RECORD (h @ cs @ wire_resource a @ behind) = Some Ignored"
    using reply_start [OF name head, of "cs @ wire_resource a @ behind"] by (simp add: h_def [symmetric])
  then show ?thesis by (simp add: reply_packet_def h_def cs_def)
qed



section \<open>The name reader\<close>

lemma copy_label_exact:
  "s + j \<le> length pkt \<Longrightarrow>
   copy_label pkt dstlen j s dst =
     Some (s + min j (dstlen - length dst), dst @ take (min j (dstlen - length dst)) (drop s pkt))"
proof (induction j arbitrary: s dst)
  case (Suc j)
  show ?case
  proof (cases "length dst < dstlen")
    case True
    then obtain m where m: "dstlen - length dst = Suc m" "dstlen - length (dst @ [pkt ! s]) = m"
      by (cases "dstlen - length dst") auto
    have "drop s pkt = pkt ! s # drop (Suc s) pkt" using Suc.prems by (simp add: Cons_nth_drop_Suc)
    with True m Suc show ?thesis by (simp del: drop_Suc_Cons)
  qed simp
qed simp

lemma copy_label_advance: "copy_label pkt dstlen j s dst = Some (s', dst') \<Longrightarrow> s \<le> s' \<and> length dst \<le> length dst'"
  by (induction pkt dstlen j s dst rule: copy_label.induct) (force split: if_splits option.splits)+

lemma fetch_loop_returns:
  assumes "0xc0 \<notin> set pkt" shows "\<exists>r. fetch_loop pkt buf dstlen s n dst = Some r"
proof (induction "Suc (length pkt) - s" arbitrary: s n dst rule: less_induct)
  case less
  show ?case
  proof (cases "s < length pkt \<and> pkt ! s \<noteq> 0")
    case False
    then show ?thesis by (subst fetch_loop.simps) (auto simp: rd_def)
  next
    case True
    with assms have "pkt ! s \<noteq> 0xc0" by (metis nth_mem)
    have step: "\<exists>r. fetch_loop pkt buf dstlen s' n' dst' = Some r" if "Suc s \<le> s'" for s' n' dst'
      using that True by (intro less) auto
    show ?thesis
      using True \<open>pkt ! s \<noteq> 0xc0\<close>
      by (subst fetch_loop.simps)
         (auto simp: Let_def split: option.splits dest!: copy_label_advance intro: step)
  qed
qed

lemma fetch_loop_diverges:
  assumes "s + 1 < length pkt" "pkt ! s = 0xc0" "unat (pkt ! (s + 1)) = s" "0 < dstlen"
  shows "fetch_loop pkt buf dstlen s 0 [] = None"
proof (rule ccontr)
  assume "fetch_loop pkt buf dstlen s 0 [] \<noteq> None"
  then obtain r where ret: "fetch_loop pkt buf dstlen s 0 [] = Some r" by auto
  have "(pkt, buf, dstlen, s, 0, []) \<noteq> (pkt, buf, dstlen, s, 0 :: nat, [] :: byte list)"
  proof (rule fetch_loop.raw_induct
      [where P = "\<lambda>a b c d e f r. (a, b, c, d, e, f) \<noteq> (pkt, buf, dstlen, s, 0 :: nat, [] :: byte list)",
       OF _ ret])
    fix f a b c d g and e :: nat and r :: "byte list outcome"
    assume IH: "\<And>a b c d e g r. f a b c d e g = Some r \<Longrightarrow>
        (a, b, c, d, e, g) \<noteq> (pkt, buf, dstlen, s, 0 :: nat, [] :: byte list)"
      and eq: "(case rd a d of None \<Rightarrow> Some Undefined
        | Some ba \<Rightarrow>
          if ba \<noteq> 0 \<and> d < length a then
            if e > 0 \<and> \<not> length g < b then Some Undefined
            else (let dst1 = (if e > 0 then g @ [dot] else g)
               in if length dst1 \<ge> c then Some (put_nul b dst1)
                  else if ba = 0xc0 then
                    (case rd a (Suc d) of None \<Rightarrow> Some Undefined
                     | Some off \<Rightarrow> f a b c (unat off) 0 dst1)
                  else (case copy_label a c (unat ba) (Suc d) dst1 of None \<Rightarrow> Some Undefined
                     | Some (s', dst2) \<Rightarrow> f a b c s' (unat ba) dst2))
          else Some (put_nul b g)) = Some r"
    show "(a, b, c, d, e, g) \<noteq> (pkt, buf, dstlen, s, 0 :: nat, [] :: byte list)"
    proof
      assume "(a, b, c, d, e, g) = (pkt, buf, dstlen, s, 0 :: nat, [] :: byte list)"
      then have "f pkt buf dstlen s 0 [] = Some r" using eq assms by (simp add: Let_def)
      then show False using IH by blast
    qed
  qed
  then show False by simp
qed

lemma fetch_label:
  assumes "pkt = pre @ of_nat k # lab @ rest" "length lab = k" "0 < k" "k < 256" "k \<noteq> 0xc0"
    and "length d < buf" "length (if n > 0 then d @ [dot] else d) < dstlen"
  shows "fetch_loop pkt buf dstlen (length pre) n d =
    fetch_loop pkt buf dstlen
      (length pre + 1 + min k (dstlen - length (if n > 0 then d @ [dot] else d))) k
      ((if n > 0 then d @ [dot] else d) @ take (dstlen - length (if n > 0 then d @ [dot] else d)) lab)"
proof -
  define d1 where "d1 = (if n > 0 then d @ [dot] else d)"
  have k: "unat (of_nat k :: byte) = k" using assms by (simp add: unat_of_nat_byte)
  then have "(of_nat k :: byte) \<noteq> 0" "(of_nat k :: byte) \<noteq> 0xc0" using assms by auto
  moreover have "copy_label pkt dstlen k (Suc (length pre)) d1 =
      Some (Suc (length pre) + min k (dstlen - length d1), d1 @ take (dstlen - length d1) lab)"
    using assms(1,2) by (subst copy_label_exact) (auto simp: min_def)
  moreover have "pkt ! length pre = of_nat k" "length pre < length pkt"
    using assms(1) by (simp_all add: nth_append)
  ultimately show ?thesis
    using assms(6,7) k by (subst fetch_loop.simps) (simp add: Let_def d1_def [symmetric])
qed

lemma fetch_label_length:
  assumes "pkt = pre @ of_nat k # lab @ rest" "length lab = k" "0 < k" "k < 256" "k \<noteq> 0xc0"
    and "length d < buf" "m = (if n > 0 then length d + 1 else length d)" "m < dstlen"
    and "s' = length pre + 1 + min k (dstlen - m)"
  shows "\<exists>d'. length d' = min (m + k) dstlen \<and>
    fetch_loop pkt buf dstlen (length pre) n d = fetch_loop pkt buf dstlen s' k d'"
proof -
  have m: "length (if n > 0 then d @ [dot] else d) = m" using assms(7) by simp
  show ?thesis
    using fetch_label [OF assms(1-6), of n dstlen] assms(2,8,9) unfolding m
    by (intro exI [of _ "(if n > 0 then d @ [dot] else d) @ take (dstlen - m) lab"])
       (auto simp: m simp del: if_split)
qed

text \<open>Labels of 255, 255, 255, 254 and 2 bytes: 1026 bytes of an MX answer.\<close>

definition overlong_name :: "byte \<Rightarrow> byte list" where
  "overlong_name b = concat (map (\<lambda>k. wire_label (replicate k b)) [255, 255, 255, 254, 2])"

lemma overlong_prefix:
  "overlong_name b = concat (map (\<lambda>k. wire_label (replicate k b)) ks) @
     of_nat k # replicate k b @ concat (map (\<lambda>k. wire_label (replicate k b)) ks')"
  if "[255, 255, 255, 254, 2] = ks @ k # ks'"
  unfolding overlong_name_def that by (simp add: wire_label_def)

lemma overlong_step:
  assumes "[255, 255, 255, 254, 2] = ks @ k # ks'" "length d < 1025"
    "m = (if n > 0 then length d + 1 else length d)" "m < 1024" "s = sum_list (map Suc ks)"
    "l = min (m + k) 1024" "s' = s + 1 + min k (1024 - m)"
  obtains d' where "length d' = l" "fetch_loop (overlong_name b) 1025 1024 s n d =
    fetch_loop (overlong_name b) 1025 1024 s' k d'"
proof -
  have "k \<in> {255, 254, 2}"
    using arg_cong [OF assms(1), of set] by auto
  then have k: "0 < k" "k < 256" "k \<noteq> 0xc0" by auto
  have len: "length (concat (map (\<lambda>k. wire_label (replicate k b)) ks)) = s"
    unfolding assms(5) by (simp add: length_concat wire_label_def comp_def)
  show ?thesis
    using fetch_label_length [OF overlong_prefix [OF assms(1)] length_replicate k assms(2-4) refl, of b]
      that unfolding len assms(6,7) by blast
qed

text \<open>the name reader writes past its 1025 byte array: after 1022 bytes of name a label that
  fills the array to index 1024 is followed by a separator and the terminator at index 1025.\<close>

theorem fetch_overruns:
  assumes "b \<noteq> 0" shows "fetch (overlong_name b) 0 1025 1024 = Some Undefined"
proof -
  let ?L = "fetch_loop (overlong_name b) 1025 1024"
  obtain d1 where 1: "length d1 = 255" "?L 0 0 [] = ?L 256 255 d1"
    by (rule overlong_step [of "[]" 255 "[255, 255, 254, 2]" "[]" 0 0 0 255 256 b])
       (use assms in simp_all)
  obtain d2 where 2: "length d2 = 511" "?L 256 255 d1 = ?L 512 255 d2"
    by (rule overlong_step [of "[255]" 255 "[255, 254, 2]" "d1" 256 255 256 511 512 b])
       (use 1(1) in simp_all)
  obtain d3 where 3: "length d3 = 767" "?L 512 255 d2 = ?L 768 255 d3"
    by (rule overlong_step [of "[255, 255]" 255 "[254, 2]" "d2" 512 255 512 767 768 b])
       (use 2(1) in simp_all)
  obtain d4 where 4: "length d4 = 1022" "?L 768 255 d3 = ?L 1023 254 d4"
    by (rule overlong_step [of "[255, 255, 255]" 254 "[2]" "d3" 768 255 768 1022 1023 b])
       (use 3(1) in simp_all)
  obtain d5 where 5: "length d5 = 1024" "?L 1023 254 d4 = ?L 1025 2 d5"
    by (rule overlong_step [of "[255, 255, 255, 254]" 2 "[]" "d4" 1023 254 1023 1024 1025 b])
       (use 4(1) in simp_all)
  have len: "length (overlong_name b) = 1026" by (simp add: overlong_name_def wire_label_def)
  have "overlong_name b = (concat (map (\<lambda>k. wire_label (replicate k b)) [255, 255, 255, 254]) @ [2, b]) @ [b]"
    by (simp add: overlong_name_def wire_label_def numeral_2_eq_2)
  then have "overlong_name b ! 1025 = b"
    using nth_append_length [of "concat (map (\<lambda>k. wire_label (replicate k b)) [255, 255, 255, 254]) @ [2, b]" b "[]"]
    by (simp add: wire_label_def)
  then have "?L 1025 2 d5 = Some Undefined"
    using len assms 5(1) by (subst fetch_loop.simps) (simp add: put_nul_def)
  then show ?thesis using 1(2) 2(2) 3(2) 4(2) 5(2) by (simp add: fetch_def)
qed

lemma fetch_overruns_witness: "fetch (overlong_name 97) 0 1025 1024 = Some Undefined"
  by (rule fetch_overruns) simp

lemma fetch_labels:
  assumes "list_all label_ok ls" "pkt = pre @ concat (map wire_label ls) @ 0 # rest" "0 < n"
    "length d + length (concat (map wire_label ls)) < dstlen" "dstlen \<le> buf"
  shows "fetch_loop pkt buf dstlen (length pre) n d = Some (Returns (d @ concat (map (\<lambda>l. dot # l) ls)))"
  using assms
proof (induction ls arbitrary: pre n d)
  case Nil
  then show ?case by (subst fetch_loop.simps) (simp add: put_nul_def nth_append)
next
  case (Cons l ls)
  have pkt: "pkt = pre @ of_nat (length l) # l @ (concat (map wire_label ls) @ 0 # rest)"
    using Cons.prems(2) by (simp add: wire_label_def [of l])
  have l: "0 < length l" "length l < 256" "length l \<noteq> 0xc0"
    using Cons.prems(1) by (auto simp: label_ok_def)
  have fits: "length d + 1 + length l + length (concat (map wire_label ls)) < dstlen"
    using Cons.prems(4) by simp
  then have room: "length d < buf" "length (if n > 0 then d @ [dot] else d) < dstlen"
    using Cons.prems(3,5) by auto
  have "min (length l) (dstlen - length (d @ [dot])) = length l"
    "take (dstlen - length (d @ [dot])) l = l" using fits by auto
  then have "fetch_loop pkt buf dstlen (length pre) n d =
      fetch_loop pkt buf dstlen (length (pre @ wire_label l)) (length l) (d @ dot # l)"
    using fetch_label [OF pkt refl l room] Cons.prems(3) by (simp add: wire_label_def [of l])
  also have "\<dots> = Some (Returns ((d @ dot # l) @ concat (map (\<lambda>l. dot # l) ls)))"
  proof (rule Cons.IH)
    show "pkt = (pre @ wire_label l) @ concat (map wire_label ls) @ 0 # rest"
      using Cons.prems(2) by simp
  qed (use Cons.prems l(1) fits in simp_all)
  finally show ?case by simp
qed

lemma join_with_dots: "join_with [c] (l # ls) = l @ concat (map (\<lambda>l. c # l) ls)"
  by (induction ls arbitrary: l) auto

text \<open>
  A name as RFC 1035 stores it: labels up to a zero byte, or labels up to a pointer to
  another (non-empty) name of the datagram. \<open>name_at pkt s ls\<close>: the name at offset \<open>s\<close> has
  the labels \<open>ls\<close>. The rules are well-founded, so a pointer that leads back to itself names
  nothing.
\<close>

inductive name_at :: "byte list \<Rightarrow> nat \<Rightarrow> byte list list \<Rightarrow> bool" for pkt where
  root: "s < length pkt \<Longrightarrow> pkt ! s = 0 \<Longrightarrow> name_at pkt s []"
| labelled: "pkt = pre @ wire_label l @ rest \<Longrightarrow> label_ok l \<Longrightarrow>
    name_at pkt (length pre + Suc (length l)) ls \<Longrightarrow> name_at pkt (length pre) (l # ls)"
| pointed: "Suc s < length pkt \<Longrightarrow> pkt ! s = 0xc0 \<Longrightarrow> name_at pkt (unat (pkt ! Suc s)) ls \<Longrightarrow>
    ls \<noteq> [] \<Longrightarrow> name_at pkt s ls"

lemma name_at_fetched:
  assumes "name_at pkt s ls" "length (if ls = [] then d else sep n d @ join_with [dot] ls) < dstlen" "dstlen \<le> buf"
    "sep = (\<lambda>n d. if 0 < n then d @ [dot] else d)"
  shows "fetch_loop pkt buf dstlen s n d =
    Some (Returns (if ls = [] then d else sep n d @ join_with [dot] ls))"
  using assms
proof (induction arbitrary: n d rule: name_at.induct)
  case (root s)
  then show ?case by (subst fetch_loop.simps) (simp add: put_nul_def)
next
  case (labelled pre l rest ls)
  have l: "0 < length l" "length l < 256" "length l \<noteq> 0xc0" using labelled.hyps(2) by (auto simp: label_ok_def)
  have pkt: "pkt = pre @ of_nat (length l) # l @ rest" using labelled.hyps(1) by (simp add: wire_label_def)
  have sep: "(if n > 0 then d @ [dot] else d) = sep n d" "length d \<le> length (sep n d)"
    by (simp_all add: labelled.prems(3))
  have join: "join_with [dot] (l # ls) = l @ (if ls = [] then [] else dot # join_with [dot] ls)"
    by (cases ls) simp_all
  have fits: "length (sep n d) + length l + length (if ls = [] then [] else dot # join_with [dot] ls) < dstlen"
    using labelled.prems(1) join by simp
  then have room: "length d < buf" "length (if n > 0 then d @ [dot] else d) < dstlen"
    using sep labelled.prems(2) by auto
  have cut: "min (length l) (dstlen - length (sep n d)) = length l" "take (dstlen - length (sep n d)) l = l"
    using fits by auto
  have "fetch_loop pkt buf dstlen (length pre) n d =
      fetch_loop pkt buf dstlen (length pre + Suc (length l)) (length l) (sep n d @ l)"
    using fetch_label [OF pkt refl l room] unfolding sep(1) cut by simp
  also have "\<dots> = Some (Returns (if ls = [] then sep n d @ l else sep (length l) (sep n d @ l) @ join_with [dot] ls))"
    by (rule labelled.IH) (use fits l(1) labelled.prems in auto)
  finally show ?case using l(1) join by (simp add: labelled.prems(3))
next
  case (pointed s ls)
  have sep: "(if n > 0 then d @ [dot] else d) = sep n d" "length d \<le> length (sep n d)" "sep 0 (sep n d) = sep n d"
    by (simp_all add: pointed.prems(3))
  have fits: "length (sep n d @ join_with [dot] ls) < dstlen" using pointed.prems(1) pointed.hyps(4) by simp
  then have "length d < buf" "length (sep n d) < dstlen" using sep(2) pointed.prems(2) by auto
  then have "fetch_loop pkt buf dstlen s n d = fetch_loop pkt buf dstlen (unat (pkt ! Suc s)) 0 (sep n d)"
    using pointed.hyps(1,2) by (subst fetch_loop.simps) (simp add: Let_def sep(1))
  also have "\<dots> = Some (Returns (if ls = [] then sep n d else sep 0 (sep n d) @ join_with [dot] ls))"
    by (rule pointed.IH) (use fits pointed.hyps(4) pointed.prems sep(3) in auto)
  finally show ?case using pointed.hyps(4) sep(3) by simp
qed



text \<open>C36: reading back what \<open>lookup\<close> encodes gives the name: the label encoder of a query and
  the name reader of a reply are inverse, wherever the name stands in the packet.\<close>

theorem fetch_encode_roundtrip:
  assumes "list_all label_ok (split_on dot name)" "length name + 1 < dstlen" "dstlen \<le> buf"
  shows "fetch (pre @ encode_labels name @ 0 # rest) (length pre) buf dstlen = Some (Returns name)"
proof -
  obtain l ls where ls: "split_on dot name = l # ls" using split_on_neq_Nil by (metis neq_Nil_conv)
  define pkt where "pkt = pre @ encode_labels name @ 0 # rest"
  have l: "0 < length l" "length l < 256" "length l \<noteq> 0xc0" "list_all label_ok ls"
    using assms(1) ls by (auto simp: label_ok_def)
  have pkt: "pkt = pre @ of_nat (length l) # l @ (concat (map wire_label ls) @ 0 # rest)"
    by (simp add: pkt_def encode_labels_split ls wire_label_def [of l])
  have "length (encode_labels name) = length name + 1" by simp
  then have len: "length l + length (concat (map wire_label ls)) = length name"
    by (simp add: encode_labels_split ls)
  then have "fetch_loop pkt buf dstlen (length pre) 0 [] =
      fetch_loop pkt buf dstlen (length (pre @ wire_label l)) (length l) l"
    using fetch_label [OF pkt refl l(1-3), of "[]" buf 0 dstlen] assms(2,3)
    by (simp add: wire_label_def [of l] min_def)
  also have "\<dots> = Some (Returns (l @ concat (map (\<lambda>l. dot # l) ls)))"
    using l assms(2,3) len by (intro fetch_labels [where rest = rest]) (auto simp: pkt wire_label_def [of l])
  also have "l @ concat (map (\<lambda>l. dot # l) ls) = name"
    using join_split [of dot name] join_with_dots [of dot l ls] ls by simp
  finally show ?thesis by (simp add: fetch_def pkt_def)
qed

lemma fetch_encode_roundtrip_witness:
  "fetch ([7, 7] @ encode_labels [97, 46, 98, 99] @ 0 # [1]) (length [7 :: byte, 7]) 1025 1024
     = Some (Returns [97, 46, 98, 99])"
  by (rule fetch_encode_roundtrip) (simp_all add: label_ok_def dot_def)

section \<open>The packet as a server reads it\<close>

text \<open>C37: the question of a query packet is the one RFC 1035 defines: a server that reads the
  labels from byte 12 on gets the labels of the name, then the record type and class 1.\<close>

theorem query_packet_question:
  assumes "list_all label_ok (split_on dot name)"
  shows "take 12 (query_packet tid queryType name) = query_header tid \<and>
    read_labels (drop 12 (query_packet tid queryType name)) =
      Some (split_on dot name, be16 (type_code queryType) @ be16 1)"
proof -
  have "be16 (type_code queryType) @ be16 1 = [0, of_nat (type_code queryType), 0, 1]"
    by (cases queryType) (simp_all add: be16_def)
  then show ?thesis
    using read_labels_concat [OF assms, of "[0, of_nat (type_code queryType), 0, 1]"]
    by (simp add: query_packet_def encode_labels_split)
qed

lemma query_packet_question_witness:
  "read_labels (drop 12 (query_packet 7 DNS_MX_RECORD [97, 46, 98])) = Some ([[97], [98]], [0, 15, 0, 1])"
  using query_packet_question [of "[97, 46, 98]" 7 DNS_MX_RECORD]
  by (simp add: label_ok_def dot_def be16_def)

text \<open>C34: the parser of address replies never reads outside a datagram of at least 7 bytes,
  whatever is in it, the copy of the record's data included; on a datagram of 4 bytes or less it
  always does, since the length of the
  header is not checked.\<close>

theorem parse_bounds:
  "(7 \<le> length pkt \<longrightarrow> parse_datagram DNS_A_RECORD pkt \<noteq> None) \<and>
   (length pkt \<le> 4 \<longrightarrow> parse_datagram queryType pkt = None)"
  using parse_A_safe parse_too_short by blast

lemma parse_bounds_witness:
  "parse_datagram DNS_A_RECORD [0, 1, 0, 0, 0, 1, 0] \<noteq> None \<and> parse_datagram DNS_MX_RECORD [0, 1] = None"
  using parse_bounds [of "[0, 1, 0, 0, 0, 1, 0]" DNS_A_RECORD] parse_bounds [of "[0, 1]" DNS_MX_RECORD]
  by simp

end
