(* ===== verification/DnsQuery.thy ===== *)
theory DnsQuery
  imports DnsWire
begin

text \<open>
  \<open>server/opennicdnsquery.cpp\<close>: one DNS query. The record holds the members of
  \<open>OpenNICDnsQuery\<close>; \<open>mSignals\<close> lists the Qt signals it has emitted. The datagram is a
  byte list; a read outside it is undefined behaviour of the C++ and makes the model
  return None. One handler runs at one instant \<open>now\<close>.
\<close>

section \<open>State\<close>

datatype dns_error = DNS_OK | DNS_DOES_NOT_EXIST | DNS_TIMEOUT | DNS_ERROR

datatype query_signal = Starting | Finished | Expired

record dns_query =
  mListener :: "nat option"      \<comment> \<open>the listener object the signals are connected to\<close>
  mResolver :: host
  mError :: dns_error
  mQueryType :: dns_query_type
  mTid :: "16 word"
  mStartTime :: "time option"    \<comment> \<open>None: the null QDateTime\<close>
  mEndTime :: "time option"
  mExpireTime :: "time option"
  mName :: domain_name
  mAddr :: host
  mMxName :: string
  mPort :: nat
  mExpiryTimer :: int            \<comment> \<open>a Qt timer id, or -1\<close>
  mSocketBound :: bool           \<comment> \<open>\<open>mUDPSocket.state() == BoundState\<close>\<close>
  mSignals :: "query_signal list"

text \<open>The static members of the class.\<close>

record query_statics =
  mQueryCount :: int
  mMasterTid :: "16 word"

text \<open>What the platform supplies while one handler runs.\<close>

record query_env =
  now :: time
  start_timer :: "int \<Rightarrow> int"    \<comment> \<open>\<open>startTimer(msecs)\<close>: the id of the new timer\<close>
  bind_ok :: bool                \<comment> \<open>\<open>mUDPSocket.bind()\<close> succeeds\<close>
  send_ok :: bool                \<comment> \<open>\<open>writeDatagram\<close> returns a size, not -1\<close>

definition default_dns_port :: nat where
  "default_dns_port = 53"

definition blank_query :: "host \<Rightarrow> domain_name \<Rightarrow> nat \<Rightarrow> dns_query_type \<Rightarrow> dns_query" where
  \<comment> \<open>the member initialisers of the constructors\<close>
  "blank_query resolver name port queryType =
     \<lparr>mListener = None, mResolver = resolver, mError = DNS_OK, mQueryType = queryType, mTid = 0,
      mStartTime = None, mEndTime = None, mExpireTime = None, mName = name, mAddr = [],
      mMxName = [], mPort = port, mExpiryTimer = - 1, mSocketBound = False, mSignals = []\<rparr>"

section \<open>Times and texts\<close>

fun later :: "time option \<Rightarrow> time option \<Rightarrow> bool" where
  \<comment> \<open>QDateTime's \<open>>\<close>: the null time comes before every valid one\<close>
  "later (Some a) (Some b) = (b < a)"
| "later (Some a) None = True"
| "later None b = False"

fun msecsTo :: "time option \<Rightarrow> time option \<Rightarrow> int" where
  "msecsTo (Some a) (Some b) = b - a"
| "msecsTo _ _ = 0"

definition latency :: "dns_query \<Rightarrow> nat" where
  "latency q = (if later (mEndTime q) (mStartTime q) then nat (msecsTo (mStartTime q) (mEndTime q)) else 0)"

definition queryTypeText :: "dns_query \<Rightarrow> string" where
  "queryTypeText q =
     (case mQueryType q of DNS_A_RECORD \<Rightarrow> ''DNS_A_RECORD'' | DNS_MX_RECORD \<Rightarrow> ''DNS_MX_RECORD'')"

definition errorText :: "dns_query \<Rightarrow> string" where
  "errorText q =
     (case mError q of DNS_OK \<Rightarrow> ''DNS_OK'' | DNS_DOES_NOT_EXIST \<Rightarrow> ''DNS_DOES_NOT_EXIST''
      | DNS_TIMEOUT \<Rightarrow> ''DNS_TIMEOUT'' | DNS_ERROR \<Rightarrow> ''DNS_ERROR'')"

text \<open>\<open>fmt\<close> is \<open>QDateTime::toString("yyMMdd-hh:mm:ss.zzz")\<close>.\<close>

definition query_toString :: "(time option \<Rightarrow> string) \<Rightarrow> dns_query \<Rightarrow> string" where
  "query_toString fmt q =
     mResolver q @ '';'' @ mDomainName (mName q) @ '';'' @ mDnsService (mName q) @ '';'' @
     number (int (latency q)) @ '';'' @ errorText q @ '';'' @ queryTypeText q @ '';'' @
     fmt (mStartTime q) @ '';'' @ fmt (mEndTime q) @ '';''"

section \<open>Life cycle\<close>

definition emit :: "query_signal \<Rightarrow> dns_query \<Rightarrow> dns_query" where
  "emit s q = q\<lparr>mSignals := mSignals q @ [s]\<rparr>"

text \<open>
  The listener's slots: \<open>starting\<close> and \<open>finished\<close> do nothing, \<open>expired\<close> sets the error
  (\<open>OpenNICDnsQueryListener::expired\<close>).
\<close>

definition emit_expired :: "dns_query \<Rightarrow> dns_query" where
  "emit_expired q = emit Expired (if mListener q \<noteq> None then q\<lparr>mError := DNS_TIMEOUT\<rparr> else q)"

definition setListener :: "nat option \<Rightarrow> dns_query \<Rightarrow> dns_query" where
  "setListener l q = q\<lparr>mListener := l\<rparr>"

definition setStartTime :: "time \<Rightarrow> dns_query \<Rightarrow> dns_query" where
  "setStartTime t q = emit Starting (q\<lparr>mStartTime := Some t\<rparr>)"

definition setEndTime :: "time \<Rightarrow> dns_query \<Rightarrow> dns_query" where
  "setEndTime t q = q\<lparr>mEndTime := Some t\<rparr>"

definition terminate :: "time \<Rightarrow> dns_query \<Rightarrow> dns_query" where
  "terminate t q =
     (let q1 = setEndTime t q;
          q2 = (if mSocketBound q1 then q1\<lparr>mSocketBound := False\<rparr> else q1);
          q3 = (if mExpiryTimer q2 \<ge> 0 then q2\<lparr>mExpiryTimer := - 1\<rparr> else q2)
      in emit Finished q3)"

definition terminate_error :: "time \<Rightarrow> dns_error \<Rightarrow> dns_query \<Rightarrow> dns_query" where
  "terminate_error t err q = terminate t (q\<lparr>mError := err\<rparr>)"

definition setExpireTime :: "query_env \<Rightarrow> time option \<Rightarrow> dns_query \<Rightarrow> dns_query" where
  "setExpireTime env expireTime q =
     (let q1 = (if mExpiryTimer q \<ge> 0 then q\<lparr>mExpiryTimer := - 1\<rparr> else q);
          q2 = q1\<lparr>mExpireTime := expireTime\<rparr>
      in if later (mExpireTime q2) (Some (now env))
         then q2\<lparr>mExpiryTimer := start_timer env (msecsTo (Some (now env)) (mExpireTime q2))\<rparr>
         else terminate (now env) (emit_expired q2))"

definition timerEvent :: "time \<Rightarrow> int \<Rightarrow> dns_query \<Rightarrow> dns_query" where
  "timerEvent t timerId q =
     (if timerId = mExpiryTimer q then terminate t (emit_expired q) else q)"

section \<open>Sending a query\<close>

text \<open>
  \<open>lookup\<close>: the C string is copied into \<open>sname[2048]\<close> with its NUL, then the packet is
  stored byte by byte into \<open>pkt[DNS_PACKET_LEN]\<close>. None: a store runs past the end of one of
  the arrays (the size test comes after the stores). The result holds the datagram handed to
  the socket, if any.
\<close>

definition lookup ::
  "query_env \<Rightarrow> query_statics \<Rightarrow> dns_query \<Rightarrow> (query_statics \<times> dns_query \<times> byte list option) option" where
  "lookup env st q =
     (let st' = st\<lparr>mMasterTid := mMasterTid st + 1\<rparr>
      in do { sname \<leftarrow> put_bytes 2048 (bytes_of (mDomainName (mName q)) @ [0]) [];
              pkt \<leftarrow> put_bytes dns_packet_len (query_header (mMasterTid st')) [];
              pkt \<leftarrow> write_labels dns_packet_len (takeWhile (\<lambda>b. b \<noteq> 0) sname) pkt;
              pkt \<leftarrow> put_bytes dns_packet_len [0, 0, of_nat (type_code (mQueryType q)), 0, 1] pkt;
              Some (if length pkt < dns_packet_len
                    then (st', if send_ok env then q else terminate_error (now env) DNS_ERROR q, Some pkt)
                    else (st', terminate_error (now env) DNS_ERROR q, None)) })"

section \<open>Constructors\<close>

definition open_socket :: "query_env \<Rightarrow> dns_query \<Rightarrow> dns_query" where
  "open_socket env q = q\<lparr>mSocketBound := bind_ok env\<rparr>"

definition count_query :: "query_statics \<Rightarrow> query_statics" where
  "count_query st = st\<lparr>mQueryCount := mQueryCount st + 1\<rparr>"

definition default_query :: "query_env \<Rightarrow> query_statics \<Rightarrow> query_statics \<times> dns_query" where
  "default_query env st =
     (count_query st,
      setStartTime (now env) (open_socket env
        (blank_query [] default_domain default_dns_port DNS_A_RECORD)))"

definition new_query ::
  "query_env \<Rightarrow> query_statics \<Rightarrow> nat option \<Rightarrow> host \<Rightarrow> domain_name \<Rightarrow> nat \<Rightarrow> dns_query_type \<Rightarrow>
   (query_statics \<times> dns_query \<times> byte list option) option" where
  "new_query env st listener resolver name port queryType =
     lookup env (count_query st)
       (setStartTime (now env) (open_socket env (setListener listener
          (blank_query resolver name port queryType))))"

definition new_query_expiring ::
  "query_env \<Rightarrow> query_statics \<Rightarrow> nat option \<Rightarrow> host \<Rightarrow> domain_name \<Rightarrow> time \<Rightarrow> nat \<Rightarrow> dns_query_type \<Rightarrow>
   (query_statics \<times> dns_query \<times> byte list option) option" where
  "new_query_expiring env st listener resolver name expiryTime port queryType =
     lookup env (count_query st)
       (setExpireTime env (Some expiryTime)
         (setStartTime (now env) (open_socket env (setListener listener
            (blank_query resolver name port queryType)))))"

text \<open>
  The copy constructors leave \<open>mExpiryTimer\<close> uninitialised before \<open>copy\<close> runs
  \<open>setExpireTime\<close>: \<open>junk\<close> is the value found there.
\<close>

definition copy_query :: "query_env \<Rightarrow> dns_query \<Rightarrow> dns_query \<Rightarrow> dns_query" where
  "copy_query env this other =
     (let q = this\<lparr>mError := mError other, mResolver := mResolver other,
                   mQueryType := mQueryType other, mTid := mTid other,
                   mStartTime := mStartTime other, mEndTime := mEndTime other,
                   mExpireTime := mExpireTime other, mName := mName other, mAddr := mAddr other,
                   mMxName := mMxName other, mPort := mPort other\<rparr>
      in if mExpiryTimer other \<ge> 0 then setExpireTime env (mExpireTime q) q else q)"

definition clone_query ::
  "query_env \<Rightarrow> int \<Rightarrow> query_statics \<Rightarrow> nat option \<Rightarrow> dns_query \<Rightarrow> query_statics \<times> dns_query" where
  "clone_query env junk st listener other =
     (count_query st,
      open_socket env (setListener listener
        (copy_query env ((blank_query [] default_domain 0 DNS_A_RECORD)\<lparr>mExpiryTimer := junk\<rparr>) other)))"

definition delete_query :: "query_statics \<Rightarrow> query_statics" where
  "delete_query st = st\<lparr>mQueryCount := mQueryCount st - 1\<rparr>"

section \<open>Receiving a reply\<close>

text \<open>\<open>parse_host\<close> is \<open>QHostAddress::setAddress(QString)\<close>.\<close>

fun apply_reply :: "(string \<Rightarrow> host) \<Rightarrow> time \<Rightarrow> reply \<Rightarrow> dns_query \<Rightarrow> dns_query" where
  "apply_reply parse_host t Ignored q = q"
| "apply_reply parse_host t NoAnswers q = terminate_error t DNS_DOES_NOT_EXIST (q\<lparr>mAddr := []\<rparr>)"
| "apply_reply parse_host t (MxName name) q =
     terminate_error t DNS_OK (q\<lparr>mMxName := mMxName q @ string_of_bytes (takeWhile (\<lambda>b. b \<noteq> 0) name)\<rparr>)"
| "apply_reply parse_host t (Address bs) q =
     terminate_error t DNS_OK (q\<lparr>mAddr := parse_host (dotted bs)\<rparr>)"

definition processDatagram ::
  "(string \<Rightarrow> host) \<Rightarrow> time \<Rightarrow> byte list \<Rightarrow> dns_query \<Rightarrow> dns_query option" where
  "processDatagram parse_host t pkt q =
     map_option (\<lambda>r. apply_reply parse_host t r q) (parse_datagram (mQueryType q) pkt)"

text \<open>\<open>readPendingDatagrams\<close>: stops as soon as the socket is closed.\<close>

fun readPendingDatagrams ::
  "(string \<Rightarrow> host) \<Rightarrow> time \<Rightarrow> byte list list \<Rightarrow> dns_query \<Rightarrow> dns_query option" where
  "readPendingDatagrams parse_host t [] q = Some q"
| "readPendingDatagrams parse_host t (pkt # pkts) q =
     (if mSocketBound q
      then (case processDatagram parse_host t pkt q of
              None \<Rightarrow> None
            | Some q' \<Rightarrow> readPendingDatagrams parse_host t pkts q')
      else Some q)"

section \<open>Frame lemmas\<close>

lemma terminate_simps [simp]:
  "mSocketBound (terminate t q) = False"
  "mEndTime (terminate t q) = Some t"
  "mExpiryTimer (terminate t q) = (if mExpiryTimer q \<ge> 0 then - 1 else mExpiryTimer q)"
  "mSignals (terminate t q) = mSignals q @ [Finished]"
  "mError (terminate t q) = mError q" "mListener (terminate t q) = mListener q"
  "mAddr (terminate t q) = mAddr q" "mStartTime (terminate t q) = mStartTime q"
  "mResolver (terminate t q) = mResolver q" "mName (terminate t q) = mName q"
  "mQueryType (terminate t q) = mQueryType q" "mExpireTime (terminate t q) = mExpireTime q"
  by (simp_all add: terminate_def setEndTime_def emit_def Let_def)

lemma emit_expired_simps [simp]:
  "mSocketBound (emit_expired q) = mSocketBound q"
  "mEndTime (emit_expired q) = mEndTime q"
  "mExpiryTimer (emit_expired q) = mExpiryTimer q"
  "mSignals (emit_expired q) = mSignals q @ [Expired]"
  "mError (emit_expired q) = (if mListener q = None then mError q else DNS_TIMEOUT)"
  "mListener (emit_expired q) = mListener q" "mStartTime (emit_expired q) = mStartTime q"
  "mName (emit_expired q) = mName q" "mResolver (emit_expired q) = mResolver q"
  by (simp_all add: emit_expired_def emit_def)

lemma bytes_of_nonzero: "0 \<notin> set (bytes_of s)"
  by (auto simp: bytes_of_def dest: set_takeWhileD)

lemma takeWhile_nonzero: "0 \<notin> set bs \<Longrightarrow> takeWhile (\<lambda>b. b \<noteq> 0) (bs @ [0 :: byte]) = bs"
  by (induction bs) auto

lemma lookup_eq:
  "lookup env st q =
     (let name = bytes_of (mDomainName (mName q));
          fits = length name < 2030;
          tid = mMasterTid st + 1
      in if 2030 < length name then None
         else Some (st\<lparr>mMasterTid := tid\<rparr>,
           if fits \<and> send_ok env then q else terminate_error (now env) DNS_ERROR q,
           if fits then Some (query_packet tid (mQueryType q) name) else None))"
proof -
  define name where "name = bytes_of (mDomainName (mName q))"
  have 0: "takeWhile (\<lambda>b. b \<noteq> 0) (name @ [0]) = name"
    unfolding name_def using bytes_of_nonzero by (rule takeWhile_nonzero)
  consider "length name < 2030" | "length name = 2030" | "2030 < length name" by linarith
  then show ?thesis
    by cases
      (simp_all add: lookup_def Let_def name_def [symmetric] put_bytes_eq write_labels_eq 0 dns_packet_len_def query_packet_def)
qed

lemma lookup_Some:
  "lookup env st q = Some (st', q', pkt) \<Longrightarrow>
   (q' = q \<or> q' = terminate_error (now env) DNS_ERROR q) \<and> mMasterTid st' = mMasterTid st + 1"
  by (auto simp: lookup_eq Let_def split: if_splits)

lemma lookup_None: "lookup env st q = None \<longleftrightarrow> 2030 < length (bytes_of (mDomainName (mName q)))"
  by (auto simp: lookup_eq Let_def)

lemma new_expiring_sent:
  assumes "new_query_expiring env st l r n e p qt = Some (st', q, pkt)" "send_ok env"
    "length (bytes_of (mDomainName n)) < 2030"
  shows "q = setExpireTime env (Some e) (setStartTime (now env)
    (open_socket env (setListener l (blank_query r n p qt))))"
proof -
  have "mName (setExpireTime env (Some e) (setStartTime (now env)
      (open_socket env (setListener l (blank_query r n p qt))))) = n"
    by (simp add: setExpireTime_def setStartTime_def open_socket_def setListener_def blank_query_def
        emit_def terminate_def setEndTime_def emit_expired_def Let_def)
  then show ?thesis
    using assms by (auto simp: new_query_expiring_def lookup_eq Let_def)
qed

section \<open>The life of a query\<close>

definition pending :: "dns_query \<Rightarrow> bool" where
  "pending q = (mSocketBound q \<and> 0 \<le> mExpiryTimer q \<and> mEndTime q = None \<and>
     count_list (mSignals q) Finished = 0)"

definition finished :: "dns_query \<Rightarrow> bool" where
  "finished q = (\<not> mSocketBound q \<and> mExpiryTimer q = - 1 \<and> mEndTime q \<noteq> None \<and>
     count_list (mSignals q) Finished = 1)"

definition query_inv :: "dns_query \<Rightarrow> bool" where
  "query_inv q = (pending q \<or> finished q)"

lemma count_list_snoc [simp]: "count_list (xs @ [y]) x = count_list xs x + (if x = y then 1 else 0)"
  by (induction xs) auto

lemma terminate_finishes: "pending q \<Longrightarrow> finished (terminate t q)"
  by (simp add: pending_def finished_def)

lemma pending_error [simp]: "pending (q\<lparr>mError := e\<rparr>) = pending q" "pending (q\<lparr>mAddr := a\<rparr>) = pending q"
  "pending (q\<lparr>mMxName := m\<rparr>) = pending q"
  by (simp_all add: pending_def)

lemma pending_expired [simp]: "pending (emit_expired q) = pending q"
  by (simp add: pending_def)

lemma terminate_error_finishes: "pending q \<Longrightarrow> finished (terminate_error t e q)"
  by (simp add: terminate_error_def terminate_finishes)

lemma apply_reply_inv: "pending q \<Longrightarrow> query_inv (apply_reply ph t r q)"
  by (cases r) (auto simp: query_inv_def intro: terminate_error_finishes)

lemma readPending_pending:
  "query_inv q \<Longrightarrow> readPendingDatagrams ph t pkts q = Some q' \<Longrightarrow> query_inv q'"
proof (induction ph t pkts q rule: readPendingDatagrams.induct)
  case (2 ph t pkt pkts q)
  show ?case
  proof (cases "mSocketBound q")
    case True
    with 2(2) have "pending q" by (auto simp: query_inv_def finished_def)
    with True 2(1,3) show ?thesis
      by (auto simp: processDatagram_def apply_reply_inv split: option.splits)
  next
    case False
    with 2 show ?thesis by simp
  qed
qed simp

lemma readPending_finished [simp]: "finished q \<Longrightarrow> readPendingDatagrams ph t pkts q = Some q"
  by (cases pkts) (auto simp: finished_def)

lemma timerEvent_inv: "query_inv q \<Longrightarrow> 0 \<le> timer \<Longrightarrow> query_inv (timerEvent t timer q)"
  by (auto simp: query_inv_def timerEvent_def finished_def pending_def)

lemma timerEvent_finished [simp]: "finished q \<Longrightarrow> 0 \<le> timer \<Longrightarrow> timerEvent t timer q = q"
  by (auto simp: timerEvent_def finished_def)

text \<open>The events of the event loop that reach a query. Qt timer ids are positive.\<close>

inductive query_step :: "(string \<Rightarrow> host) \<Rightarrow> dns_query \<Rightarrow> dns_query \<Rightarrow> bool" for ph where
  readable: "readPendingDatagrams ph t pkts q = Some q' \<Longrightarrow> query_step ph q q'"
| timer: "0 < timerId \<Longrightarrow> query_step ph q (timerEvent t timerId q)"

inductive_cases query_stepE: "query_step ph q q'"

text \<open>
  A query as the resolver test creates it: with a bound socket, an expiry time in the
  future and a timer for it.
\<close>

definition query_init :: "dns_query \<Rightarrow> bool" where
  "query_init q = (\<exists>env st l r n e p qt st' pkt.
     new_query_expiring env st l r n e p qt = Some (st', q, pkt) \<and>
     bind_ok env \<and> now env < e \<and> (\<forall>ms. 0 < start_timer env ms))"

lemma new_query_inv:
  assumes "new_query_expiring env st l r n e p qt = Some (st', q, pkt)"
    "bind_ok env" "now env < e" "0 \<le> start_timer env (e - now env)"
  shows "query_inv q"
proof -
  define q0 where "q0 = setExpireTime env (Some e) (setStartTime (now env)
    (open_socket env (setListener l (blank_query r n p qt))))"
  have "pending q0"
    using assms(2-4) by (simp add: q0_def pending_def setExpireTime_def setStartTime_def open_socket_def
        setListener_def blank_query_def emit_def Let_def)
  moreover have "q = q0 \<or> q = terminate_error (now env) DNS_ERROR q0"
    using assms(1) lookup_Some unfolding new_query_expiring_def q0_def by blast
  ultimately show ?thesis by (auto simp: query_inv_def terminate_error_finishes)
qed

interpretation query_life: invariant_system query_init "query_step ph" query_inv
proof unfold_locales
  fix q assume "query_init q" then show "query_inv q"
    by (auto simp: query_init_def less_imp_le intro: new_query_inv)
next
  fix q q' assume "query_inv q" "query_step ph q q'" then show "query_inv q'"
    by (auto elim!: query_stepE intro: readPending_pending timerEvent_inv)
qed

lemma query_step_finished: "finished q \<Longrightarrow> query_step ph q q' \<Longrightarrow> q' = q"
  by (auto elim!: query_stepE)

lemma query_path_finished: "(query_step ph)\<^sup>*\<^sup>* q q' \<Longrightarrow> finished q \<Longrightarrow> q' = q"
  by (induction rule: rtranclp_induct) (auto dest: query_step_finished)

section \<open>Properties\<close>

text \<open>A query of a resolver at second 1, that expires ten seconds later, for the witnesses.\<close>

definition sample_env :: query_env where
  "sample_env = \<lparr>now = 1000, start_timer = (\<lambda>ms. 7), bind_ok = True, send_ok = True\<rparr>"

definition sample_query :: dns_query where
  "sample_query = setExpireTime sample_env (Some 11000) (setStartTime 1000 (open_socket sample_env
     (setListener (Some 3) (blank_query ''10.0.0.1'' (fromString ''opennic;a.b'') 53 DNS_A_RECORD))))"

lemmas sample_simps = sample_query_def sample_env_def setExpireTime_def setStartTime_def open_socket_def
  setListener_def blank_query_def emit_def fromString_def trimmed_def is_space_def

lemma sample_pending: "pending sample_query" "mListener sample_query = Some 3" "mExpiryTimer sample_query = 7"
  by (simp_all add: sample_simps pending_def)

lemma sample_name: "bytes_of ''a.b'' = [97, 46, 98]" "mDomainName (fromString ''opennic;a.b'') = ''a.b''"
  by (simp_all add: bytes_of_def sample_simps)

lemma sample_new:
  "new_query_expiring sample_env \<lparr>mQueryCount = 0, mMasterTid = 0\<rparr> (Some 3) ''10.0.0.1''
     (fromString ''opennic;a.b'') 11000 53 DNS_A_RECORD =
   Some (\<lparr>mQueryCount = 1, mMasterTid = 1\<rparr>, sample_query, Some (query_packet 1 DNS_A_RECORD [97, 46, 98]))"
proof -
  have "mName sample_query = fromString ''opennic;a.b''" "mQueryType sample_query = DNS_A_RECORD"
    "send_ok sample_env" "now sample_env = 1000"
    by (simp_all add: sample_simps)
  then show ?thesis
    by (simp add: new_query_expiring_def lookup_eq count_query_def sample_name
        sample_query_def [symmetric] del: query_statics.update_convs)
qed

text \<open>C19: the life of a query: in every state that events can reach it is either waiting, with its
  socket bound and its expiry timer running, or finished, with both released and the signal
  \<open>finished\<close> emitted exactly once; and no event changes a finished query.\<close>

theorem query_lifecycle:
  assumes "reachable query_init (query_step ph) q"
  shows "query_inv q \<and> (finished q \<longrightarrow> (\<forall>q'. (query_step ph)\<^sup>*\<^sup>* q q' \<longrightarrow> q' = q))"
  using query_life.reach_inv [OF assms] query_path_finished by blast

lemma query_lifecycle_witness:
  "query_inv (timerEvent 11000 7 sample_query) \<and> finished (timerEvent 11000 7 sample_query)"
proof -
  have "query_init sample_query"
    unfolding query_init_def using sample_new by (intro exI conjI) (auto simp: sample_env_def)
  then have "reachable query_init (query_step ph) (timerEvent 11000 7 sample_query)" for ph
    by (rule reachable.stepped [OF reachable.initial]) (rule query_step.timer, simp)
  then show ?thesis
    using query_lifecycle sample_pending by (auto simp: timerEvent_def intro: terminate_finishes)
qed

text \<open>when its expiry timer fires, a waiting query ends with the error the listener sets,
  \<open>DNS_TIMEOUT\<close>, at that instant, and later datagrams do not change it.\<close>

theorem query_expiry:
  assumes "pending q" "mListener q \<noteq> None"
  shows "finished (timerEvent t (mExpiryTimer q) q) \<and>
    mError (timerEvent t (mExpiryTimer q) q) = DNS_TIMEOUT \<and>
    mEndTime (timerEvent t (mExpiryTimer q) q) = Some t \<and>
    readPendingDatagrams ph t' pkts (timerEvent t (mExpiryTimer q) q) = Some (timerEvent t (mExpiryTimer q) q)"
proof -
  have "timerEvent t (mExpiryTimer q) q = terminate t (emit_expired q)" by (simp add: timerEvent_def)
  moreover have "finished (terminate t (emit_expired q))" using assms(1) by (intro terminate_finishes) simp
  ultimately show ?thesis using assms(2) by auto
qed

lemma query_expiry_witness:
  "mError (timerEvent 11000 7 sample_query) = DNS_TIMEOUT \<and> finished (timerEvent 11000 7 sample_query)"
  using query_expiry [of sample_query 11000] sample_pending by simp

text \<open>C39: \<open>lookup\<close> sends the question of RFC 1035 and stays inside its arrays exactly for names
  of up to 2030 bytes: the stores of its label loop give, after the header, each label with its
  length in front, the end of the name, the type and class 1; the packet is handed to the socket
  for names of up to 2029 bytes, a failed write ends the query with \<open>DNS_ERROR\<close>, and a name of
  2030 bytes is refused with the same error; a longer one makes it write past its packet buffer.\<close>

theorem lookup_bounds:
  "lookup env st q =
     (let name = bytes_of (mDomainName (mName q));
          fits = length name < 2030;
          tid = mMasterTid st + 1
      in if 2030 < length name then None
         else Some (st\<lparr>mMasterTid := tid\<rparr>,
           if fits \<and> send_ok env then q else terminate_error (now env) DNS_ERROR q,
           if fits then Some (query_header tid @ concat (map wire_label (split_on dot name)) @ [0] @
               be16 (type_code (mQueryType q)) @ be16 1)
           else None))"
  by (cases "mQueryType q") (simp_all add: lookup_eq Let_def query_packet_def encode_labels_split be16_def)

lemma reply_to_pending:
  assumes "pending q" "mQueryType q = DNS_A_RECORD" "mStartTime q = Some t0" "t0 \<le> t"
    and "parse_datagram DNS_A_RECORD pkt = Some (Address bs)"
  shows "\<exists>q'. readPendingDatagrams ph t (pkt # others) q = Some q' \<and> finished q' \<and> mError q' = DNS_OK \<and>
    mAddr q' = ph (dotted bs) \<and> int (latency q') = t - t0"
proof -
  define q' where "q' = terminate_error t DNS_OK (q\<lparr>mAddr := ph (dotted bs)\<rparr>)"
  have fin: "finished q'" using assms(1) by (simp add: q'_def terminate_error_finishes)
  moreover have "readPendingDatagrams ph t (pkt # others) q = Some q'"
    using assms fin by (simp add: processDatagram_def q'_def pending_def)
  moreover have "int (latency q') = t - t0"
    using assms(3,4) by (auto simp: latency_def q'_def terminate_error_def)
  ultimately show ?thesis by (auto simp: q'_def terminate_error_def)
qed

lemma new_expiring_pending:
  assumes "q = setExpireTime env (Some e) (setStartTime (now env)
      (open_socket env (setListener l (blank_query r n p qt))))"
    "bind_ok env" "now env < e" "0 \<le> start_timer env (e - now env)"
  shows "pending q" "mQueryType q = qt" "mStartTime q = Some (now env)"
  using assms by (simp_all add: pending_def setExpireTime_def setStartTime_def open_socket_def
      setListener_def blank_query_def emit_def Let_def)





end
