(* ===== verification/Resolver.thy ===== *)
theory Resolver
  imports DnsQuery
begin

text \<open>
  \<open>server/opennicdnsquerylistener.cpp\<close> and \<open>server/opennicresolver.cpp\<close>: a resolver, which
  is a query listener with a bounded history of queries, newest first. The listener owns
  its queries, so the history is a list of query records. The address of the object
  (\<open>this\<close>) is passed where the code hands it on.
\<close>

section \<open>State\<close>

datatype status = Red | Yellow | Green

instantiation status :: linorder
begin

definition less_eq_status :: "status \<Rightarrow> status \<Rightarrow> bool" where
  "less_eq_status a b = (a = Red \<or> b = Green \<or> a = b)"

definition less_status :: "status \<Rightarrow> status \<Rightarrow> bool" where
  "less_status a b = (a \<noteq> b \<and> (a = Red \<or> b = Green))"

instance
proof
  fix x y z :: status
  show "(x < y) = (x \<le> y \<and> \<not> y \<le> x)"
    by (cases x; cases y) (simp_all add: less_eq_status_def less_status_def)
  show "x \<le> x" by (simp add: less_eq_status_def)
  show "x \<le> y \<Longrightarrow> y \<le> z \<Longrightarrow> x \<le> z"
    by (cases x; cases y; cases z) (simp_all add: less_eq_status_def)
  show "x \<le> y \<Longrightarrow> y \<le> x \<Longrightarrow> x = y" by (cases x; cases y) (simp_all add: less_eq_status_def)
  show "x \<le> y \<or> y \<le> x" by (cases x; cases y) (simp_all add: less_eq_status_def)
qed

end

record resolver =
  mRefCount :: int
  mScore :: double
  mHostAddress :: host
  mKind :: string
  mQueryIntervalTimer :: int     \<comment> \<open>a Qt timer id, or -1\<close>
  mBootstrapTicks :: int
  mQueries :: "dns_query list"   \<comment> \<open>newest first\<close>
  mMaxQueryDepth :: int

definition max_query_depth :: int where
  "max_query_depth = 10"

definition blank_resolver :: resolver where
  \<comment> \<open>the member initialisers of \<open>OpenNICResolver\<close> and of its base class\<close>
  "blank_resolver = \<lparr>mRefCount = 0, mScore = Fin 0, mHostAddress = [], mKind = [],
     mQueryIntervalTimer = - 1, mBootstrapTicks = 0, mQueries = [], mMaxQueryDepth = max_query_depth\<rparr>"

section \<open>OpenNICDnsQueryListener\<close>

fun tally :: "dns_query list \<Rightarrow> nat \<Rightarrow> int \<Rightarrow> int \<Rightarrow> int \<times> int" where
  \<comment> \<open>the loop of \<open>status\<close> over the newest \<open>n\<close> queries: successes and failures\<close>
  "tally [] n successes failures = (successes, failures)"
| "tally qs 0 successes failures = (successes, failures)"
| "tally (q # qs) (Suc n) successes failures =
     (case mError q of
        DNS_OK \<Rightarrow> tally qs n (successes + 1) failures
      | DNS_DOES_NOT_EXIST \<Rightarrow> tally qs n successes (failures + 1)
      | DNS_TIMEOUT \<Rightarrow> tally qs n successes (failures + 1)
      | DNS_ERROR \<Rightarrow> tally qs n successes (failures + 1))"

definition status :: "resolver \<Rightarrow> status" where
  "status r =
     (if mQueries r \<noteq> [] then
        (let (successes, failures) = tally (mQueries r) 3 0 0
         in if failures = 0 \<and> successes > 0 then Green
            else if successes - failures \<ge> 1 then Yellow
            else Red)
      else Red)"

function prune_loop :: "int \<Rightarrow> dns_query list \<Rightarrow> dns_query list" where
  "prune_loop depth qs =
     (if length qs > 0 \<and> int (length qs) > depth then prune_loop depth (butlast qs) else qs)"
  by pat_completeness auto
termination by (relation "measure (\<lambda>(d, qs). length qs)") auto

declare prune_loop.simps [simp del]

definition pruneQueries :: "resolver \<Rightarrow> resolver" where
  "pruneQueries r = r\<lparr>mQueries := prune_loop (mMaxQueryDepth r) (mQueries r)\<rparr>"

definition setMaxQueryDepth :: "int \<Rightarrow> resolver \<Rightarrow> resolver" where
  "setMaxQueryDepth depth r =
     pruneQueries (if depth \<ge> 1 then r\<lparr>mMaxQueryDepth := depth\<rparr> else r)"

definition addToQueries :: "dns_query \<Rightarrow> resolver \<Rightarrow> resolver" where
  "addToQueries q r = pruneQueries (r\<lparr>mQueries := q # mQueries r\<rparr>)"

definition listener_clear :: "resolver \<Rightarrow> resolver" where
  "listener_clear r = r\<lparr>mQueries := [], mMaxQueryDepth := max_query_depth\<rparr>"

text \<open>
  The destructor's loop, \<open>delete mQueries.takeAt(n)\<close> for growing \<open>n\<close>: the queries it
  deletes, and those left in the list when the loop ends.
\<close>

function destroy_loop :: "nat \<Rightarrow> 'q list \<Rightarrow> 'q list \<Rightarrow> 'q list \<times> 'q list" where
  "destroy_loop n qs deleted =
     (if n < length qs then destroy_loop (Suc n) (take_at n qs) (deleted @ [qs ! n])
      else (deleted, qs))"
  by pat_completeness auto
termination by (relation "measure (\<lambda>(n, qs, d). length qs - n)") auto

declare destroy_loop.simps [simp del]

definition destroy_listener :: "resolver \<Rightarrow> dns_query list \<times> dns_query list" where
  "destroy_listener r = destroy_loop 0 (mQueries r) []"

text \<open>\<open>copy\<close>: every query of the other listener is cloned with this one as its listener.\<close>

fun clone_all ::
  "query_env \<Rightarrow> int \<Rightarrow> nat \<Rightarrow> query_statics \<Rightarrow> dns_query list \<Rightarrow> query_statics \<times> dns_query list" where
  "clone_all env junk this st [] = (st, [])"
| "clone_all env junk this st (q # qs) =
     (let (st1, q') = clone_query env junk st (Some this) q;
          (st2, qs') = clone_all env junk this st1 qs
      in (st2, q' # qs'))"

definition listener_copy ::
  "query_env \<Rightarrow> int \<Rightarrow> nat \<Rightarrow> query_statics \<Rightarrow> resolver \<Rightarrow> resolver \<Rightarrow> query_statics \<times> resolver" where
  "listener_copy env junk this st r other =
     (let (st', qs) = clone_all env junk this st (mQueries other)
      in (st', r\<lparr>mQueries := mQueries r @ qs, mMaxQueryDepth := mMaxQueryDepth other\<rparr>))"

section \<open>OpenNICResolver: the history\<close>

fun last_reply :: "dns_query list \<Rightarrow> time option" where
  "last_reply [] = None"
| "last_reply (q # qs) =
     (if mError q = DNS_DOES_NOT_EXIST \<or> mError q = DNS_OK then mEndTime q else last_reply qs)"

definition lastReply :: "resolver \<Rightarrow> time option" where
  "lastReply r = last_reply (mQueries r)"

fun last_timeout :: "dns_query list \<Rightarrow> time option" where
  "last_timeout [] = None"
| "last_timeout (q # qs) = (if mError q = DNS_TIMEOUT then mEndTime q else last_timeout qs)"

definition lastTimeout :: "resolver \<Rightarrow> time option" where
  "lastTimeout r = last_timeout (mQueries r)"

definition lastFault :: "resolver \<Rightarrow> string" where
  "lastFault r =
     (case mQueries r of
        [] \<Rightarrow> []
      | q # _ \<Rightarrow>
          (let what = mDomainName (mName q) @ '' ('' @ mDnsService (mName q) @ '')''
           in case mError q of
                DNS_OK \<Rightarrow> ''DNS_OK '' @ mAddr q @ '' '' @ what
              | DNS_DOES_NOT_EXIST \<Rightarrow> ''DNS_DOES_NOT_EXIST '' @ what
              | DNS_TIMEOUT \<Rightarrow> ''DNS_TIMEOUT '' @ what
              | DNS_ERROR \<Rightarrow> ''DNS_ERROR '' @ what))"

fun dead_count :: "dns_query list \<Rightarrow> nat" where
  \<comment> \<open>the loop of \<open>alive\<close>, which breaks at the first query that is not dead\<close>
  "dead_count [] = 0"
| "dead_count (q # qs) =
     (if mError q = DNS_TIMEOUT \<or> mError q = DNS_ERROR then Suc (dead_count qs) else 0)"

definition alive :: "resolver \<Rightarrow> bool" where
  "alive r = (\<not> dead_count (mQueries r) \<ge> 2)"

definition testCount :: "resolver \<Rightarrow> nat" where
  "testCount r = length (mQueries r)"

definition replyCount :: "resolver \<Rightarrow> nat" where
  "replyCount r =
     length (filter (\<lambda>q. mError q = DNS_OK \<or> mError q = DNS_DOES_NOT_EXIST) (mQueries r))"

definition timeoutCount :: "resolver \<Rightarrow> nat" where
  "timeoutCount r = length (filter (\<lambda>q. mError q = DNS_TIMEOUT) (mQueries r))"

definition lastLatency :: "resolver \<Rightarrow> int" where
  \<comment> \<open>the quint64 latency stored into an int\<close>
  "lastLatency r = (case mQueries r of [] \<Rightarrow> - 1 | q # _ \<Rightarrow> sint (of_nat (latency q) :: 32 word))"

text \<open>\<open>rnd\<close> rounds an exact value to a double.\<close>

fun total_latency :: "(rat \<Rightarrow> rat) \<Rightarrow> dns_query list \<Rightarrow> rat \<Rightarrow> rat" where
  "total_latency rnd [] tot = tot"
| "total_latency rnd (q # qs) tot = total_latency rnd qs (rnd (tot + rnd (of_nat (latency q))))"

definition averageLatency :: "(rat \<Rightarrow> rat) \<Rightarrow> resolver \<Rightarrow> rat" where
  "averageLatency rnd r =
     (if mQueries r \<noteq> []
      then rnd (total_latency rnd (mQueries r) 0 / of_nat (length (mQueries r)))
      else - 1)"

definition averageLatency_log :: "resolver \<Rightarrow> string list" where
  \<comment> \<open>what \<open>averageLatency\<close> logs\<close>
  "averageLatency_log r =
     (if mQueries r \<noteq> [] then [] else [''No Query History '' @ mHostAddress r])"

definition mostRecentQuery :: "resolver \<Rightarrow> dns_query option" where
  "mostRecentQuery r = (case mQueries r of [] \<Rightarrow> None | q # _ \<Rightarrow> Some q)"

fun resolves_nic :: "string \<Rightarrow> dns_query list \<Rightarrow> bool" where
  "resolves_nic nic [] = False"
| "resolves_nic nic (q # qs) =
     (if mDnsService (mName q) = nic \<and> mError q = DNS_OK then True else resolves_nic nic qs)"

definition resolvesNIC :: "resolver \<Rightarrow> string \<Rightarrow> bool" where
  "resolvesNIC r nic = resolves_nic nic (mQueries r)"

text \<open>\<open>fmt\<close> is \<open>QString::number(double)\<close>.\<close>

definition resolver_toString :: "(double \<Rightarrow> string) \<Rightarrow> resolver \<Rightarrow> string" where
  "resolver_toString fmt r =
     (case status r of Red \<Rightarrow> ''R'' | Yellow \<Rightarrow> ''Y'' | Green \<Rightarrow> ''G'') @ '';'' @
     fmt (mScore r) @ '';'' @ mKind r @ '';'' @ mHostAddress r @ '';''"

text \<open>The comparison operators compare scores.\<close>

definition resolver_eq :: "resolver \<Rightarrow> resolver \<Rightarrow> bool" where
  "resolver_eq a b = deq (mScore a) (mScore b)"

definition resolver_neq :: "resolver \<Rightarrow> resolver \<Rightarrow> bool" where
  "resolver_neq a b = (\<not> deq (mScore a) (mScore b))"

definition resolver_gt :: "resolver \<Rightarrow> resolver \<Rightarrow> bool" where
  "resolver_gt a b = dlt (mScore b) (mScore a)"

definition resolver_lt :: "resolver \<Rightarrow> resolver \<Rightarrow> bool" where
  "resolver_lt a b = dlt (mScore a) (mScore b)"

definition resolver_ge :: "resolver \<Rightarrow> resolver \<Rightarrow> bool" where
  "resolver_ge a b = (dlt (mScore b) (mScore a) \<or> deq (mScore a) (mScore b))"

definition resolver_le :: "resolver \<Rightarrow> resolver \<Rightarrow> bool" where
  "resolver_le a b = (dlt (mScore a) (mScore b) \<or> deq (mScore a) (mScore b))"

section \<open>OpenNICResolver: testing\<close>

text \<open>
  What the platform supplies to one run of \<open>test\<close>: the domain \<open>randomDomain()\<close> drew, and
  the \<open>qrand()\<close> value behind the next interval.
\<close>

record launch =
  l_env :: query_env
  l_domain :: domain_name
  l_draw :: nat

definition max_timeout :: int where
  "max_timeout = 10 * 1000"

definition random_interval_min :: int where
  "random_interval_min = 10 * 1000"

definition random_interval_max :: int where
  "random_interval_max = (10 * 60) * 1000"

definition bootstrap_timer_ticks :: int where
  "bootstrap_timer_ticks = 3"

definition resetQueryTimer :: "launch \<Rightarrow> resolver \<Rightarrow> resolver option" where
  "resetQueryTimer l r =
     (let r1 = (if mQueryIntervalTimer r \<ge> 0 then r\<lparr>mQueryIntervalTimer := - 1\<rparr> else r);
          r2 = r1\<lparr>mBootstrapTicks := mBootstrapTicks r1 + 1\<rparr>
      in map_option (\<lambda>ms. r2\<lparr>mQueryIntervalTimer := start_timer (l_env l) ms\<rparr>)
           (if mBootstrapTicks r1 < bootstrap_timer_ticks
            then random_in (l_draw l) (random_interval_min div 4) (random_interval_max div 8)
            else random_in (l_draw l) random_interval_min random_interval_max))"

text \<open>None: undefined behaviour while the query is built (a name too long for \<open>lookup\<close>).\<close>

definition resolver_test ::
  "launch \<Rightarrow> nat \<Rightarrow> query_statics \<Rightarrow> resolver \<Rightarrow> (query_statics \<times> resolver) option" where
  "resolver_test l this st r =
     do { (st', q, pkt) \<leftarrow> new_query_expiring (l_env l) st (Some this) (mHostAddress r) (l_domain l)
            (now (l_env l) + max_timeout) default_dns_port DNS_A_RECORD;
          let r1 = addToQueries q r;
          r2 \<leftarrow> resetQueryTimer l r1;
          Some (st'\<lparr>mQueryCount := mQueryCount st' - (int (length (mQueries r)) + 1 - int (length (mQueries r1)))\<rparr>, r2) }"

definition resolver_clear :: "resolver \<Rightarrow> resolver" where
  "resolver_clear r = (listener_clear r)\<lparr>mHostAddress := [], mKind := []\<rparr>"

definition new_resolver ::
  "launch \<Rightarrow> nat \<Rightarrow> query_statics \<Rightarrow> host \<Rightarrow> string \<Rightarrow> (query_statics \<times> resolver) option" where
  "new_resolver l this st hostAddress kind =
     resolver_test l this st
       ((resolver_clear blank_resolver)\<lparr>mHostAddress := hostAddress, mKind := kind\<rparr>)"

definition resolver_copy ::
  "query_env \<Rightarrow> int \<Rightarrow> nat \<Rightarrow> query_statics \<Rightarrow> resolver \<Rightarrow> resolver \<Rightarrow> query_statics \<times> resolver" where
  "resolver_copy env junk this st r other =
     (let (st', r') = listener_copy env junk this st r other
      in (st', r'\<lparr>mScore := mScore other, mHostAddress := mHostAddress other, mKind := mKind other\<rparr>))"

definition resolver_timerEvent ::
  "launch \<Rightarrow> nat \<Rightarrow> int \<Rightarrow> query_statics \<Rightarrow> resolver \<Rightarrow> (query_statics \<times> resolver) option" where
  "resolver_timerEvent l this timerId st r =
     (if timerId = mQueryIntervalTimer r then resolver_test l this st r else Some (st, r))"

section \<open>Pruning\<close>

lemma prune_loop_take: "0 \<le> depth \<Longrightarrow> prune_loop depth qs = take (nat depth) qs"
proof (induction depth qs rule: prune_loop.induct)
  case (1 depth qs)
  show ?case
  proof (cases "int (length qs) > depth")
    case True
    with 1 have "prune_loop depth qs = take (nat depth) (butlast qs)"
      by (subst prune_loop.simps) auto
    also have "\<dots> = take (nat depth) qs" using True by (simp add: take_butlast nat_less_iff 1(2))
    finally show ?thesis .
  next
    case False
    then show ?thesis by (subst prune_loop.simps) simp
  qed
qed

lemma prune_frame [simp]:
  "mHostAddress (pruneQueries r) = mHostAddress r" "mKind (pruneQueries r) = mKind r"
  "mRefCount (pruneQueries r) = mRefCount r" "mScore (pruneQueries r) = mScore r"
  "mMaxQueryDepth (pruneQueries r) = mMaxQueryDepth r"
  "mQueryIntervalTimer (pruneQueries r) = mQueryIntervalTimer r"
  "mBootstrapTicks (pruneQueries r) = mBootstrapTicks r"
  by (simp_all add: pruneQueries_def)

lemma addToQueries_frame [simp]:
  "mHostAddress (addToQueries q r) = mHostAddress r" "mKind (addToQueries q r) = mKind r"
  "mRefCount (addToQueries q r) = mRefCount r" "mScore (addToQueries q r) = mScore r"
  "mMaxQueryDepth (addToQueries q r) = mMaxQueryDepth r"
  by (simp_all add: addToQueries_def)

lemma addToQueries_queries:
  "1 \<le> mMaxQueryDepth r \<Longrightarrow>
   mQueries (addToQueries q r) = q # take (nat (mMaxQueryDepth r) - 1) (mQueries r)"
  by (cases "nat (mMaxQueryDepth r)") (auto simp: addToQueries_def pruneQueries_def prune_loop_take)

lemma destroy_loop_keeps:
  "length (fst (destroy_loop n qs deleted)) = length deleted + (length qs - n + 1) div 2"
proof (induction n qs deleted rule: destroy_loop.induct)
  case (1 n qs deleted)
  show ?case
  proof (cases "n < length qs")
    case True
    then have "Suc ((length qs - 1 - Suc n + 1) div 2) = (length qs - n + 1) div 2" by presburger
    with True 1 show ?thesis by (subst destroy_loop.simps) simp
  next
    case False
    then show ?thesis by (subst destroy_loop.simps) simp
  qed
qed

lemma destroy_loop_split:
  "mset (fst (destroy_loop n qs deleted)) + mset (snd (destroy_loop n qs deleted)) = mset deleted + mset qs"
proof (induction n qs deleted rule: destroy_loop.induct)
  case (1 n qs deleted)
  show ?case
  proof (cases "n < length qs")
    case True
    then have "mset qs = add_mset (qs ! n) (mset (take_at n qs))"
      by (metis take_at_def id_take_nth_drop mset_append mset.simps(2) union_mset_add_mset_right)
    with True 1 show ?thesis by (subst (1 2) destroy_loop.simps) simp
  next
    case False
    then show ?thesis by (subst (1 2) destroy_loop.simps) simp
  qed
qed

section \<open>What the history says\<close>

definition failed :: "dns_query \<Rightarrow> bool" where
  "failed q = (mError q \<noteq> DNS_OK)"

lemma tally_count:
  "tally qs n s f = (s + int (length (filter (\<lambda>q. \<not> failed q) (take n qs))),
                     f + int (length (filter failed (take n qs))))"
  by (induction qs n s f rule: tally.induct) (auto simp: failed_def split: dns_error.split)

text \<open>The status is a verdict on the three newest queries: Green when none of them failed,
  Yellow when fewer than half did, Red otherwise and for a resolver without history.\<close>

theorem status_count:
  "status r = (let bad = length (filter failed (take 3 (mQueries r))); n = length (take 3 (mQueries r))
     in if n > 0 \<and> bad = 0 then Green else if 2 * bad < n then Yellow else Red)"
proof -
  define qs where "qs = take 3 (mQueries r)"
  have sum: "length (filter failed qs) + length (filter (\<lambda>q. \<not> failed q) qs) = length qs"
    by (rule sum_length_filter_compl)
  have nil: "qs = [] \<longleftrightarrow> mQueries r = []" by (simp add: qs_def)
  have "tally (mQueries r) 3 0 0 =
      (int (length (filter (\<lambda>q. \<not> failed q) qs)), int (length (filter failed qs)))"
    by (simp add: tally_count qs_def)
  then have "status r = (if qs \<noteq> [] then
      (if length (filter failed qs) = 0 \<and> length (filter (\<lambda>q. \<not> failed q) qs) > 0 then Green
       else if int (length (filter (\<lambda>q. \<not> failed q) qs)) - int (length (filter failed qs)) \<ge> 1 then Yellow
       else Red) else Red)"
    by (simp add: status_def nil)
  moreover have "(if b = 0 \<and> g > 0 then Green else if int g - int b \<ge> 1 then Yellow else Red) =
      (if n > 0 \<and> b = 0 then Green else if 2 * b < n then Yellow else Red)"
    if "b + g = n" for b g n :: nat
    using that by auto
  note this [OF sum]
  ultimately show ?thesis
    using sum unfolding qs_def [symmetric] Let_def by (cases "qs = []") simp_all
qed

lemma dead_count_two: "dead_count qs \<ge> 2 \<longleftrightarrow>
   (\<exists>a b rest. qs = a # b # rest \<and> mError a \<in> {DNS_TIMEOUT, DNS_ERROR} \<and>
      mError b \<in> {DNS_TIMEOUT, DNS_ERROR})"
  by (cases qs; cases "tl qs") auto

lemma resolves_nic_iff:
  "resolves_nic nic qs \<longleftrightarrow> (\<exists>q \<in> set qs. mDnsService (mName q) = nic \<and> mError q = DNS_OK)"
  by (induction qs) auto

section \<open>The invariant of a resolver\<close>

definition resolver_inv :: "nat \<Rightarrow> resolver \<Rightarrow> bool" where
  "resolver_inv this r =
     (1 \<le> mMaxQueryDepth r \<and> mQueries r \<noteq> [] \<and> int (length (mQueries r)) \<le> mMaxQueryDepth r \<and>
      (\<forall>q \<in> set (mQueries r). mListener q = Some this))"

lemma terminate_error_listener [simp]: "mListener (terminate_error t e q) = mListener q"
  by (simp add: terminate_error_def)

lemma new_query_listener:
  assumes "new_query_expiring env st l r n e p qt = Some (st', q, pkt)"
  shows "mListener q = l \<and> mResolver q = r \<and> mName q = n"
proof -
  define q0 where "q0 = setExpireTime env (Some e) (setStartTime (now env)
    (open_socket env (setListener l (blank_query r n p qt))))"
  have "mListener q0 = l" "mResolver q0 = r" "mName q0 = n"
    by (simp_all add: q0_def setExpireTime_def setStartTime_def open_socket_def setListener_def
        blank_query_def emit_def Let_def)
  moreover have "q = q0 \<or> q = terminate_error (now env) DNS_ERROR q0"
    using assms lookup_Some unfolding new_query_expiring_def q0_def by blast
  ultimately show ?thesis by (auto simp: terminate_error_def)
qed

lemma resetQueryTimer_Some:
  "\<exists>t. resetQueryTimer l r = Some (r\<lparr>mQueryIntervalTimer := t, mBootstrapTicks := mBootstrapTicks r + 1\<rparr>)"
proof -
  obtain a where a: "random_in (l_draw l) (random_interval_min div 4) (random_interval_max div 8) = Some a"
    using random_in_range [of "random_interval_min div 4" "random_interval_max div 8" "l_draw l"]
    by (auto simp: random_interval_min_def random_interval_max_def)
  obtain b where b: "random_in (l_draw l) random_interval_min random_interval_max = Some b"
    using random_in_range [of "random_interval_min" "random_interval_max" "l_draw l"]
    by (auto simp: random_interval_min_def random_interval_max_def)
  show ?thesis
  proof (cases "mBootstrapTicks r < bootstrap_timer_ticks")
    case True
    then show ?thesis
      by (intro exI [of _ "start_timer (l_env l) a"]) (simp add: resetQueryTimer_def Let_def a)
  next
    case False
    then show ?thesis
      by (intro exI [of _ "start_timer (l_env l) b"]) (simp add: resetQueryTimer_def Let_def b)
  qed
qed

lemma resolver_test_Some:
  assumes "resolver_test l this st r = Some (st', r')"
  obtains q t where "mListener q = Some this" "mName q = l_domain l" "mResolver q = mHostAddress r"
    "r' = (addToQueries q r)\<lparr>mQueryIntervalTimer := t, mBootstrapTicks := mBootstrapTicks (addToQueries q r) + 1\<rparr>"
proof -
  from assms obtain st1 q pkt r2 where
    q: "new_query_expiring (l_env l) st (Some this) (mHostAddress r) (l_domain l)
            (now (l_env l) + max_timeout) default_dns_port DNS_A_RECORD = Some (st1, q, pkt)"
    and r2: "resetQueryTimer l (addToQueries q r) = Some r2" and r': "r' = r2"
    by (auto simp: resolver_test_def Let_def split: bind_splits)
  with resetQueryTimer_Some [of l "addToQueries q r"] new_query_listener [OF q] that show ?thesis
    by auto
qed

lemma resolver_test_inv:
  assumes "resolver_test l this st r = Some (st', r')" "1 \<le> mMaxQueryDepth r"
    "\<forall>q \<in> set (mQueries r). mListener q = Some this"
  shows "resolver_inv this r' \<and> mHostAddress r' = mHostAddress r \<and> mKind r' = mKind r \<and>
    mRefCount r' = mRefCount r \<and> mScore r' = mScore r \<and> mMaxQueryDepth r' = mMaxQueryDepth r"
proof -
  from assms(1) obtain q t where q: "mListener q = Some this" and r':
    "r' = (addToQueries q r)\<lparr>mQueryIntervalTimer := t, mBootstrapTicks := mBootstrapTicks (addToQueries q r) + 1\<rparr>"
    by (rule resolver_test_Some)
  show ?thesis
    using q assms(2,3) by (auto simp: r' resolver_inv_def addToQueries_queries dest: in_set_takeD)
qed

lemma new_resolver_inv:
  assumes "new_resolver l this st h k = Some (st', r)"
  shows "resolver_inv this r \<and> mHostAddress r = h \<and> mKind r = k \<and> mRefCount r = 0 \<and> mScore r = Fin 0"
  using resolver_test_inv [OF assms [unfolded new_resolver_def]]
  by (simp add: resolver_clear_def listener_clear_def blank_resolver_def max_query_depth_def)

lemma setMaxQueryDepth_inv: "resolver_inv this r \<Longrightarrow> resolver_inv this (setMaxQueryDepth d r)"
  by (auto simp: resolver_inv_def setMaxQueryDepth_def pruneQueries_def prune_loop_take dest: in_set_takeD)

lemma resolver_timerEvent_frame:
  assumes "resolver_timerEvent l this timerId st r = Some (st', r')"
  shows "mRefCount r' = mRefCount r \<and> mHostAddress r' = mHostAddress r \<and> mKind r' = mKind r \<and> mScore r' = mScore r"
proof (cases "timerId = mQueryIntervalTimer r")
  case True
  with assms have "resolver_test l this st r = Some (st', r')" by (simp add: resolver_timerEvent_def)
  then show ?thesis by (rule resolver_test_Some) simp
next
  case False
  with assms show ?thesis by (simp add: resolver_timerEvent_def)
qed

section \<open>Properties\<close>

lemma new_query_sent:
  assumes "new_query_expiring env st l r n e p qt = Some (st', q, pkt)" "send_ok env" "now env < e"
    "length (bytes_of (mDomainName n)) < 2030"
  shows "mError q = DNS_OK \<and> mEndTime q = None \<and> mName q = n"
proof -
  define q0 where "q0 = setExpireTime env (Some e) (setStartTime (now env)
    (open_socket env (setListener l (blank_query r n p qt))))"
  have q0: "mError q0 = DNS_OK" "mEndTime q0 = None" "mName q0 = n"
    using assms(3) by (simp_all add: q0_def setExpireTime_def setStartTime_def open_socket_def
        setListener_def blank_query_def emit_def Let_def)
  have "q = q0" unfolding q0_def by (rule new_expiring_sent [OF assms(1,2,4)])
  with q0 show ?thesis by simp
qed

lemma new_query_returns:
  "length (bytes_of (mDomainName n)) \<le> 2030 \<Longrightarrow>
   \<exists>st' q pkt. new_query_expiring env st l r n e p qt = Some (st', q, pkt)"
proof -
  assume "length (bytes_of (mDomainName n)) \<le> 2030"
  then have "lookup env (count_query st) (setExpireTime env (Some e) (setStartTime (now env)
      (open_socket env (setListener l (blank_query r n p qt))))) \<noteq> None"
    by (simp add: lookup_None setExpireTime_def setStartTime_def open_socket_def setListener_def
        blank_query_def emit_def Let_def del: not_None_eq)
  then show ?thesis by (auto simp: new_query_expiring_def)
qed

lemma resolver_test_returns:
  assumes "length (bytes_of (mDomainName (l_domain l))) \<le> 2030"
  shows "\<exists>st' r'. resolver_test l this st r = Some (st', r')"
proof -
  obtain st1 q pkt where q: "new_query_expiring (l_env l) st (Some this) (mHostAddress r) (l_domain l)
      (now (l_env l) + max_timeout) default_dns_port DNS_A_RECORD = Some (st1, q, pkt)"
    using new_query_returns [OF assms] by blast
  then show ?thesis using resetQueryTimer_Some [of l "addToQueries q r"]
    by (auto simp: resolver_test_def Let_def)
qed

text \<open>A launch for the witnesses.\<close>

definition sample_launch :: launch where
  "sample_launch = \<lparr>l_env = sample_env, l_domain = fromString ''opennic;a.b'', l_draw = 4\<rparr>"

lemma sample_launch_simps: "l_env sample_launch = sample_env" "l_domain sample_launch = fromString ''opennic;a.b''"
  "mDnsService (fromString ''opennic;a.b'') = ''opennic''"
  "send_ok sample_env" "length (bytes_of (mDomainName (fromString ''opennic;a.b''))) = 3"
  by (simp_all add: sample_launch_def sample_name) (simp_all add: sample_simps)

lemma sample_test_returns: "\<exists>st' r'. resolver_test sample_launch this st r = Some (st', r')"
  by (rule resolver_test_returns) (simp add: sample_launch_simps)

lemma sample_resolver:
  obtains st r where "new_resolver sample_launch 3 \<lparr>mQueryCount = 0, mMasterTid = 0\<rparr> ''10.0.0.1'' ''T1'' = Some (st, r)"
  using sample_test_returns unfolding new_resolver_def by blast

text \<open>the history of a resolver never exceeds its depth and holds only its own queries: when
  its interval timer fires, a query of the drawn domain to its address is put in front and the
  oldest ones fall out.\<close>

theorem resolver_history:
  assumes "resolver_inv this r" "resolver_timerEvent l this timerId st r = Some (st', r')"
  shows "resolver_inv this r' \<and>
    (timerId = mQueryIntervalTimer r \<longrightarrow>
      (\<exists>q. mListener q = Some this \<and> mResolver q = mHostAddress r \<and> mName q = l_domain l \<and>
         mQueries r' = q # take (nat (mMaxQueryDepth r) - 1) (mQueries r)))"
proof (cases "timerId = mQueryIntervalTimer r")
  case True
  with assms(2) have test: "resolver_test l this st r = Some (st', r')" by (simp add: resolver_timerEvent_def)
  have depth: "1 \<le> mMaxQueryDepth r" using assms(1) by (simp add: resolver_inv_def)
  from test obtain q i where "mListener q = Some this" "mName q = l_domain l" "mResolver q = mHostAddress r"
    "r' = (addToQueries q r)\<lparr>mQueryIntervalTimer := i, mBootstrapTicks := mBootstrapTicks (addToQueries q r) + 1\<rparr>"
    by (rule resolver_test_Some)
  moreover have "resolver_inv this r'"
    using resolver_test_inv [OF test] assms(1) by (simp add: resolver_inv_def)
  ultimately show ?thesis using addToQueries_queries [OF depth] by auto
next
  case False
  with assms show ?thesis by (simp add: resolver_timerEvent_def)
qed

lemma resolver_history_witness:
  "\<exists>r st' r'. resolver_timerEvent sample_launch 3 (mQueryIntervalTimer r) \<lparr>mQueryCount = 0, mMasterTid = 0\<rparr> r = Some (st', r') \<and>
     resolver_inv 3 r \<and> resolver_inv 3 r'"
proof -
  obtain st r where r: "new_resolver sample_launch 3 \<lparr>mQueryCount = 0, mMasterTid = 0\<rparr> ''10.0.0.1'' ''T1'' = Some (st, r)"
    by (rule sample_resolver)
  obtain st' r' where r': "resolver_timerEvent sample_launch 3 (mQueryIntervalTimer r) \<lparr>mQueryCount = 0, mMasterTid = 0\<rparr> r = Some (st', r')"
    using sample_test_returns unfolding resolver_timerEvent_def by fastforce
  have "resolver_inv 3 r" using new_resolver_inv [OF r] by blast
  then show ?thesis using resolver_history [OF _ r'] r' by blast
qed

text \<open>a new resolver counts as good before any reply: with its first query still under way,
  its status is Green, the query counts as a reply, and it is credited with resolving the
  service of the domain asked for.\<close>

theorem new_resolver_unproven:
  assumes "new_resolver l this st h k = Some (st', r)" "send_ok (l_env l)"
    "length (bytes_of (mDomainName (l_domain l))) < 2030"
  shows "status r = Green \<and> alive r \<and> replyCount r = 1 \<and>
    resolvesNIC r (mDnsService (l_domain l)) \<and> lastReply r = None"
proof -
  obtain st1 q pkt where q: "new_query_expiring (l_env l) st (Some this) h (l_domain l)
      (now (l_env l) + max_timeout) default_dns_port DNS_A_RECORD = Some (st1, q, pkt)"
    and "Some r = resetQueryTimer l (addToQueries q ((resolver_clear blank_resolver)\<lparr>mHostAddress := h, mKind := k\<rparr>))"
    using assms(1) by (auto simp: new_resolver_def resolver_test_def Let_def split: bind_splits)
  then have "mQueries r = [q]"
    using resetQueryTimer_Some [of l "addToQueries q ((resolver_clear blank_resolver)\<lparr>mHostAddress := h, mKind := k\<rparr>)"]
    by (auto simp: addToQueries_queries resolver_clear_def listener_clear_def max_query_depth_def)
  moreover have "mError q = DNS_OK \<and> mEndTime q = None \<and> mName q = l_domain l"
    using new_query_sent [OF q assms(2)] assms(3) by (simp add: max_timeout_def)
  ultimately show ?thesis
    by (simp add: status_def alive_def replyCount_def resolvesNIC_def lastReply_def numeral_3_eq_3)
qed

lemma new_resolver_unproven_witness:
  "\<exists>st' r. new_resolver sample_launch 3 \<lparr>mQueryCount = 0, mMasterTid = 0\<rparr> ''10.0.0.1'' ''T1'' = Some (st', r) \<and>
     status r = Green \<and> resolvesNIC r ''opennic'' \<and> lastReply r = None"
proof -
  obtain st r where r: "new_resolver sample_launch 3 \<lparr>mQueryCount = 0, mMasterTid = 0\<rparr> ''10.0.0.1'' ''T1'' = Some (st, r)"
    by (rule sample_resolver)
  show ?thesis using r new_resolver_unproven [OF r] by (simp add: sample_launch_simps)
qed

text \<open>The time to the next test is drawn from the interval meant: from 2.5 to 75 seconds for the
  first three tests of a resolver, and from 10 seconds to 10 minutes after that.\<close>

theorem test_interval:
  "\<exists>ms. resetQueryTimer l r =
      Some (r\<lparr>mQueryIntervalTimer := start_timer (l_env l) ms, mBootstrapTicks := mBootstrapTicks r + 1\<rparr>) \<and>
    (if mBootstrapTicks r < bootstrap_timer_ticks then 2500 \<le> ms \<and> ms \<le> 75000 else 10000 \<le> ms \<and> ms \<le> 600000)"
proof (cases "mBootstrapTicks r < bootstrap_timer_ticks")
  case True
  have "random_interval_min div 4 = 2500" "random_interval_max div 8 = 75000"
    by (simp_all add: random_interval_min_def random_interval_max_def)
  then obtain ms where "random_in (l_draw l) (random_interval_min div 4) (random_interval_max div 8) = Some ms"
    "2500 \<le> ms" "ms \<le> 75000"
    using random_in_range [of 2500 75000 "l_draw l"] by auto
  with True show ?thesis by (intro exI [of _ ms]) (simp add: resetQueryTimer_def Let_def)
next
  case False
  obtain ms where "random_in (l_draw l) random_interval_min random_interval_max = Some ms"
    "10000 \<le> ms" "ms \<le> 600000"
    using random_in_range [of 10000 600000 "l_draw l"]
    by (auto simp: random_interval_min_def random_interval_max_def)
  with False show ?thesis by (intro exI [of _ ms]) (simp add: resetQueryTimer_def Let_def)
qed

text \<open>the destructor of a listener deletes only every second query: of \<open>n\<close> queries it
  deletes \<open>(n + 1) div 2\<close>, and the others stay in the list, so with two or more some leak.\<close>

theorem destroy_leaks:
  "length (fst (destroy_listener r)) = (length (mQueries r) + 1) div 2 \<and>
   mset (fst (destroy_listener r)) + mset (snd (destroy_listener r)) = mset (mQueries r)"
  using destroy_loop_keeps [of 0 "mQueries r" "[]"] destroy_loop_split [of 0 "mQueries r" "[]"]
  by (simp add: destroy_listener_def)

text \<open>A resolver is taken for dead exactly when its two newest queries both timed out or
  failed.\<close>

theorem alive_iff:
  "alive r \<longleftrightarrow> \<not> (\<exists>a b rest. mQueries r = a # b # rest \<and> mError a \<in> {DNS_TIMEOUT, DNS_ERROR} \<and>
     mError b \<in> {DNS_TIMEOUT, DNS_ERROR})"
  by (simp add: alive_def dead_count_two del: not_le)

end
