(* ===== verification/ResolverPool.thy ===== *)
theory ResolverPool
  imports Resolver
begin

text \<open>
  \<open>server/opennicresolverpool.cpp\<close>: pools of pointers to resolvers that are shared between
  pools and counted. The objects live in a heap; an address is never used twice. \<open>doomed\<close>
  lists the objects handed to \<open>deleteLater\<close>. The model reads \<open>objs\<close> at any address; that
  the program only does so at live ones is an invariant (\<open>heap_inv\<close>).
\<close>

section \<open>The heap of resolvers\<close>

record heap =
  objs :: "nat \<Rightarrow> resolver"
  next_addr :: nat
  doomed :: "nat list"
  q_statics :: query_statics

type_synonym pool = "nat list"

definition host_of :: "heap \<Rightarrow> nat \<Rightarrow> host" where
  "host_of h a = mHostAddress (objs h a)"

definition score_of :: "heap \<Rightarrow> nat \<Rightarrow> double" where
  "score_of h a = mScore (objs h a)"

definition update_obj :: "nat \<Rightarrow> (resolver \<Rightarrow> resolver) \<Rightarrow> heap \<Rightarrow> heap" where
  "update_obj a f h = h\<lparr>objs := (objs h)(a := f (objs h a))\<rparr>"

definition incRef :: "nat \<Rightarrow> heap \<Rightarrow> heap" where
  "incRef a h = update_obj a (\<lambda>r. r\<lparr>mRefCount := mRefCount r + 1\<rparr>) h"

definition decRef :: "nat \<Rightarrow> heap \<Rightarrow> heap" where
  "decRef a h =
     (let h1 = update_obj a (\<lambda>r. r\<lparr>mRefCount := mRefCount r - 1\<rparr>) h
      in if mRefCount (objs h1 a) \<le> 0 then h1\<lparr>doomed := doomed h1 @ [a]\<rparr> else h1)"

text \<open>
  \<open>new OpenNICResolver(host, kind)\<close>. \<open>lau a\<close> is what the platform supplies to the first
  test of the object allocated at \<open>a\<close>.
\<close>

definition alloc_resolver ::
  "(nat \<Rightarrow> launch) \<Rightarrow> host \<Rightarrow> string \<Rightarrow> heap \<Rightarrow> (heap \<times> nat) option" where
  "alloc_resolver lau hostAddress kind h =
     (let a = next_addr h
      in case new_resolver (lau a) a (q_statics h) hostAddress kind of
           None \<Rightarrow> None
         | Some (st, r) \<Rightarrow>
             Some (h\<lparr>objs := (objs h)(a := r), next_addr := a + 1, q_statics := st\<rparr>, a))"

section \<open>Membership\<close>

fun pool_index_from :: "heap \<Rightarrow> nat \<Rightarrow> pool \<Rightarrow> host \<Rightarrow> int" where
  "pool_index_from h n [] hostAddress = - 1"
| "pool_index_from h n (other # rest) hostAddress =
     (if hostAddress = host_of h other then int n else pool_index_from h (Suc n) rest hostAddress)"

definition pool_indexOf :: "heap \<Rightarrow> pool \<Rightarrow> host \<Rightarrow> int" where
  "pool_indexOf h pool hostAddress = pool_index_from h 0 pool hostAddress"

definition pool_contains :: "heap \<Rightarrow> pool \<Rightarrow> host \<Rightarrow> bool" where
  "pool_contains h pool item = (pool_indexOf h pool item \<ge> 0)"

definition pool_contains_resolver :: "heap \<Rightarrow> pool \<Rightarrow> nat \<Rightarrow> bool" where
  "pool_contains_resolver h pool a = pool_contains h pool (host_of h a)"

section \<open>Sorting\<close>

text \<open>
  \<open>sort\<close>: for every position the inner loop looks for the best score to its right. The
  comparison \<open>lt\<close> and the key are arguments here; the code uses the \<open><\<close> of doubles on scores.
\<close>

function select_best :: "('k \<Rightarrow> 'k \<Rightarrow> bool) \<Rightarrow> ('a \<Rightarrow> 'k) \<Rightarrow> 'a list \<Rightarrow> nat \<Rightarrow> nat \<Rightarrow> nat" where
  "select_best lt key xs deltaA b =
     (if b < length xs
      then select_best lt key xs (if lt (key (xs ! deltaA)) (key (xs ! b)) then b else deltaA) (Suc b)
      else deltaA)"
  by pat_completeness auto
termination by (relation "measure (\<lambda>(lt, key, xs, d, b). length xs - b)") auto

function sort_loop :: "('k \<Rightarrow> 'k \<Rightarrow> bool) \<Rightarrow> ('a \<Rightarrow> 'k) \<Rightarrow> 'a list \<Rightarrow> nat \<Rightarrow> 'a list" where
  "sort_loop lt key xs a =
     (if a < length xs - 1
      then sort_loop lt key (swap_at a (select_best lt key xs a (a + 1)) xs) (Suc a)
      else xs)"
  by pat_completeness auto
termination by (relation "measure (\<lambda>(lt, key, xs, a). length xs - a)") auto

declare select_best.simps [simp del] sort_loop.simps [simp del]

definition pool_sort :: "heap \<Rightarrow> pool \<Rightarrow> pool" where
  "pool_sort h pool = (if length pool \<ge> 2 then sort_loop dlt (score_of h) pool 0 else pool)"

section \<open>Appending\<close>

definition pool_append_resolver :: "heap \<Rightarrow> pool \<Rightarrow> nat \<Rightarrow> heap \<times> pool \<times> bool" where
  "pool_append_resolver h pool a =
     (let h1 = incRef a h
      in if \<not> pool_contains_resolver h1 pool a then (h1, pool @ [a], True)
         else (decRef a h1, pool, False))"

definition pool_append_host ::
  "(nat \<Rightarrow> launch) \<Rightarrow> heap \<Rightarrow> pool \<Rightarrow> host \<Rightarrow> string \<Rightarrow> (heap \<times> pool \<times> bool) option" where
  "pool_append_host lau h pool hostAddress kind =
     map_option (\<lambda>(h1, a). pool_append_resolver h1 pool a) (alloc_resolver lau hostAddress kind h)"

definition pool_insort :: "heap \<Rightarrow> pool \<Rightarrow> nat \<Rightarrow> heap \<times> pool \<times> bool" where
  "pool_insort h pool a =
     (let (h1, pool1, added) = pool_append_resolver h pool a
      in if added then (h1, pool_sort h1 pool1, True) else (h1, pool1, False))"

definition pool_insort_host ::
  "(nat \<Rightarrow> launch) \<Rightarrow> heap \<Rightarrow> pool \<Rightarrow> host \<Rightarrow> string \<Rightarrow> (heap \<times> pool \<times> bool) option" where
  "pool_insort_host lau h pool hostAddress kind =
     map_option (\<lambda>(h1, pool1, added).
         if added then (h1, pool_sort h1 pool1, True) else (h1, pool1, False))
       (pool_append_host lau h pool hostAddress kind)"

fun pool_copy :: "heap \<Rightarrow> pool \<Rightarrow> pool \<Rightarrow> heap \<times> pool" where
  "pool_copy h pool [] = (h, pool)"
| "pool_copy h pool (a # others) =
     (let (h1, pool1, _) = pool_append_resolver h pool a in pool_copy h1 pool1 others)"

fun fromStringList ::
  "(nat \<Rightarrow> launch) \<Rightarrow> (string \<Rightarrow> host) \<Rightarrow> heap \<Rightarrow> pool \<Rightarrow> string list \<Rightarrow> string \<Rightarrow> (heap \<times> pool) option" where
  "fromStringList lau parse_host h pool [] kind = Some (h, pool)"
| "fromStringList lau parse_host h pool (item # items) kind =
     (if trimmed item \<noteq> [] then
        (case pool_insort_host lau h pool (parse_host (trimmed item)) kind of
           None \<Rightarrow> None
         | Some (h1, pool1, _) \<Rightarrow> fromStringList lau parse_host h1 pool1 items kind)
      else fromStringList lau parse_host h pool items kind)"

fun fromIPList ::
  "(nat \<Rightarrow> launch) \<Rightarrow> (string \<Rightarrow> host) \<Rightarrow> heap \<Rightarrow> pool \<Rightarrow> string list \<Rightarrow> string \<Rightarrow> (heap \<times> pool) option" where
  "fromIPList lau parse_host h pool [] kind = Some (h, pool)"
| "fromIPList lau parse_host h pool (item # items) kind =
     (if trimmed item \<noteq> [] then
        (case alloc_resolver lau (parse_host (trimmed item)) kind h of
           None \<Rightarrow> None
         | Some (h1, a) \<Rightarrow>
             (let (h2, pool2, _) = pool_insort h1 pool a
              in fromIPList lau parse_host h2 pool2 items kind))
      else fromIPList lau parse_host h pool items kind)"

section \<open>Clearing\<close>

definition pool_clear :: "pool \<Rightarrow> pool" where
  \<comment> \<open>the list is emptied and no reference is given back\<close>
  "pool_clear pool = []"

fun pool_destroy :: "heap \<Rightarrow> pool \<Rightarrow> heap" where
  \<comment> \<open>the destructor\<close>
  "pool_destroy h [] = h"
| "pool_destroy h (a # rest) = pool_destroy (decRef a h) rest"

fun setMaxHistoryDepth :: "int \<Rightarrow> heap \<Rightarrow> pool \<Rightarrow> heap" where
  "setMaxHistoryDepth depth h [] = h"
| "setMaxHistoryDepth depth h (a # rest) =
     setMaxHistoryDepth depth (update_obj a (setMaxQueryDepth depth) h) rest"

section \<open>Shuffling\<close>

text \<open>
  \<open>draws k\<close> is the \<open>k\<close>-th value of \<open>qrand()\<close>. None: the \<open>do\<close> loop never draws two
  different positions.
\<close>

partial_function (option) draw_pair :: "(nat \<Rightarrow> nat) \<Rightarrow> nat \<Rightarrow> nat \<Rightarrow> (nat \<times> nat \<times> nat) option" where
  "draw_pair draws n k =
     (case random_in (draws k) 0 (int n - 1) of
        None \<Rightarrow> None
      | Some a \<Rightarrow>
          (case random_in (draws (k + 1)) 0 (int n - 1) of
             None \<Rightarrow> None
           | Some b \<Rightarrow> if a = b then draw_pair draws n (k + 2) else Some (nat a, nat b, k + 2)))"

fun randomize_loop :: "(nat \<Rightarrow> nat) \<Rightarrow> nat \<Rightarrow> nat \<Rightarrow> 'a list \<Rightarrow> ('a list \<times> nat) option" where
  "randomize_loop draws 0 k xs = Some (xs, k)"
| "randomize_loop draws (Suc n) k xs =
     (case draw_pair draws (length xs) k of
        None \<Rightarrow> None
      | Some (a, b, k') \<Rightarrow> randomize_loop draws n k' (swap_at a b xs))"

definition pool_randomize :: "(nat \<Rightarrow> nat) \<Rightarrow> nat \<Rightarrow> 'a list \<Rightarrow> ('a list \<times> nat) option" where
  "pool_randomize draws k pool =
     (if length pool \<ge> 2 then randomize_loop draws (length pool) k pool else Some (pool, k))"

section \<open>Scoring\<close>

fun latency_loop ::
  "(rat \<Rightarrow> rat) \<Rightarrow> nat \<Rightarrow> resolver list \<Rightarrow> rat \<Rightarrow> rat \<Rightarrow> rat \<Rightarrow> rat \<times> rat \<times> rat" where
  "latency_loop rnd n [] tot mn mx = (tot, mn, mx)"
| "latency_loop rnd n (r # rs) tot mn mx =
     (let avg = averageLatency rnd r;
          tot' = rnd (tot + avg)
      in if n = 0 then latency_loop rnd (Suc n) rs tot' avg avg
         else latency_loop rnd (Suc n) rs tot' (if avg < mn then avg else mn) (if avg > mx then avg else mx))"

definition pool_latency :: "(rat \<Rightarrow> rat) \<Rightarrow> resolver list \<Rightarrow> rat \<times> rat \<times> rat" where
  \<comment> \<open>\<open>latency(min, max)\<close>: the average, min and max\<close>
  "pool_latency rnd rs =
     (if length rs > 0 then
        (let (tot, mn, mx) = latency_loop rnd 0 rs 0 0 0 in (rnd (tot / of_nat (length rs)), mn, mx))
      else (0, 0, 0))"

definition scoreResolverInternal :: "(rat \<Rightarrow> rat) \<Rightarrow> resolver \<Rightarrow> rat \<Rightarrow> rat" where
  "scoreResolverInternal rnd r maxPoolLatency =
     (let avg0 = averageLatency rnd r;
          avg = (if avg0 < 0 then maxPoolLatency else avg0);
          s0 = rnd (maxPoolLatency - avg);
          s1 = (if mKind r = ''T1'' then rnd (s0 * rnd (6666 / 10000)) else s0);
          s2 = (if mKind r = ''T2'' then rnd (s1 * (3 / 2)) else s1);
          s3 = (if resolvesNIC r ''opennic'' then rnd (s2 * (7 / 4)) else s2);
          s4 = (if status r = Red then rnd (s3 * (1 / 2)) else s3);
          s5 = (if status r = Yellow then rnd (s4 * (3 / 4)) else s4)
      in s5)"

text \<open>The globals the script engine sees, and the engine as a function of them.\<close>

record script_globals =
  averagePoolLatency :: rat
  minPoolLatency :: rat
  maxPoolLatency :: rat
  resolverAverageLatency :: rat
  resolverKind :: string
  resolverStatus :: int
  resolvesNIC_global :: bool

fun status_code :: "status \<Rightarrow> int" where
  "status_code Red = 0"
| "status_code Yellow = 1"
| "status_code Green = 2"

definition scoreResolverScript ::
  "(string \<Rightarrow> script_globals \<Rightarrow> double) \<Rightarrow> string \<Rightarrow> (rat \<Rightarrow> rat) \<Rightarrow> resolver \<Rightarrow> rat \<Rightarrow> rat \<Rightarrow> rat \<Rightarrow> double" where
  "scoreResolverScript evaluate rules rnd r avg mn mx =
     evaluate rules
       \<lparr>averagePoolLatency = avg, minPoolLatency = mn, maxPoolLatency = mx,
        resolverAverageLatency = averageLatency rnd r, resolverKind = mKind r,
        resolverStatus = status_code (status r), resolvesNIC_global = resolvesNIC r ''opennic''\<rparr>"

record score_env =
  rounding :: "rat \<Rightarrow> rat"
  evaluate :: "string \<Rightarrow> script_globals \<Rightarrow> double"
  score_internal :: bool
  score_rules :: string

definition score_resolver :: "score_env \<Rightarrow> rat \<times> rat \<times> rat \<Rightarrow> resolver \<Rightarrow> double" where
  "score_resolver se lat r =
     (let (avg, mn, mx) = lat
      in if score_internal se then Fin (scoreResolverInternal (rounding se) r mx)
         else scoreResolverScript (evaluate se) (score_rules se) (rounding se) r avg mn mx)"

definition setScore :: "double \<Rightarrow> resolver \<Rightarrow> resolver" where
  "setScore x r = r\<lparr>mScore := x\<rparr>"

fun score_loop :: "score_env \<Rightarrow> rat \<times> rat \<times> rat \<Rightarrow> heap \<Rightarrow> pool \<Rightarrow> heap" where
  "score_loop se lat h [] = h"
| "score_loop se lat h (a # rest) =
     score_loop se lat (update_obj a (\<lambda>r. setScore (score_resolver se lat r) r) h) rest"

definition pool_score :: "score_env \<Rightarrow> heap \<Rightarrow> pool \<Rightarrow> heap" where
  "pool_score se h pool =
     (if length pool > 0
      then score_loop se (pool_latency (rounding se) (map (objs h) pool)) h pool
      else h)"

definition pool_score_log :: "(double \<Rightarrow> string) \<Rightarrow> score_env \<Rightarrow> heap \<Rightarrow> pool \<Rightarrow> string list" where
  \<comment> \<open>what \<open>score\<close> logs, by way of \<open>latency\<close> and \<open>averageLatency\<close>\<close>
  "pool_score_log fmt se h pool =
     (if length pool > 0 then
        (let rs = map (objs h) pool; (avg, mn, mx) = pool_latency (rounding se) rs
         in concat (map averageLatency_log rs) @
            [''min='' @ fmt (Fin mn) @ '' max='' @ fmt (Fin mx)] @
            concat (map (\<lambda>r. averageLatency_log r @ averageLatency_log r) rs))
      else [])"

section \<open>Export\<close>

definition pool_toStrings :: "(double \<Rightarrow> string) \<Rightarrow> heap \<Rightarrow> pool \<Rightarrow> string list" where
  "pool_toStrings fmt h pool = map (\<lambda>a. resolver_toString fmt (objs h a)) pool"

definition pool_history ::
  "(string \<Rightarrow> host) \<Rightarrow> (time option \<Rightarrow> string) \<Rightarrow> heap \<Rightarrow> pool \<Rightarrow> string \<Rightarrow> string list" where
  \<comment> \<open>\<open>toStringList(select)\<close>\<close>
  "pool_history parse_host fmt h pool select =
     (let idx = pool_indexOf h pool (parse_host select)
      in if idx \<ge> 0 then map (query_toString fmt) (mQueries (objs h (pool ! nat idx))) else [])"

section \<open>Membership and appending\<close>

lemma update_obj_simps [simp]:
  "objs (update_obj a f h) = (objs h)(a := f (objs h a))"
  "next_addr (update_obj a f h) = next_addr h" "doomed (update_obj a f h) = doomed h"
  by (simp_all add: update_obj_def)

lemma host_of_incRef [simp]: "host_of (incRef a h) = host_of h"
  by (auto simp: host_of_def incRef_def fun_eq_iff)

lemma host_of_decRef [simp]: "host_of (decRef a h) = host_of h"
  by (auto simp: host_of_def decRef_def Let_def fun_eq_iff)

lemma score_of_Ref [simp]: "score_of (incRef a h) = score_of h" "score_of (decRef a h) = score_of h"
  by (auto simp: score_of_def incRef_def decRef_def Let_def fun_eq_iff)

lemma pool_index_neg: "pool_index_from h n pool x < 0 \<longleftrightarrow> x \<notin> host_of h ` set pool"
  by (induction h n pool x rule: pool_index_from.induct) auto

lemma pool_index_nth:
  "x \<in> host_of h ` set pool \<Longrightarrow>
   \<exists>k < length pool. pool_index_from h n pool x = int (n + k) \<and> host_of h (pool ! k) = x"
proof (induction h n pool x rule: pool_index_from.induct)
  case (2 h n a rest x)
  show ?case
  proof (cases "x = host_of h a")
    case True
    then show ?thesis by (intro exI [of _ 0]) simp
  next
    case False
    with 2 obtain k where "k < length rest" "pool_index_from h (Suc n) rest x = int (Suc n + k)"
      "host_of h (rest ! k) = x" by auto
    with False show ?thesis by (intro exI [of _ "Suc k"]) simp
  qed
qed simp

lemma pool_contains_iff [simp]: "pool_contains h pool x \<longleftrightarrow> x \<in> host_of h ` set pool"
  using pool_index_neg [of h 0 pool x] by (auto simp: pool_contains_def pool_indexOf_def)

lemma pool_contains_resolver_iff [simp]:
  "pool_contains_resolver h pool a \<longleftrightarrow> host_of h a \<in> host_of h ` set pool"
  by (simp add: pool_contains_resolver_def)

lemma pool_append_eq:
  "pool_append_resolver h pool a =
     (if host_of h a \<in> host_of h ` set pool then (decRef a (incRef a h), pool, False)
      else (incRef a h, pool @ [a], True))"
  by (simp add: pool_append_resolver_def Let_def)

interpretation resolver_pool_laws:
  keyed_pool "host_of h" "\<lambda>pool a. fst (snd (pool_append_resolver h pool a))" for h
  by unfold_locales (simp add: pool_append_eq)

section \<open>The sort ranks\<close>

lemma select_best_range:
  "deltaA < length xs \<Longrightarrow> deltaA \<le> b \<Longrightarrow>
   deltaA \<le> select_best lt key xs deltaA b \<and> select_best lt key xs deltaA b < length xs"
proof (induction lt key xs deltaA b rule: select_best.induct)
  case (1 lt key xs deltaA b)
  show ?case
  proof (cases "b < length xs")
    case True
    with 1 show ?thesis by (subst (1 2) select_best.simps) auto
  next
    case False
    with 1 show ?thesis by (subst (1 2) select_best.simps) auto
  qed
qed

lemma mset_sort_loop: "mset (sort_loop lt key xs a) = mset xs"
proof (induction lt key xs a rule: sort_loop.induct)
  case (1 lt key xs a)
  show ?case
  proof (cases "a < length xs - 1")
    case True
    then have "select_best lt key xs a (a + 1) < length xs" "a < length xs"
      using select_best_range [of a xs "a + 1" lt key] by auto
    with True 1 show ?thesis by (subst sort_loop.simps) simp
  next
    case False
    then show ?thesis by (subst sort_loop.simps) simp
  qed
qed

definition sorted_desc :: "('k \<Rightarrow> 'k \<Rightarrow> bool) \<Rightarrow> ('a \<Rightarrow> 'k) \<Rightarrow> 'a list \<Rightarrow> bool" where
  "sorted_desc lt key xs = sorted_wrt (\<lambda>x y. \<not> lt (key x) (key y)) xs"

context ranking
begin

lemma lt_irrefl: "\<not> lt a a"
  using lt_asym by blast

lemma select_best_best:
  assumes "\<forall>x \<in> set xs. proper (key x)" "deltaA < length xs"
    "\<forall>j. a \<le> j \<and> j < b \<and> j < length xs \<longrightarrow> \<not> lt (key (xs ! deltaA)) (key (xs ! j))"
    "a \<le> j" "j < length xs"
  shows "\<not> lt (key (xs ! select_best lt key xs deltaA b)) (key (xs ! j))"
  using assms(2,3)
proof (induction "length xs - b" arbitrary: deltaA b)
  case 0
  with assms(4,5) show ?case by (subst select_best.simps) auto
next
  case (Suc n)
  then have b: "b < length xs" "n = length xs - Suc b" by auto
  define d where "d = (if lt (key (xs ! deltaA)) (key (xs ! b)) then b else deltaA)"
  have "\<not> lt (key (xs ! d)) (key (xs ! j))" if j: "a \<le> j" "j < Suc b" "j < length xs" for j
  proof (cases "lt (key (xs ! deltaA)) (key (xs ! b)) \<and> j < b")
    case True
    then have "\<not> lt (key (xs ! b)) (key (xs ! deltaA))" by (simp add: lt_asym)
    moreover have "\<not> lt (key (xs ! deltaA)) (key (xs ! j))" using Suc.prems(2) j True by blast
    moreover have "proper (key (xs ! deltaA))" using assms(1) Suc.prems(1) by simp
    ultimately have "\<not> lt (key (xs ! b)) (key (xs ! j))" using lt_negtrans by blast
    with True show ?thesis by (simp add: d_def)
  next
    case False
    with j Suc.prems(2) show ?thesis by (auto simp: d_def lt_irrefl less_Suc_eq)
  qed
  then have "\<not> lt (key (xs ! select_best lt key xs d (Suc b))) (key (xs ! j))"
    using b Suc.prems(1) by (intro Suc.hyps(1)) (auto simp: d_def)
  with b(1) show ?case by (subst select_best.simps) (simp add: d_def)
qed

lemma sort_loop_sorted:
  assumes "\<forall>x \<in> set xs. proper (key x)"
    "\<forall>i j. i < j \<and> i < a \<and> j < length xs \<longrightarrow> \<not> lt (key (xs ! i)) (key (xs ! j))"
  shows "sorted_desc lt key (sort_loop lt key xs a)"
  using assms
proof (induction "length xs - a" arbitrary: xs a)
  case 0
  then show ?case
    by (subst sort_loop.simps) (auto simp: sorted_desc_def sorted_wrt_iff_nth_less)
next
  case (Suc n)
  show ?case
  proof (cases "a < length xs - 1")
    case False
    with Suc.prems(2) show ?thesis
      by (subst sort_loop.simps) (auto simp: sorted_desc_def sorted_wrt_iff_nth_less)
  next
    case True
    define m where "m = select_best lt key xs a (a + 1)"
    define ys where "ys = swap_at a m xs"
    have m: "a \<le> m" "m < length xs" "a < length xs"
      using True select_best_range [of a xs "a + 1" lt key] by (auto simp: m_def)
    have best: "\<not> lt (key (xs ! m)) (key (xs ! j))" if "a \<le> j" "j < length xs" for j
      unfolding m_def using that m(3) Suc.prems(1)
      by (intro select_best_best [where a = a]) (auto simp: lt_irrefl less_Suc_eq)
    have nth: "ys ! j = (if j = m then xs ! a else if j = a then xs ! m else xs ! j)"
      if "j < length xs" for j
      using that m by (auto simp: ys_def swap_at_def nth_list_update)
    have len: "length ys = length xs" by (simp add: ys_def)
    have "sorted_desc lt key (sort_loop lt key ys (Suc a))"
    proof (rule Suc.hyps(1))
      show "n = length ys - Suc a" using Suc.hyps(2) len by simp
      show "\<forall>x \<in> set ys. proper (key x)"
        using Suc.prems(1) m by (metis mset_swap_at set_mset_mset ys_def)
      show "\<forall>i j. i < j \<and> i < Suc a \<and> j < length ys \<longrightarrow> \<not> lt (key (ys ! i)) (key (ys ! j))"
        using Suc.prems(2) best m by (auto simp: nth len less_Suc_eq)
    qed
    with True show ?thesis by (subst sort_loop.simps) (simp add: ys_def m_def)
  qed
qed

end

interpretation score_ranking: ranking dlt "\<lambda>d. d \<noteq> NaN"
  by unfold_locales (metis dlt_asym, metis dlt_negtrans)

lemma mset_pool_sort [simp]: "mset (pool_sort h pool) = mset pool"
  by (simp add: pool_sort_def mset_sort_loop)

lemma set_pool_sort [simp]: "set (pool_sort h pool) = set pool"
  by (metis mset_pool_sort set_mset_mset)

lemma length_pool_sort [simp]: "length (pool_sort h pool) = length pool"
  by (metis mset_pool_sort size_mset)

lemma pool_sort_sorted:
  "\<forall>a \<in> set pool. score_of h a \<noteq> NaN \<Longrightarrow> sorted_desc dlt (score_of h) (pool_sort h pool)"
proof (cases "length pool \<ge> 2")
  case True
  assume "\<forall>a \<in> set pool. score_of h a \<noteq> NaN"
  with True show ?thesis by (auto simp: pool_sort_def intro!: score_ranking.sort_loop_sorted)
next
  case False
  then show ?thesis
    by (cases pool; cases "tl pool") (auto simp: pool_sort_def sorted_desc_def)
qed

text \<open>A list already in order is left as it is.\<close>

lemma select_best_first:
  assumes "\<forall>j. b \<le> j \<and> j < length xs \<longrightarrow> \<not> lt (key (xs ! a)) (key (xs ! j))"
  shows "select_best lt key xs a b = a"
  using assms
proof (induction "length xs - b" arbitrary: b)
  case 0
  then show ?case by (subst select_best.simps) simp
next
  case (Suc n)
  then show ?case by (subst select_best.simps) auto
qed

lemma sort_loop_sorted_id: "sorted_desc lt key xs \<Longrightarrow> sort_loop lt key xs a = xs"
proof (induction "length xs - a" arbitrary: a)
  case 0
  then have "\<not> a < length xs - 1" by simp
  then show ?case by (subst sort_loop.simps) (simp only: if_False)
next
  case (Suc n)
  have "select_best lt key xs a (a + 1) = a"
    using Suc.prems by (intro select_best_first) (auto simp: sorted_desc_def sorted_wrt_iff_nth_less)
  then have "a < length xs - 1 \<longrightarrow> swap_at a (select_best lt key xs a (a + 1)) xs = xs"
    by (simp add: swap_at_def)
  then show ?case using Suc by (subst sort_loop.simps) auto
qed

lemma pool_sort_sorted_id: "sorted_desc dlt (score_of h) pool \<Longrightarrow> pool_sort h pool = pool"
  by (simp add: pool_sort_def sort_loop_sorted_id)

lemma sorted_desc_take: "sorted_desc lt key xs \<Longrightarrow> sorted_desc lt key (take n xs)"
  by (simp add: sorted_desc_def sorted_wrt_take)

section \<open>The shuffle permutes\<close>

lemma random_position: "0 < n \<Longrightarrow> random_in q 0 (int n - 1) = Some (int (q mod n))"
  by (simp add: random_in_def Let_def zmod_int)

lemma draw_pair_step:
  "0 < n \<Longrightarrow> draw_pair draws n k =
     (if draws k mod n = draws (k + 1) mod n then draw_pair draws n (k + 2)
      else Some (draws k mod n, draws (k + 1) mod n, k + 2))"
  by (subst draw_pair.simps) (simp add: random_position)

lemma draw_pair_range:
  assumes "draw_pair draws n k = Some (a, b, k')" "0 < n"
  shows "a < n \<and> b < n \<and> a \<noteq> b"
proof -
  have "0 < n \<longrightarrow> (case (a, b, k') of (a, b, k') \<Rightarrow> a < n \<and> b < n \<and> a \<noteq> b)"
  proof (rule draw_pair.raw_induct [where P = "\<lambda>draws n k r. 0 < n \<longrightarrow>
      (case r of (a, b, k') \<Rightarrow> a < n \<and> b < n \<and> a \<noteq> b)", OF _ assms(1)])
    fix f draws n k and r :: "nat \<times> nat \<times> nat"
    assume IH: "\<And>draws n k r. f draws n k = Some r \<Longrightarrow>
        0 < n \<longrightarrow> (case r of (a, b, k') \<Rightarrow> a < n \<and> b < n \<and> a \<noteq> b)"
      and eq: "(case random_in (draws k) 0 (int n - 1) of None \<Rightarrow> None
        | Some a \<Rightarrow> (case random_in (draws (k + 1)) 0 (int n - 1) of None \<Rightarrow> None
           | Some b \<Rightarrow> if a = b then f draws n (k + 2) else Some (nat a, nat b, k + 2))) = Some r"
    show "0 < n \<longrightarrow> (case r of (a, b, k') \<Rightarrow> a < n \<and> b < n \<and> a \<noteq> b)"
    proof
      assume "0 < n"
      with eq IH [of draws n "k + 2" r] show "case r of (a, b, k') \<Rightarrow> a < n \<and> b < n \<and> a \<noteq> b"
        by (auto simp: random_position split: if_splits)
    qed
  qed
  with assms(2) show ?thesis by simp
qed

lemma draw_pair_returns:
  assumes "0 < n" "draws (k + 2 * j) mod n \<noteq> draws (k + 2 * j + 1) mod n"
  shows "\<exists>a b k'. draw_pair draws n k = Some (a, b, k')"
  using assms(2)
proof (induction j arbitrary: k)
  case 0
  with assms(1) show ?case by (subst draw_pair_step) auto
next
  case (Suc j)
  then have "\<exists>a b k'. draw_pair draws n (k + 2) = Some (a, b, k')" by (auto simp: algebra_simps)
  with assms(1) show ?case by (subst draw_pair_step) auto
qed

lemma randomize_loop_perm:
  "randomize_loop draws n k xs = Some (ys, k') \<Longrightarrow> mset ys = mset xs"
proof (induction draws n k xs arbitrary: ys rule: randomize_loop.induct)
  case (2 draws n k xs)
  from 2(2) obtain a b k1 where pair: "draw_pair draws (length xs) k = Some (a, b, k1)"
    and rest: "randomize_loop draws n k1 (swap_at a b xs) = Some (ys, k')"
    by (auto split: option.splits)
  show ?case
  proof (cases "xs = []")
    case True
    with 2(1) [OF pair refl refl rest] show ?thesis by (simp add: swap_at_def)
  next
    case False
    with draw_pair_range [OF pair] 2(1) [OF pair refl refl rest] show ?thesis by simp
  qed
qed simp

lemma randomize_perm: "pool_randomize draws k pool = Some (pool', k') \<Longrightarrow> mset pool' = mset pool"
  by (auto simp: pool_randomize_def intro: randomize_loop_perm split: if_splits)

definition fair_draws :: "(nat \<Rightarrow> nat) \<Rightarrow> nat \<Rightarrow> bool" where
  \<comment> \<open>from any point on, two consecutive draws differ modulo \<open>n\<close> after an even number of draws\<close>
  "fair_draws draws n = (\<forall>k. \<exists>j. draws (k + 2 * j) mod n \<noteq> draws (k + 2 * j + 1) mod n)"

lemma randomize_loop_returns:
  "fair_draws draws (length xs) \<Longrightarrow> xs \<noteq> [] \<Longrightarrow> \<exists>ys k'. randomize_loop draws n k xs = Some (ys, k')"
proof (induction n arbitrary: k xs)
  case (Suc n)
  then obtain j where "draws (k + 2 * j) mod length xs \<noteq> draws (k + 2 * j + 1) mod length xs"
    unfolding fair_draws_def by blast
  with Suc.prems(2) obtain a b k1 where pair: "draw_pair draws (length xs) k = Some (a, b, k1)"
    using draw_pair_returns [of "length xs" draws k j] by auto
  have "swap_at a b xs \<noteq> []" using Suc.prems(2) by (metis length_0_conv length_swap_at)
  with Suc.IH [of "swap_at a b xs" k1] Suc.prems(1) pair show ?case by simp
qed simp

lemma randomize_returns:
  "fair_draws draws (length pool) \<Longrightarrow> \<exists>pool' k'. pool_randomize draws k pool = Some (pool', k')"
  using randomize_loop_returns [of draws pool "length pool" k]
  by (cases "pool = []") (auto simp: pool_randomize_def)

section \<open>Reference counts\<close>

text \<open>
  \<open>held\<close> counts the places that hold a pointer. The invariant: everything held is
  allocated, not doomed, and its reference count is at least the number of places.
\<close>

definition held :: "pool list \<Rightarrow> nat \<Rightarrow> nat" where
  "held ps a = sum_list (map (\<lambda>p. count_list p a) ps)"

definition live :: "heap \<Rightarrow> nat \<Rightarrow> bool" where
  "live h a = (a < next_addr h \<and> a \<notin> set (doomed h))"

definition heap_inv :: "heap \<Rightarrow> pool list \<Rightarrow> bool" where
  "heap_inv h ps =
     ((\<forall>a. if live h a then int (held ps a) \<le> mRefCount (objs h a) else held ps a = 0) \<and>
      (\<forall>a \<in> set (doomed h). a < next_addr h))"

lemma heap_invD:
  assumes "heap_inv h ps"
  shows "live h a \<Longrightarrow> int (held ps a) \<le> mRefCount (objs h a)"
    and "\<not> live h a \<Longrightarrow> held ps a = 0"
    and "b \<in> set (doomed h) \<Longrightarrow> b < next_addr h"
  using assms unfolding heap_inv_def by (meson)+

lemma heap_invI:
  "(\<And>a. live h a \<Longrightarrow> int (held ps a) \<le> mRefCount (objs h a)) \<Longrightarrow>
   (\<And>a. \<not> live h a \<Longrightarrow> held ps a = 0) \<Longrightarrow>
   (\<And>a. a \<in> set (doomed h) \<Longrightarrow> a < next_addr h) \<Longrightarrow> heap_inv h ps"
  unfolding heap_inv_def by simp

lemma held_simps [simp]:
  "held [] a = 0" "held (p # ps) a = count_list p a + held ps a"
  "held (ps @ qs) a = held ps a + held qs a"
  by (simp_all add: held_def)

lemma held_pos: "p \<in> set ps \<Longrightarrow> a \<in> set p \<Longrightarrow> 0 < held ps a"
proof (induction ps)
  case (Cons q ps)
  then show ?case
    using count_list_0_iff [of p a] by (cases "p = q") auto
qed simp

lemma heap_inv_live:
  assumes "heap_inv h ps" "p \<in> set ps" "a \<in> set p"
  shows "live h a \<and> 0 < mRefCount (objs h a)"
proof -
  have pos: "0 < held ps a" using assms(2,3) by (rule held_pos)
  then have "live h a" using heap_invD(2) [OF assms(1), of a] by auto
  with pos heap_invD(1) [OF assms(1), of a] show ?thesis by simp
qed

lemma heap_inv_mono:
  assumes "heap_inv h ps" "\<And>a. held qs a \<le> held ps a" shows "heap_inv h qs"
proof (rule heap_invI)
  fix a
  show "live h a \<Longrightarrow> int (held qs a) \<le> mRefCount (objs h a)"
    using heap_invD(1) [OF assms(1), of a] assms(2) [of a] by simp
  show "\<not> live h a \<Longrightarrow> held qs a = 0"
    using heap_invD(2) [OF assms(1), of a] assms(2) [of a] by simp
qed (rule heap_invD(3) [OF assms(1)])

lemma count_list_mset: "mset p = mset q \<Longrightarrow> count_list p a = count_list q a"
  by (metis count_mset)

lemma heap_inv_perm:
  assumes "heap_inv h (p # ps)" "mset q = mset p" shows "heap_inv h (q # ps)"
  using assms(1) by (rule heap_inv_mono) (simp add: count_list_mset [OF assms(2)])

lemma live_incRef [simp]: "live (incRef a h) = live h"
  by (simp add: live_def incRef_def fun_eq_iff)

lemma refcount_incRef:
  "mRefCount (objs (incRef a h) b) = mRefCount (objs h b) + (if a = b then 1 else 0)"
  by (simp add: incRef_def)

lemma heap_inv_incRef:
  assumes "heap_inv h ps" "live h a" shows "heap_inv (incRef a h) ([a] # ps)"
proof (rule heap_invI)
  fix b
  show "live (incRef a h) b \<Longrightarrow> int (held ([a] # ps) b) \<le> mRefCount (objs (incRef a h) b)"
    using heap_invD(1) [OF assms(1), of b] by (auto simp: refcount_incRef)
  show "\<not> live (incRef a h) b \<Longrightarrow> held ([a] # ps) b = 0"
    using heap_invD(2) [OF assms(1), of b] assms(2) by auto
  show "b \<in> set (doomed (incRef a h)) \<Longrightarrow> b < next_addr (incRef a h)"
    using heap_invD(3) [OF assms(1)] by (simp add: incRef_def)
qed

lemma decRef_simps:
  "next_addr (decRef a h) = next_addr h"
  "mRefCount (objs (decRef a h) b) = mRefCount (objs h b) - (if a = b then 1 else 0)"
  "set (doomed (decRef a h)) = (if mRefCount (objs h a) \<le> 1 then insert a (set (doomed h)) else set (doomed h))"
  by (auto simp: decRef_def Let_def)

lemma heap_inv_decRef:
  assumes "heap_inv h ([a] # ps)" shows "heap_inv (decRef a h) ps"
proof -
  have "0 < held ([a] # ps) a" by simp
  then have a: "live h a" using heap_invD(2) [OF assms, of a] by auto
  then have cnt: "1 + int (held ps a) \<le> mRefCount (objs h a)" using heap_invD(1) [OF assms, of a] by simp
  show ?thesis
  proof (rule heap_invI)
    fix b
    show "live (decRef a h) b \<Longrightarrow> int (held ps b) \<le> mRefCount (objs (decRef a h) b)"
      using heap_invD(1) [OF assms, of b] cnt
      by (cases "a = b") (auto simp: live_def decRef_simps split: if_splits)
    show "\<not> live (decRef a h) b \<Longrightarrow> held ps b = 0"
      using heap_invD(2) [OF assms, of b] cnt
      by (cases "a = b") (auto simp: live_def decRef_simps split: if_splits)
    show "b \<in> set (doomed (decRef a h)) \<Longrightarrow> b < next_addr (decRef a h)"
      using heap_invD(3) [OF assms, of b] a by (auto simp: live_def decRef_simps split: if_splits)
  qed
qed

lemma heap_inv_append:
  assumes "heap_inv h (pool # ps)" "live h a"
    "pool_append_resolver h pool a = (h', pool', added)"
  shows "heap_inv h' (pool' # ps)"
proof -
  have inc: "heap_inv (incRef a h) ([a] # pool # ps)"
    using assms(1,2) by (rule heap_inv_incRef)
  show ?thesis
  proof (cases "host_of h a \<in> host_of h ` set pool")
    case True
    with assms(3) heap_inv_decRef [OF inc] show ?thesis by (auto simp: pool_append_eq)
  next
    case False
    with assms(3) have "h' = incRef a h" "pool' = pool @ [a]" by (auto simp: pool_append_eq)
    moreover have "heap_inv (incRef a h) ((pool @ [a]) # ps)"
      using inc by (rule heap_inv_mono) simp
    ultimately show ?thesis by simp
  qed
qed

lemma heap_inv_destroy: "heap_inv h (pool # ps) \<Longrightarrow> heap_inv (pool_destroy h pool) ps"
proof (induction h pool rule: pool_destroy.induct)
  case (1 h)
  then show ?case by (auto elim: heap_inv_mono)
next
  case (2 h a rest)
  have "heap_inv h ([a] # rest # ps)" using 2(2) by (rule heap_inv_mono) simp
  then show ?case using 2(1) heap_inv_decRef by simp
qed

lemma heap_inv_clear: "heap_inv h (pool # ps) \<Longrightarrow> heap_inv h (pool_clear pool # ps)"
  by (erule heap_inv_mono) (simp add: pool_clear_def)

lemma live_update [simp]: "live (update_obj a f h) = live h"
  by (simp add: live_def fun_eq_iff)

lemma heap_inv_update:
  assumes "heap_inv h ps" "\<And>r. mRefCount (f r) = mRefCount r"
  shows "heap_inv (update_obj a f h) ps"
  by (rule heap_invI) (use heap_invD [OF assms(1)] assms(2) in auto)

lemma heap_inv_alloc:
  assumes "heap_inv h ps" "alloc_resolver lau host kind h = Some (h', a)"
  shows "heap_inv h' ps \<and> live h' a \<and> host_of h' a = host"
proof -
  from assms(2) obtain st r where r: "new_resolver (lau (next_addr h)) (next_addr h) (q_statics h) host kind = Some (st, r)"
    and h': "h' = h\<lparr>objs := (objs h)(next_addr h := r), next_addr := next_addr h + 1, q_statics := st\<rparr>"
    and a: "a = next_addr h"
    by (auto simp: alloc_resolver_def Let_def split: option.splits)
  from new_resolver_inv [OF r] have r0: "mHostAddress r = host" "mRefCount r = 0" by simp_all
  have fresh: "next_addr h \<notin> set (doomed h)" using heap_invD(3) [OF assms(1)] by blast
  have dead: "\<not> live h (next_addr h)" by (simp add: live_def)
  have lv: "live h' b \<longleftrightarrow> live h b \<or> b = next_addr h" for b
    using fresh by (auto simp: live_def h')
  have "heap_inv h' ps"
  proof (rule heap_invI)
    fix b
    show "int (held ps b) \<le> mRefCount (objs h' b)" if "live h' b"
    proof (cases "b = next_addr h")
      case True
      then show ?thesis using heap_invD(2) [OF assms(1) dead] r0(2) by (simp add: h')
    next
      case False
      then have "live h b" using that lv by blast
      then show ?thesis using False heap_invD(1) [OF assms(1)] by (simp add: h')
    qed
    show "\<not> live h' b \<Longrightarrow> held ps b = 0" using heap_invD(2) [OF assms(1), of b] lv by blast
    show "b \<in> set (doomed h') \<Longrightarrow> b < next_addr h'"
      using heap_invD(3) [OF assms(1), of b] by (simp add: h')
  qed
  then show ?thesis using r0 by (simp add: lv a) (simp add: h' host_of_def)
qed

section \<open>Pools of distinct hosts\<close>

text \<open>
  The invariant the server keeps of all its pools: the heap accounts for every pointer, and
  no pool lists a host twice.
\<close>

definition pools_ok :: "heap \<Rightarrow> pool list \<Rightarrow> bool" where
  "pools_ok h ps = (heap_inv h ps \<and> (\<forall>p \<in> set ps. distinct (map (host_of h) p)))"

lemma pools_okD:
  assumes "pools_ok h ps"
  shows "heap_inv h ps" "p \<in> set ps \<Longrightarrow> distinct (map (host_of h) p)"
  using assms by (auto simp: pools_ok_def)

lemma pools_ok_live: "pools_ok h ps \<Longrightarrow> p \<in> set ps \<Longrightarrow> a \<in> set p \<Longrightarrow> live h a"
  using heap_inv_live pools_okD(1) by blast

lemma pools_ok_sub:
  assumes "pools_ok h ps" "\<And>a. held qs a \<le> held ps a" "\<And>q. q \<in> set qs \<Longrightarrow> distinct (map (host_of h) q)"
  shows "pools_ok h qs"
  using assms heap_inv_mono [of h ps qs] by (auto simp: pools_ok_def)

lemma pools_ok_perm:
  assumes "pools_ok h (p # ps)" "mset q = mset p" shows "pools_ok h (q # ps)"
proof -
  have "distinct (map (host_of h) p)" using assms(1) by (simp add: pools_ok_def)
  then have "distinct (map (host_of h) q)"
    using assms(2) by (metis distinct_count_atmost_1 mset_map set_mset_mset)
  then show ?thesis using assms heap_inv_perm by (auto simp: pools_ok_def)
qed

lemma pools_ok_clear: "pools_ok h (pool # ps) \<Longrightarrow> pools_ok h (pool_clear pool # ps)"
  by (auto simp: pools_ok_def pool_clear_def elim: heap_inv_mono)

lemma pools_ok_empty: "pools_ok h ps \<Longrightarrow> pools_ok h ([] # ps)"
  by (auto simp: pools_ok_def elim: heap_inv_mono)

lemma pools_ok_rotate: "pools_ok h (p # q # ps) \<Longrightarrow> pools_ok h (q # p # ps)"
  by (auto simp: pools_ok_def elim: heap_inv_mono)

lemma host_of_destroy [simp]: "host_of (pool_destroy h pool) = host_of h"
  by (induction h pool rule: pool_destroy.induct) simp_all

lemma pools_ok_destroy: "pools_ok h (pool # ps) \<Longrightarrow> pools_ok (pool_destroy h pool) ps"
  by (auto simp: pools_ok_def intro: heap_inv_destroy)

lemma pools_ok_append:
  assumes "pools_ok h (pool # ps)" "live h a"
    "pool_append_resolver h pool a = (h', pool', added)"
  shows "pools_ok h' (pool' # ps) \<and> host_of h' = host_of h \<and>
    host_of h ` set pool' = insert (host_of h a) (host_of h ` set pool)"
  using assms heap_inv_append [OF _ assms(2,3)]
  by (auto simp: pools_ok_def pool_append_eq split: if_splits)

lemma pools_ok_insort:
  assumes "pools_ok h (pool # ps)" "live h a" "pool_insort h pool a = (h', pool', added)"
  shows "pools_ok h' (pool' # ps) \<and> host_of h' = host_of h \<and>
    host_of h ` set pool' = insert (host_of h a) (host_of h ` set pool)"
proof -
  obtain h1 p1 b where app: "pool_append_resolver h pool a = (h1, p1, b)"
    by (cases "pool_append_resolver h pool a") auto
  from pools_ok_append [OF assms(1,2) app] assms(3) app show ?thesis
    by (auto simp: pool_insort_def intro: pools_ok_perm split: if_splits)
qed

lemma alloc_frame:
  assumes "alloc_resolver lau host kind h = Some (h', a)" "b < next_addr h"
  shows "host_of h' b = host_of h b"
  using assms by (auto simp: alloc_resolver_def Let_def host_of_def split: option.splits)

lemma pools_ok_alloc:
  assumes ok: "pools_ok h ps" and al: "alloc_resolver lau host kind h = Some (h', a)"
  shows "pools_ok h' ps \<and> live h' a \<and> host_of h' a = host \<and>
    (\<forall>p \<in> set ps. map (host_of h') p = map (host_of h) p)"
proof -
  note inv = heap_inv_alloc [OF pools_okD(1) [OF ok] al]
  have same: "map (host_of h') p = map (host_of h) p" if "p \<in> set ps" for p
    using pools_ok_live [OF ok that] alloc_frame [OF al] by (auto simp: live_def)
  have "\<forall>p \<in> set ps. distinct (map (host_of h') p)"
    using same pools_okD(2) [OF ok] by metis
  with inv same show ?thesis by (simp only: pools_ok_def) blast
qed

lemma pools_ok_fromIPList:
  "pools_ok h (pool # ps) \<Longrightarrow> fromIPList lau parse_host h pool items kind = Some (h', pool') \<Longrightarrow>
   pools_ok h' (pool' # ps) \<and> (\<forall>p \<in> set ps. map (host_of h') p = map (host_of h) p) \<and>
   host_of h' ` set pool' = host_of h ` set pool \<union> parse_host ` set (nonblank items)"
proof (induction lau parse_host h pool items kind rule: fromIPList.induct)
  case (2 lau parse_host h pool item items kind)
  show ?case
  proof (cases "trimmed item = []")
    case False
    with 2(4) obtain h1 a where al: "alloc_resolver lau (parse_host (trimmed item)) kind h = Some (h1, a)"
      by (auto split: option.splits)
    obtain h2 p2 b where ins: "pool_insort h1 pool a = (h2, p2, b)"
      by (cases "pool_insort h1 pool a") auto
    from False 2(4) al ins have rest: "fromIPList lau parse_host h2 p2 items kind = Some (h', pool')"
      by simp
    note ok1 = pools_ok_alloc [OF 2(3) al]
    note ok2 = pools_ok_insort [OF conjunct1 [OF ok1] _ ins]
    have keep: "host_of h1 ` set pool = host_of h ` set pool"
      using ok1 by (metis image_set list.set_intros(1))
    have ok2': "pools_ok h2 (p2 # ps)" using ok1 ok2 by blast
    note IH = 2(1) [OF False al refl ins [symmetric] refl refl ok2' rest]
    show ?thesis using IH ok1 ok2 keep False by (auto simp: ins)
  qed (use 2 in simp)
qed auto

lemma pools_ok_update:
  assumes "pools_ok h ps" "\<And>r. mRefCount (f r) = mRefCount r" "\<And>r. mHostAddress (f r) = mHostAddress r"
  shows "pools_ok (update_obj a f h) ps \<and> host_of (update_obj a f h) = host_of h"
proof -
  have "host_of (update_obj a f h) = host_of h"
    using assms(3) by (auto simp: host_of_def fun_eq_iff)
  then show ?thesis using assms heap_inv_update by (auto simp: pools_ok_def)
qed

lemma pools_ok_score:
  "pools_ok h ps \<Longrightarrow> pools_ok (score_loop se lat h pool) ps \<and> host_of (score_loop se lat h pool) = host_of h"
proof (induction se lat h pool rule: score_loop.induct)
  case (2 se lat h a rest)
  from pools_ok_update [OF 2(2), of "\<lambda>r. setScore (score_resolver se lat r) r" a]
  show ?case using 2(1) by (simp add: setScore_def)
qed simp

lemma pools_ok_pool_score:
  "pools_ok h ps \<Longrightarrow> pools_ok (pool_score se h pool) ps \<and> host_of (pool_score se h pool) = host_of h"
  by (simp add: pool_score_def pools_ok_score)

lemma score_loop_scores:
  "distinct pool \<Longrightarrow> objs (score_loop se lat h pool) a =
     (if a \<in> set pool then setScore (score_resolver se lat (objs h a)) (objs h a) else objs h a)"
  by (induction se lat h pool rule: score_loop.induct) auto

lemma pools_ok_tail: "pools_ok h (p # ps) \<Longrightarrow> pools_ok h ps"
  by (auto simp: pools_ok_def elim: heap_inv_mono)

lemma pools_ok_copy:
  "pools_ok h (pool # ps) \<Longrightarrow> p \<in> set ps \<Longrightarrow> set others \<subseteq> set p \<Longrightarrow>
   pool_copy h pool others = (h', pool') \<Longrightarrow>
   pools_ok h' (pool' # ps) \<and> host_of h' = host_of h \<and>
   (distinct (map (host_of h) (pool @ others)) \<longrightarrow> pool' = pool @ others)"
proof (induction h pool others rule: pool_copy.induct)
  case (2 h pool a others)
  obtain h1 p1 b where app: "pool_append_resolver h pool a = (h1, p1, b)"
    by (cases "pool_append_resolver h pool a") auto
  have "live h a" using pools_ok_live [OF 2(2), of p a] 2(3,4) by auto
  note ok = pools_ok_append [OF 2(2) this app]
  from 2(5) app have rest: "pool_copy h1 p1 others = (h', pool')" by simp
  have "set others \<subseteq> set p" using 2(4) by simp
  note IH = 2(1) [OF app [symmetric] refl refl conjunct1 [OF ok] 2(3) this rest]
  have "distinct (map (host_of h) (pool @ a # others)) \<Longrightarrow> p1 = pool @ [a]"
    using app by (auto simp: pool_append_eq split: if_splits)
  with IH ok show ?case by auto
qed simp

lemma score_of_unscored [simp]: "score_of (update_obj a f h) b = (if a = b then mScore (f (objs h a)) else score_of h b)"
  by (simp add: score_of_def)

lemma pools_ok_set:
  assumes "pools_ok h ps" "mRefCount r = mRefCount (objs h a)" "mHostAddress r = mHostAddress (objs h a)"
  shows "pools_ok (update_obj a (\<lambda>_. r) h) ps \<and> host_of (update_obj a (\<lambda>_. r) h) = host_of h"
proof -
  have host: "host_of (update_obj a (\<lambda>_. r) h) = host_of h"
    using assms(3) by (auto simp: host_of_def fun_eq_iff)
  have "heap_inv (update_obj a (\<lambda>_. r) h) ps"
    by (rule heap_invI) (use heap_invD [OF pools_okD(1) [OF assms(1)]] assms(2) in auto)
  with host assms(1) show ?thesis by (simp add: pools_ok_def)
qed

lemma pools_ok_statics [simp]: "pools_ok (h\<lparr>q_statics := st\<rparr>) ps = pools_ok h ps"
proof -
  have "live (h\<lparr>q_statics := st\<rparr>) = live h" "host_of (h\<lparr>q_statics := st\<rparr>) = host_of h"
    by (simp_all add: live_def host_of_def fun_eq_iff)
  then show ?thesis by (simp add: pools_ok_def heap_inv_def)
qed

lemma score_of_append [simp]:
  "pool_append_resolver h pool a = (h', pool', b) \<Longrightarrow> score_of h' = score_of h"
  by (auto simp: pool_append_eq split: if_splits)

lemma score_of_copy: "pool_copy h pool others = (h', pool') \<Longrightarrow> score_of h' = score_of h"
proof (induction h pool others rule: pool_copy.induct)
  case (2 h pool a others)
  obtain h1 p1 b where "pool_append_resolver h pool a = (h1, p1, b)"
    by (cases "pool_append_resolver h pool a") auto
  with 2 show ?case by simp
qed simp

lemma score_of_destroy: "score_of (pool_destroy h pool) = score_of h"
  by (induction h pool rule: pool_destroy.induct) simp_all

section \<open>Properties\<close>

text \<open>An empty heap and one with three scored resolvers, for the witnesses.\<close>

definition empty_heap :: heap where
  "empty_heap = \<lparr>objs = (\<lambda>_. blank_resolver), next_addr = 0, doomed = [],
     q_statics = \<lparr>mQueryCount = 0, mMasterTid = 0\<rparr>\<rparr>"

definition sample_heap :: heap where
  "sample_heap = \<lparr>objs = (\<lambda>a. blank_resolver\<lparr>mScore := Fin (of_nat a), mHostAddress := [char_of a], mRefCount := 2\<rparr>),
     next_addr = 4, doomed = [], q_statics = \<lparr>mQueryCount = 0, mMasterTid = 0\<rparr>\<rparr>"

lemma empty_heap_ok [simp]: "pools_ok empty_heap [[]]"
  by (simp add: pools_ok_def heap_inv_def empty_heap_def held_def live_def)

lemma sample_heap_ok: "pools_ok sample_heap [[1, 3], [3, 2]]"
  by (auto simp: pools_ok_def heap_inv_def sample_heap_def held_def live_def host_of_def of_char_of)

text \<open>sorting a pool ranks it: the result has the same resolvers, and none has a lower score
  than one after it, provided no score is a NaN.\<close>

theorem sort_ranks:
  assumes "\<forall>a \<in> set pool. score_of h a \<noteq> NaN"
  shows "sorted_desc dlt (score_of h) (pool_sort h pool) \<and> mset (pool_sort h pool) = mset pool"
  using pool_sort_sorted [OF assms] by simp

lemma sort_ranks_witness:
  "sorted_desc dlt (score_of sample_heap) (pool_sort sample_heap [1, 3, 2])"
  using sort_ranks [of "[1, 3, 2]" sample_heap] by (simp add: sample_heap_def score_of_def)

text \<open>shuffling a pool ends and permutes it, as long as the random numbers keep giving two
  different positions; the loop that draws them has no other way out.\<close>

theorem shuffle_permutes:
  assumes "fair_draws draws (length pool)"
  shows "\<exists>pool' k'. pool_randomize draws k pool = Some (pool', k') \<and> mset pool' = mset pool"
  using randomize_returns [OF assms] randomize_perm by blast

lemma shuffle_permutes_witness:
  "\<exists>pool' k'. pool_randomize (\<lambda>k. k) 0 [10, 20, 30 :: nat] = Some (pool', k') \<and> mset pool' = {#10, 20, 30#}"
proof -
  have "k mod 3 \<noteq> (k + 1) mod 3" for k :: nat by presburger
  then have "fair_draws (\<lambda>k. k) (length [10, 20, 30 :: nat])"
    by (auto simp: fair_draws_def intro: exI [of _ 0])
  from shuffle_permutes [OF this, of 0] show ?thesis by auto
qed

lemma alloc_returns:
  "length (bytes_of (mDomainName (l_domain (lau (next_addr h))))) \<le> 2030 \<Longrightarrow>
   \<exists>h' a. alloc_resolver lau host kind h = Some (h', a)"
proof -
  assume "length (bytes_of (mDomainName (l_domain (lau (next_addr h))))) \<le> 2030"
  from resolver_test_returns [OF this] obtain st r where
    "new_resolver (lau (next_addr h)) (next_addr h) (q_statics h) host kind = Some (st, r)"
    unfolding new_resolver_def by blast
  then show ?thesis by (simp add: alloc_resolver_def Let_def)
qed

lemma fromIPList_returns:
  "\<forall>a. length (bytes_of (mDomainName (l_domain (lau a)))) \<le> 2030 \<Longrightarrow>
   \<exists>h' pool'. fromIPList lau ph h pool items kind = Some (h', pool')"
proof (induction items arbitrary: h pool)
  case (Cons item items)
  show ?case
  proof (cases "trimmed item = []")
    case False
    obtain h1 a where al: "alloc_resolver lau (ph (trimmed item)) kind h = Some (h1, a)"
      using alloc_returns Cons.prems by blast
    obtain h2 p2 b where ins: "pool_insort h1 pool a = (h2, p2, b)" by (cases "pool_insort h1 pool a") auto
    with False al Cons show ?thesis by simp
  qed (use Cons in simp)
qed simp

text \<open>C28: loading a list of addresses into a pool always succeeds when the test domains fit a
  query, adds exactly the addresses that are not blank, each once, and keeps every pool's
  references accounted for.\<close>

theorem pool_loaded:
  assumes "pools_ok h (pool # ps)" "\<forall>a. length (bytes_of (mDomainName (l_domain (lau a)))) \<le> 2030"
  shows "\<exists>h' pool'. fromIPList lau parse_host h pool items kind = Some (h', pool') \<and>
    host_of h' ` set pool' = host_of h ` set pool \<union> parse_host ` set (nonblank items) \<and>
    distinct (map (host_of h') pool') \<and> pools_ok h' (pool' # ps)"
proof -
  obtain h' pool' where r: "fromIPList lau parse_host h pool items kind = Some (h', pool')"
    using fromIPList_returns [OF assms(2)] by blast
  note ok = pools_ok_fromIPList [OF assms(1) r]
  then have "distinct (map (host_of h') pool')" by (auto simp: pools_ok_def)
  with ok r show ?thesis by blast
qed

lemma pool_loaded_witness:
  "\<exists>h' pool'. fromIPList (\<lambda>a. sample_launch) (\<lambda>x. x) empty_heap [] [''10.0.0.1'', '' '', ''10.0.0.1'', ''10.0.0.2''] ''T1''
      = Some (h', pool') \<and> host_of h' ` set pool' = {''10.0.0.1'', ''10.0.0.2''}"
proof -
  define items where "items = [''10.0.0.1'', '' '', ''10.0.0.1'', ''10.0.0.2'']"
  have "set (nonblank items) = {''10.0.0.1'', ''10.0.0.2''}"
    by (auto simp: items_def trimmed_def is_space_def)
  moreover have "length (bytes_of (mDomainName (l_domain sample_launch))) \<le> 2030"
    by (simp add: sample_launch_simps)
  ultimately show ?thesis
    using pool_loaded [of empty_heap "[]" "[]" "\<lambda>a. sample_launch" "\<lambda>x. x" items "''T1''"]
    unfolding items_def [symmetric] by auto
qed

text \<open>giving up a pool never deletes a resolver that another pool holds, and leaves every
  address as it was.\<close>

theorem destroy_keeps_others:
  assumes "pools_ok h (pool # ps)" "p \<in> set ps" "a \<in> set p"
  shows "live (pool_destroy h pool) a \<and> host_of (pool_destroy h pool) a = host_of h a"
  using pools_ok_live [OF pools_ok_destroy [OF assms(1)] assms(2,3)] by simp

lemma destroy_keeps_others_witness: "live (pool_destroy sample_heap [1, 3]) 3"
  using destroy_keeps_others [OF sample_heap_ok, of "[3, 2]" 3] by simp

lemma pools_ok_destroy_all: "pools_ok h (ps @ qs) \<Longrightarrow> pools_ok (foldl pool_destroy h ps) qs"
  by (induction ps arbitrary: h) (auto intro: pools_ok_destroy)

text \<open>clearing a pool leaks its resolvers: \<open>clear\<close> gives no reference back, so they stay
  allocated even when the cleared pool and all others are destroyed.\<close>

theorem clear_leaks:
  assumes "pools_ok h (pool # ps)" "a \<in> set pool"
  shows "live (foldl pool_destroy h (pool_clear pool # ps)) a"
proof -
  have one: "count_list [a] x \<le> count_list pool x" for x
    using assms(2) count_list_0_iff [of pool a] by (cases "x = a") auto
  have "pools_ok h (ps @ [[a]])"
    by (rule pools_ok_sub [OF assms(1)]) (use one assms(1) in \<open>auto simp: held_def pools_ok_def\<close>)
  then have "pools_ok (foldl pool_destroy h ps) [[a]]" by (rule pools_ok_destroy_all)
  then show ?thesis using pools_ok_live [of _ "[[a]]" "[a]" a] by (simp add: pool_clear_def)
qed

lemma clear_leaks_witness: "live (foldl pool_destroy sample_heap [pool_clear [1, 3], [3, 2]]) 1"
  using clear_leaks [OF sample_heap_ok, of 1] by simp

text \<open>the built-in rules favour speed: of two resolvers alike in kind, status and the services
  they resolve, the one with the lower average latency never scores lower, whatever the
  rounding of doubles, as long as it is monotone.\<close>

theorem score_favours_speed:
  assumes rnd: "mono rnd" "rnd 0 = 0"
    and alike: "mKind r = mKind r'" "status r = status r'" "resolvesNIC r ''opennic'' = resolvesNIC r' ''opennic''"
    and lat: "0 \<le> averageLatency rnd r" "averageLatency rnd r \<le> averageLatency rnd r'"
  shows "scoreResolverInternal rnd r' mx \<le> scoreResolverInternal rnd r mx"
proof -
  have m: "x \<le> y \<Longrightarrow> rnd x \<le> rnd y" for x y using rnd(1) by (rule monoD)
  have "0 \<le> rnd (6666 / 10000)" using m [of 0 "6666 / 10000"] rnd(2) by simp
  then have stage: "(if b then rnd (x * c) else x) \<le> (if b then rnd (y * c) else y)"
    if "x \<le> y" "c \<in> {rnd (6666 / 10000), 3 / 2, 7 / 4, 1 / 2, 3 / 4}" for x y c b
    using that by (auto intro!: m mult_right_mono)
  have base: "rnd (mx - averageLatency rnd r') \<le> rnd (mx - averageLatency rnd r)" using lat by (intro m) simp
  have "\<not> averageLatency rnd r < 0" "\<not> averageLatency rnd r' < 0" using lat by simp_all
  then show ?thesis
    unfolding scoreResolverInternal_def Let_def alike
    by (simp only: if_False) (intro stage base; simp)
qed

lemma score_favours_speed_witness:
  "scoreResolverInternal (\<lambda>x. x) (blank_resolver\<lparr>mQueries := [sample_query\<lparr>mEndTime := Some 1050\<rparr>]\<rparr>) 100 \<le>
   scoreResolverInternal (\<lambda>x. x) (blank_resolver\<lparr>mQueries := [sample_query\<lparr>mEndTime := Some 1010\<rparr>]\<rparr>) 100"
proof (rule score_favours_speed)
  show "mono (\<lambda>x :: rat. x)" by (simp add: mono_def)
qed (simp_all add: Resolver.status_def resolvesNIC_def averageLatency_def latency_def sample_query_def sample_env_def
    setExpireTime_def setStartTime_def open_socket_def setListener_def blank_query_def emit_def fromString_def
    numeral_3_eq_3)
end
