(* ===== verification/OsSystem.thy ===== *)
theory OsSystem
  imports DomainName
begin

text \<open>
  \<open>server/opennicsystem.cpp\<close> and its two platforms \<open>opennicsystem_linux.cpp\<close> and
  \<open>opennicsystem_win.cpp\<close>: the bootstrap files, the test domains, and the operating
  system's own list of name servers. The state holds the files of the machine as texts and
  the processes run so far; what files may be opened, the environment variables, the network
  interfaces and the results of processes are the record \<open>sys_env\<close>.
\<close>

section \<open>State and platform\<close>

datatype platform = Linux | Windows

type_synonym file_map = "string \<Rightarrow> string option"

record sys_env =
  platform_of :: platform
  can_read :: "string \<Rightarrow> bool"
  can_write :: "string \<Rightarrow> bool"
  getenv :: "string \<Rightarrow> string option"
  interface_names :: "string list"
  run :: "nat \<Rightarrow> string list \<Rightarrow> int \<times> string"
    \<comment> \<open>exit code and output of a command, given how many ran before it\<close>
  parse_host :: "string \<Rightarrow> host"
  stamp :: string
    \<comment> \<open>the current time, as \<open>yyMMddhhmmss\<close>\<close>

record sys =
  sys_enabled :: bool
  mInterfaceName :: string
  mTestDomains :: domain_pool
  mResolvers :: "string list"
  mResolverIndex :: int
  files :: file_map
  commands :: "string list list"

section \<open>Files\<close>

definition open_read :: "sys_env \<Rightarrow> file_map \<Rightarrow> string \<Rightarrow> string option" where
  \<comment> \<open>\<open>open(ReadOnly)\<close>, with the content it gives access to\<close>
  "open_read env fs name = (if can_read env name then fs name else None)"

definition content :: "file_map \<Rightarrow> string \<Rightarrow> string" where
  "content fs name = (case fs name of None \<Rightarrow> [] | Some s \<Rightarrow> s)"

definition overwrite :: "string \<Rightarrow> string \<Rightarrow> string" where
  \<comment> \<open>a write at the start of a file opened without truncation\<close>
  "overwrite new old = new @ drop (length new) old"

text \<open>\<open>while (!file.atEnd()) file.readLine()\<close>: every line with its terminator.\<close>

lemma rest_shorter: "s \<noteq> [] \<Longrightarrow> length (dropWhile P s) - Suc 0 < length s"
  using length_dropWhile_le [of P s] by (cases s) auto

function read_lines :: "string \<Rightarrow> string list" where
  "read_lines s =
     (if s = [] then []
      else if nl \<in> set s
      then (takeWhile (\<lambda>c. c \<noteq> nl) s @ [nl]) # read_lines (tl (dropWhile (\<lambda>c. c \<noteq> nl) s))
      else [s])"
  by pat_completeness auto
termination
  by (relation "measure length") (auto simp: rest_shorter)

declare read_lines.simps [simp del]

definition fileExists :: "file_map \<Rightarrow> string \<Rightarrow> bool" where
  "fileExists fs name = (fs name \<noteq> None)"

definition fileCopy :: "sys_env \<Rightarrow> string \<Rightarrow> string \<Rightarrow> file_map \<Rightarrow> file_map \<times> bool" where
  "fileCopy env from_file to_file fs =
     (if from_file \<noteq> to_file \<and> from_file \<noteq> [] \<and> to_file \<noteq> [] then
        (case open_read env fs from_file of
           Some s \<Rightarrow>
             ((if can_write env to_file
               then fs(to_file \<mapsto> overwrite s (content fs to_file)) else fs), True)
         | None \<Rightarrow> (fs, False))
      else (fs, False))"

definition backup_name :: "sys_env \<Rightarrow> string \<Rightarrow> string" where
  "backup_name env filename = stamp env @ filename @ ''.bak''"

definition backup :: "sys_env \<Rightarrow> string \<Rightarrow> file_map \<Rightarrow> file_map \<times> bool" where
  "backup env filename fs = fileCopy env filename (backup_name env filename) fs"

definition lines_text :: "string list \<Rightarrow> string" where
  "lines_text lines = concat (map (\<lambda>line. line @ [nl]) lines)"

definition writeStringListToFile ::
  "sys_env \<Rightarrow> string \<Rightarrow> string list \<Rightarrow> file_map \<Rightarrow> file_map \<times> bool" where
  "writeStringListToFile env filename lines fs =
     (let (fs1, saved) = backup env filename fs
      in if saved \<and> can_write env filename
         then (fs1(filename \<mapsto> lines_text lines), True)
         else (fs1, False))"

section \<open>The bootstrap files\<close>

definition install_dirs :: "string list" where
  "install_dirs = [''/usr/local/etc/'', ''/usr/etc/'', ''/etc/'', ''/opt/opennicwiz/'']"

fun first_existing :: "file_map \<Rightarrow> string list \<Rightarrow> string \<Rightarrow> string" where
  "first_existing fs [] name = name"
| "first_existing fs (d # ds) name =
     (if fileExists fs (d @ name) then d @ name else first_existing fs ds name)"

definition linux_path :: "sys_env \<Rightarrow> file_map \<Rightarrow> string \<Rightarrow> string \<Rightarrow> string" where
  "linux_path env fs var name =
     (case getenv env var of
        Some p \<Rightarrow> if fileExists fs p then p else first_existing fs install_dirs name
      | None \<Rightarrow> first_existing fs install_dirs name)"

definition bootstrapT1Path :: "sys_env \<Rightarrow> file_map \<Rightarrow> string" where
  "bootstrapT1Path env fs =
     (case platform_of env of
        Linux \<Rightarrow> linux_path env fs ''OPENNIC_T1_BOOTSTRAP'' ''bootstrap.t1''
      | Windows \<Rightarrow> ''bootstrap.t1'')"

definition bootstrapDomainsPath :: "sys_env \<Rightarrow> file_map \<Rightarrow> string" where
  "bootstrapDomainsPath env fs =
     (case platform_of env of
        Linux \<Rightarrow> linux_path env fs ''OPENNIC_DOMAINS_BOOTSTRAP'' ''bootstrap.domains''
      | Windows \<Rightarrow> ''bootstrap.domains'')"

definition fallback_T1 :: "string list" where
  "fallback_T1 =
     [''161.97.219.84'', ''163.172.168.171'', ''94.103.153.176'', ''207.192.71.13'',
      ''178.63.116.152'', ''209.141.36.19'', ''188.226.146.136'', ''198.98.51.33'',
      ''79.124.7.81'', ''144.76.103.143'']"

definition getBootstrapT1List :: "sys_env \<Rightarrow> file_map \<Rightarrow> string list" where
  "getBootstrapT1List env fs =
     (let rc = (case open_read env fs (bootstrapT1Path env fs) of
                  Some s \<Rightarrow> nonblank (read_lines s) | None \<Rightarrow> [])
      in if rc = [] then fallback_T1 else rc)"

definition saveBootstrapT1List :: "sys_env \<Rightarrow> string list \<Rightarrow> file_map \<Rightarrow> file_map \<times> bool" where
  "saveBootstrapT1List env lines fs = writeStringListToFile env (bootstrapT1Path env fs) lines fs"

definition exec :: "sys_env \<Rightarrow> string list \<Rightarrow> sys \<Rightarrow> sys \<times> int \<times> string" where
  "exec env args s = (s\<lparr>commands := commands s @ [args]\<rparr>, run env (length (commands s)) args)"

definition getBootstrapT2List :: "sys_env \<Rightarrow> sys \<Rightarrow> sys \<times> string list" where
  "getBootstrapT2List env s =
     (let (s1, _, out) = exec env [''dig'', ''dns.opennic.glue'', ''+short''] s
      in (s1, [ip. ip \<leftarrow> nonblank (split_on nl (trimmed out)), is_digit (hd ip)]))"

section \<open>Test domains\<close>

definition fallback_domains :: "string list" where
  "fallback_domains =
     [''icann;wikipedia.org'', ''icann;www.abs.gov.au'', ''icann;yahoo.com'', ''icann;google.com'',
      ''icann;360.cn'', ''icann;canada.ca'', ''opennic;dns.opennic.glue'', ''opennic;grep.geek'',
      ''opennic;opennic.glue'', ''opennic;reg.for.free'', ''opennic;register.bbs'',
      ''opennic;register.fur'', ''opennic;register.gopher'', ''opennic;register.ing'']"

definition getTestDomains :: "sys_env \<Rightarrow> sys \<Rightarrow> sys \<times> domain_pool" where
  "getTestDomains env s =
     (let s1 =
        (if length (mTestDomains s) = 0 then
           s\<lparr>mTestDomains :=
               append_all (mTestDomains s)
                 (map fromString
                   (case open_read env (files s) (bootstrapDomainsPath env (files s)) of
                      Some t \<Rightarrow> nonblank (read_lines t)
                    | None \<Rightarrow> fallback_domains))\<rparr>
         else s)
      in (s1, mTestDomains s1))"

definition saveTestDomains :: "sys_env \<Rightarrow> string list \<Rightarrow> file_map \<Rightarrow> file_map \<times> bool" where
  "saveTestDomains env lines fs = writeStringListToFile env (bootstrapDomainsPath env fs) lines fs"

definition randomDomain :: "sys_env \<Rightarrow> nat \<Rightarrow> sys \<Rightarrow> sys \<times> domain_name option" where
  \<comment> \<open>None: the remainder by zero traps\<close>
  "randomDomain env q s =
     (let (s1, domains) = getTestDomains env s
      in (s1, map_option (\<lambda>n. domains ! nat n) (random_in q 0 (int (length domains) - 1))))"

section \<open>Interfaces\<close>

definition base_defaultInterfaceName :: "sys_env \<Rightarrow> string" where
  "base_defaultInterfaceName env =
     (if length (interface_names env) > 0 then interface_names env ! 0 else [])"

definition defaultInterfaceName :: "sys_env \<Rightarrow> string" where
  "defaultInterfaceName env =
     (let name = base_defaultInterfaceName env
      in if name = []
         then (case platform_of env of Linux \<Rightarrow> ''eth0'' | Windows \<Rightarrow> ''Local Area Connection'')
         else name)"

definition interfaceName :: "sys_env \<Rightarrow> sys \<Rightarrow> sys \<times> string" where
  "interfaceName env s =
     (let s1 = (if mInterfaceName s = [] then s\<lparr>mInterfaceName := defaultInterfaceName env\<rparr> else s)
      in (s1, mInterfaceName s1))"

definition setInterfaceName :: "string \<Rightarrow> sys \<Rightarrow> sys" where
  "setInterfaceName name s = s\<lparr>mInterfaceName := name\<rparr>"

text \<open>
  The constructor. While the base class is built the virtual call reaches the base version of
  \<open>defaultInterfaceName\<close>. None: the singleton trap loops for ever.
\<close>

definition new_system :: "sys_env \<Rightarrow> bool \<Rightarrow> file_map \<Rightarrow> bool \<Rightarrow> string \<Rightarrow> sys option" where
  "new_system env instance_exists fs enabled networkInterface =
     (if instance_exists then None
      else Some \<lparr>sys_enabled = enabled,
        mInterfaceName = (if length networkInterface = 0 then base_defaultInterfaceName env else []),
        mTestDomains = [], mResolvers = [], mResolverIndex = 0, files = fs, commands = []\<rparr>)"

section \<open>The resolvers of the operating system\<close>

definition resolve_conf :: string where "resolve_conf = ''/etc/resolv.conf''"
definition resolve_conf_backup :: string where "resolve_conf_backup = ''/var/resolv.conf.bak''"
definition win_conf :: string where "win_conf = ''resolv.conf''"
definition win_conf_backup :: string where "win_conf_backup = ''resolv.conf.bak''"

definition ip_char :: "char \<Rightarrow> bool" where
  "ip_char c = (c = nl \<or> c = CHR 0x09 \<or> c = CHR '' '' \<or> c = CHR ''.'' \<or> is_digit c)"

definition server_line :: "string \<Rightarrow> bool" where
  \<comment> \<open>not empty, not a comment, and a full stop after the first character\<close>
  "server_line line =
     (line \<noteq> [] \<and> hd line \<noteq> CHR ''#'' \<and> hd line \<noteq> CHR '';'' \<and>
      CHR ''.'' \<in> set line \<and> hd line \<noteq> CHR ''.'')"

definition parseIPV4Strings :: "string \<Rightarrow> string list" where
  "parseIPV4Strings input =
     [trimmed (filter ip_char (trimmed (simplified raw))).
        raw \<leftarrow> split_on nl input, server_line (trimmed (simplified raw))]"

text \<open>\<open>QString::indexOf\<close> of a text, and \<open>QString::right\<close>.\<close>

fun find_text :: "nat \<Rightarrow> string \<Rightarrow> string \<Rightarrow> int" where
  "find_text n pat [] = (if pat = [] then int n else - 1)"
| "find_text n pat (c # s) =
     (if take (length pat) (c # s) = pat then int n else find_text (Suc n) pat s)"

definition right_part :: "int \<Rightarrow> string \<Rightarrow> string" where
  "right_part n s = (if n < 0 \<or> n > int (length s) then s else drop (length s - nat n) s)"

definition no_list :: "string list" where
  "no_list = [''Could not obtain system resolver list.'']"

definition linux_getSystemResolverList :: "sys_env \<Rightarrow> sys \<Rightarrow> sys \<times> string list" where
  "linux_getSystemResolverList env s =
     (s, case open_read env (files s) resolve_conf of
           Some text \<Rightarrow> parseIPV4Strings text | None \<Rightarrow> no_list)"

definition win_getSystemResolverList :: "sys_env \<Rightarrow> sys \<Rightarrow> sys \<times> string list" where
  "win_getSystemResolverList env s =
     (let (s1, iface) = interfaceName env s;
          (s2, _, out) = exec env [''netsh'', ''interface'', ''ip'', ''show'', ''config'', iface] s1;
          x = find_text 0 ''DNS Servers:'' out
      in (s2, if trimmed out = [] then no_list
              else parseIPV4Strings (right_part (int (length out) - (x + 12)) out)))"

definition getSystemResolverList :: "sys_env \<Rightarrow> sys \<Rightarrow> sys \<times> string list" where
  "getSystemResolverList env s =
     (case platform_of env of
        Linux \<Rightarrow> linux_getSystemResolverList env s | Windows \<Rightarrow> win_getSystemResolverList env s)"

definition server_entry :: "host \<Rightarrow> string" where
  "server_entry r = ''nameserver '' @ r"

definition linux_beginUpdateResolvers :: "sys \<Rightarrow> sys \<times> bool" where
  "linux_beginUpdateResolvers s = (s\<lparr>mResolvers := []\<rparr>, True)"

definition linux_updateResolver :: "host \<Rightarrow> sys \<Rightarrow> sys \<times> bool" where
  "linux_updateResolver resolver s = (s\<lparr>mResolvers := mResolvers s @ [resolver]\<rparr>, True)"

definition linux_endUpdateResolvers :: "sys_env \<Rightarrow> sys \<Rightarrow> sys \<times> bool" where
  "linux_endUpdateResolvers env s =
     (if length (mResolvers s) > 0 then
        (if can_write env resolve_conf
         then (let named = map server_entry (mResolvers s)
               in (s\<lparr>mResolvers := named,
                     files := (files s)(resolve_conf \<mapsto> join_with [nl] named @ [nl])\<rparr>, True))
         else (s, False))
      else (s, True))"

definition win_beginUpdateResolvers :: "sys \<Rightarrow> sys \<times> bool" where
  "win_beginUpdateResolvers s = (s\<lparr>mResolverIndex := 0\<rparr>, True)"

definition win_updateResolver :: "sys_env \<Rightarrow> host \<Rightarrow> sys \<Rightarrow> sys \<times> bool \<times> string list" where
  \<comment> \<open>with the lines it logs\<close>
  "win_updateResolver env resolver s =
     (let s1 = s\<lparr>mResolverIndex := mResolverIndex s + 1\<rparr>;
          (s2, iface) = interfaceName env s1;
          args = (if mResolverIndex s1 = 1
                  then [''interface'', ''ip'', ''set'', ''dns'', iface, ''static'', resolver]
                  else [''interface'', ''ip'', ''add'', ''dns'', iface, resolver,
                        ''index='' @ number (mResolverIndex s1)]);
          (s3, code, out) = exec env (''netsh'' # args) s2
      in (s3, code = 0, if code = 0 then [] else [trimmed out]))"

definition win_endUpdateResolvers :: "sys \<Rightarrow> sys \<times> bool" where
  "win_endUpdateResolvers s = (s, True)"

definition beginUpdateResolvers :: "sys_env \<Rightarrow> sys \<Rightarrow> sys \<times> bool" where
  "beginUpdateResolvers env s =
     (case platform_of env of
        Linux \<Rightarrow> linux_beginUpdateResolvers s | Windows \<Rightarrow> win_beginUpdateResolvers s)"

definition updateResolver :: "sys_env \<Rightarrow> host \<Rightarrow> sys \<Rightarrow> sys \<times> bool \<times> string list" where
  "updateResolver env resolver s =
     (case platform_of env of
        Linux \<Rightarrow> (let (s1, ok) = linux_updateResolver resolver s in (s1, ok, []))
      | Windows \<Rightarrow> win_updateResolver env resolver s)"

definition endUpdateResolvers :: "sys_env \<Rightarrow> sys \<Rightarrow> sys \<times> bool" where
  "endUpdateResolvers env s =
     (case platform_of env of
        Linux \<Rightarrow> linux_endUpdateResolvers env s | Windows \<Rightarrow> win_endUpdateResolvers s)"

section \<open>Preserving and restoring\<close>

definition text_mode :: "string \<Rightarrow> string" where
  \<comment> \<open>what a file opened with \<open>QIODevice::Text\<close> stores on Windows\<close>
  "text_mode s = concat (map (\<lambda>c. if c = nl then [CHR 0x0D, nl] else [c]) s)"

definition win_preserve :: "sys_env \<Rightarrow> sys \<Rightarrow> sys \<times> bool" where
  "win_preserve env s =
     (let (s1, resolvers) = win_getSystemResolverList env s
      in if length resolvers > 0 then
           (let fs = fst (fileCopy env win_conf win_conf_backup (files s1))
            in if can_write env win_conf
               then (s1\<lparr>files := fs(win_conf \<mapsto> text_mode (join_with [nl] resolvers))\<rparr>, True)
               else (s1\<lparr>files := fs\<rparr>, False))
         else (s1, True))"

fun apply_lines :: "sys_env \<Rightarrow> string list \<Rightarrow> sys \<Rightarrow> sys \<times> string list" where
  "apply_lines env [] s = (s, [])"
| "apply_lines env (line # rest) s =
     (let buffer = trimmed (simplified line)
      in if buffer \<noteq> [] then
           (let (s1, _, log1) = win_updateResolver env (parse_host env buffer) s;
                (s2, log2) = apply_lines env rest s1
            in (s2, log1 @ log2))
         else apply_lines env rest s)"

definition win_restore :: "sys_env \<Rightarrow> sys \<Rightarrow> sys \<times> bool \<times> string list" where
  "win_restore env s =
     (case open_read env (files s) win_conf of
        None \<Rightarrow> (s, False, [])
      | Some text \<Rightarrow>
          (let s1 = fst (win_beginUpdateResolvers s);
               (s2, msgs) = apply_lines env (read_lines text) s1
           in (fst (win_endUpdateResolvers s2), True, msgs)))"

definition preserveResolverCache :: "sys_env \<Rightarrow> sys \<Rightarrow> sys \<times> bool" where
  "preserveResolverCache env s =
     (case platform_of env of
        Linux \<Rightarrow> (let (fs, ok) = fileCopy env resolve_conf resolve_conf_backup (files s)
                  in (s\<lparr>files := fs\<rparr>, ok))
      | Windows \<Rightarrow> win_preserve env s)"

definition restoreResolverCache :: "sys_env \<Rightarrow> sys \<Rightarrow> sys \<times> bool \<times> string list" where
  "restoreResolverCache env s =
     (case platform_of env of
        Linux \<Rightarrow> (let (fs, ok) = fileCopy env resolve_conf_backup resolve_conf (files s)
                  in (s\<lparr>files := fs\<rparr>, ok, []))
      | Windows \<Rightarrow> win_restore env s)"

definition startup :: "sys_env \<Rightarrow> sys \<Rightarrow> sys \<times> string list" where
  "startup env s =
     (let (s1, ok) = preserveResolverCache env s
      in (s1, [if ok then ''resolver cache preserved'' else ''failed to preserved resolver cache'']))"

definition shutdown :: "sys_env \<Rightarrow> sys \<Rightarrow> sys \<times> string list" where
  "shutdown env s =
     (let (s1, ok, msgs) = restoreResolverCache env s
      in (s1, msgs @ [if ok then ''resolver cache restored'' else ''failed to restore resolver cache'']))"

definition setEnabled :: "sys_env \<Rightarrow> bool \<Rightarrow> sys \<Rightarrow> sys \<times> string list" where
  "setEnabled env enabled s =
     (if sys_enabled s \<noteq> enabled then
        (let s1 = s\<lparr>sys_enabled := enabled\<rparr>
         in if enabled
            then (let (s2, msgs) = startup env s1 in (s2, ''** ENABLEDD -> STARTUP **'' # msgs))
            else (let (s2, msgs) = shutdown env s1 in (s2, ''** DISABLED -> SHUTDOWN **'' # msgs)))
      else (s, []))"

section \<open>Line files\<close>

lemma nonblank_append [simp]: "nonblank (xs @ ys) = nonblank xs @ nonblank ys"
  by (simp add: nonblank_def)

lemma nonblank_read_lines: "nonblank (read_lines s) = nonblank (split_on nl s)"
proof (induction s rule: read_lines.induct)
  case (1 s)
  show ?case
  proof (cases "nl \<in> set s")
    case True
    then have "dropWhile (\<lambda>c. c \<noteq> nl) s \<noteq> []" by (auto simp: dropWhile_eq_Nil_conv)
    then have "split_on nl s = takeWhile (\<lambda>c. c \<noteq> nl) s # split_on nl (tl (dropWhile (\<lambda>c. c \<noteq> nl) s))"
      by (subst split_on_takeWhile) (auto split: list.splits)
    moreover have "s \<noteq> []" using True by auto
    ultimately show ?thesis using 1 True
      by (subst read_lines.simps) (simp add: trimmed_append_space)
  next
    case False
    then show ?thesis by (subst read_lines.simps) (auto simp: split_on_no_sep)
  qed
qed

lemma split_lines_text:
  "\<forall>l \<in> set ls. nl \<notin> set l \<Longrightarrow> split_on nl (lines_text ls) = ls @ [[]]"
  by (induction ls) (auto simp: lines_text_def split_on_append)

lemma nonblank_lines_text:
  "\<forall>l \<in> set ls. nl \<notin> set l \<Longrightarrow> nonblank (read_lines (lines_text ls)) = nonblank ls"
  by (simp add: nonblank_read_lines split_lines_text)

lemma nonblank_ok: "x \<in> set (nonblank ls) \<Longrightarrow> x \<noteq> [] \<and> trim_ok x"
  by (auto simp: nonblank_def)

interpretation line_file: codec lines_text "\<lambda>s. nonblank (read_lines s)" nonblank
    "\<lambda>ls. \<forall>l \<in> set ls. nl \<notin> set l"
  by unfold_locales (rule nonblank_lines_text)

section \<open>Copies and backups\<close>

lemma fileCopy_content:
  assumes "open_read env fs a = Some s" "a \<noteq> b" "a \<noteq> []" "b \<noteq> []" "can_write env b"
  shows "fileCopy env a b fs = (fs(b \<mapsto> overwrite s (content fs b)), True)"
  using assms by (simp add: fileCopy_def)

lemma overwrite_exact: "overwrite new old = new \<longleftrightarrow> length old \<le> length new"
  by (simp add: overwrite_def)

lemma backup_name_neq [simp]: "backup_name env f \<noteq> f" "f \<noteq> backup_name env f" "backup_name env f \<noteq> []"
proof -
  have "length (backup_name env f) > length f" by (simp add: backup_name_def)
  then show "backup_name env f \<noteq> f" "f \<noteq> backup_name env f" "backup_name env f \<noteq> []" by auto
qed

lemma backup_saved:
  "backup env f fs = (fs', True) \<Longrightarrow>
   open_read env fs f \<noteq> None \<and> f \<noteq> [] \<and> (\<forall>g. g \<noteq> backup_name env f \<longrightarrow> fs' g = fs g) \<and>
   (can_write env (backup_name env f) \<longrightarrow>
      fs' (backup_name env f) = Some (overwrite (the (fs f)) (content fs (backup_name env f))))"
  by (auto simp: backup_def fileCopy_def open_read_def split: option.splits if_splits)

lemma write_needs_file:
  "open_read env fs f = None \<Longrightarrow> writeStringListToFile env f ls fs = (fs, False)"
  by (auto simp: writeStringListToFile_def backup_def fileCopy_def)

lemma write_saved:
  assumes "writeStringListToFile env f ls fs = (fs', True)"
  shows "fs' f = Some (lines_text ls) \<and> open_read env fs f \<noteq> None \<and>
    (\<forall>g. g \<noteq> f \<and> g \<noteq> backup_name env f \<longrightarrow> fs' g = fs g) \<and>
    (can_write env (backup_name env f) \<longrightarrow>
      fs' (backup_name env f) = Some (overwrite (the (fs f)) (content fs (backup_name env f))))"
proof -
  obtain fs1 where b: "backup env f fs = (fs1, True)" and "fs' = fs1(f \<mapsto> lines_text ls)"
    using assms by (auto simp: writeStringListToFile_def split: prod.splits if_splits)
  with backup_saved [OF b] show ?thesis by auto
qed

section \<open>The path of a bootstrap file\<close>

lemma first_existing_same:
  "\<forall>d \<in> set ds. fileExists fs' (d @ name) = fileExists fs (d @ name) \<Longrightarrow>
   first_existing fs' ds name = first_existing fs ds name"
  by (induction ds) auto

text \<open>The time stamp in front of the backup's name keeps it out of the directories searched.\<close>

definition stamp_ok :: "sys_env \<Rightarrow> bool" where
  "stamp_ok env = (stamp env \<noteq> [] \<and> hd (stamp env) \<noteq> CHR ''/'')"

lemma linux_path_stable:
  assumes "stamp_ok env" "getenv env var \<noteq> Some (backup_name env f)"
    "fs f \<noteq> None" "fs' f \<noteq> None"
    "\<forall>g. g \<noteq> f \<and> g \<noteq> backup_name env f \<longrightarrow> fs' g = fs g"
  shows "linux_path env fs' var name = linux_path env fs var name"
proof -
  have same: "fileExists fs' g = fileExists fs g" if "g \<noteq> backup_name env f" for g
    using assms(3-5) that by (cases "g = f") (auto simp: fileExists_def)
  have "hd (backup_name env f) \<noteq> CHR ''/''"
    using assms(1) by (simp add: stamp_ok_def backup_name_def hd_append)
  then have "d @ name \<noteq> backup_name env f" if "d \<in> set install_dirs" for d
  proof -
    have "hd (d @ name) = CHR ''/''" using that by (auto simp: install_dirs_def)
    with \<open>hd (backup_name env f) \<noteq> CHR ''/''\<close> show ?thesis by metis
  qed
  then have "first_existing fs' install_dirs name = first_existing fs install_dirs name"
    using same by (intro first_existing_same) auto
  moreover have "fileExists fs' p = fileExists fs p" if "getenv env var = Some p" for p
    using same assms(2) that by auto
  ultimately show ?thesis by (simp add: linux_path_def split: option.splits)
qed

lemma linux_path_default: "(\<And>g. \<not> fileExists fs g) \<Longrightarrow> linux_path env fs var name = name"
  by (simp add: linux_path_def install_dirs_def split: option.splits)

lemma T1_path_stable:
  assumes "stamp_ok env"
    "getenv env ''OPENNIC_T1_BOOTSTRAP'' \<noteq> Some (backup_name env (bootstrapT1Path env fs))"
    "saveBootstrapT1List env ls fs = (fs', True)"
  shows "bootstrapT1Path env fs' = bootstrapT1Path env fs"
proof -
  note w = write_saved [OF assms(3) [unfolded saveBootstrapT1List_def]]
  then have "fs (bootstrapT1Path env fs) \<noteq> None" by (auto simp: open_read_def split: if_splits)
  then show ?thesis
    using w assms(1,2) linux_path_stable [of env "''OPENNIC_T1_BOOTSTRAP''" "bootstrapT1Path env fs" fs fs']
    by (cases "platform_of env") (auto simp: bootstrapT1Path_def)
qed

section \<open>Reading the system's list\<close>

lemma parse_chars: "t \<in> set (parseIPV4Strings input) \<Longrightarrow> list_all ip_char t \<and> trim_ok t"
  using set_trimmed by (fastforce simp: parseIPV4Strings_def list_all_iff)

definition ip_text :: "string \<Rightarrow> bool" where
  "ip_text h = (list_all (\<lambda>c. is_digit c \<or> c = CHR ''.'') h \<and> CHR ''.'' \<in> set h)"

lemma digit_not_space: "is_digit c \<Longrightarrow> \<not> is_space c"
  by (auto simp: is_digit_def is_space_def Let_def)

lemma ip_text_chars:
  assumes "ip_text h" shows "\<forall>c \<in> set h. \<not> is_space c \<and> ip_char c" "nl \<notin> set h" "h \<noteq> []"
proof -
  show sp: "\<forall>c \<in> set h. \<not> is_space c \<and> ip_char c"
    using assms by (auto simp: ip_text_def list_all_iff ip_char_def digit_not_space)
  then show "nl \<notin> set h" using is_space_nl by blast
  show "h \<noteq> []" using assms by (auto simp: ip_text_def)
qed

lemma squeeze_no_space: "\<forall>c \<in> set s. \<not> is_space c \<Longrightarrow> squeeze s = s"
  by (induction s rule: squeeze.induct) auto

lemma squeeze_two_words:
  "\<forall>c \<in> set p. \<not> is_space c \<Longrightarrow> \<forall>c \<in> set h. \<not> is_space c \<Longrightarrow> h \<noteq> [] \<Longrightarrow>
   squeeze (p @ CHR '' '' # h) = p @ CHR '' '' # h"
proof (induction p)
  case Nil
  then show ?case using squeeze_no_space [of h] by (cases h) auto
next
  case (Cons x p)
  then show ?case by (cases p) auto
qed

definition keyword :: string where
  "keyword = ''nameserver''"

lemma keyword_chars: "\<forall>c \<in> set keyword. \<not> is_space c \<and> \<not> ip_char c" "keyword \<noteq> []"
  by (simp_all add: keyword_def is_space_def ip_char_def is_digit_def nl_def)

lemma nameserver_eq: "server_entry h = keyword @ CHR '' '' # h"
  by (simp add: keyword_def server_entry_def)

lemma nameserver_line:
  assumes "\<forall>c \<in> set h. \<not> is_space c" "h \<noteq> []"
  shows "trimmed (simplified (server_entry h)) = server_entry h"
proof -
  have "trim_ok (keyword @ CHR '' '' # h)"
    using assms keyword_chars by (auto simp: trim_ok_def hd_append)
  then show ?thesis
    using squeeze_two_words [of keyword h] assms keyword_chars
    unfolding nameserver_eq by (simp add: simplified_def trimmed_id)
qed

lemma nameserver_parsed:
  assumes "ip_text h"
  shows "server_line (server_entry h)" "trimmed (filter ip_char (server_entry h)) = h"
proof -
  note h = ip_text_chars [OF assms]
  show "server_line (server_entry h)" using assms by (auto simp: server_line_def ip_text_def server_entry_def)
  have "filter ip_char (server_entry h) = CHR '' '' # h"
    using h(1) keyword_chars unfolding nameserver_eq
    by (simp add: filter_id_conv ip_char_def [of "CHR '' ''"] filter_empty_conv)
  moreover have "trimmed (CHR '' '' # h) = h"
  proof -
    have "trimmed (CHR '' '' # h) = trimmed h" by (simp add: trimmed_def is_space_def)
    also have "\<dots> = h" using h by (intro trimmed_id) (auto simp: trim_ok_def)
    finally show ?thesis .
  qed
  ultimately show "trimmed (filter ip_char (server_entry h)) = h" by simp
qed

definition conf_text :: "host list \<Rightarrow> string" where
  "conf_text hs = join_with [nl] (map server_entry hs) @ [nl]"

lemma conf_text_lines: "hs \<noteq> [] \<Longrightarrow> conf_text hs = lines_text (map server_entry hs)"
  unfolding conf_text_def
proof (induction hs)
  case (Cons h hs)
  then show ?case by (cases hs) (auto simp: lines_text_def)
qed simp

text \<open>The text of an IPv6 address: hexadecimal digits and colons.\<close>

definition ip6_text :: "string \<Rightarrow> bool" where
  "ip6_text h = (h \<noteq> [] \<and> list_all (\<lambda>c. is_digit c \<or> c \<in> set ''abcdef:'') h)"

lemma ip6_text_chars:
  assumes "ip6_text h" shows "\<forall>c \<in> set h. \<not> is_space c" "CHR ''.'' \<notin> set h" "h \<noteq> []" "\<not> ip_text h"
proof -
  have c: "\<not> is_space c \<and> c \<noteq> CHR ''.''" if "c \<in> set h" for c
  proof -
    have "is_digit c \<or> c \<in> set ''abcdef:''" using assms that by (auto simp: ip6_text_def list_all_iff)
    then show ?thesis
    proof
      assume "is_digit c"
      then show ?thesis by (auto simp: digit_not_space is_digit_def)
    qed (auto simp: is_space_def)
  qed
  then show "\<forall>c \<in> set h. \<not> is_space c" "CHR ''.'' \<notin> set h" by auto
  then show "h \<noteq> []" "\<not> ip_text h" using assms by (auto simp: ip6_text_def ip_text_def)
qed

lemma parse_conf_mixed:
  assumes "hs \<noteq> []" "\<forall>h \<in> set hs. ip_text h \<or> ip6_text h"
  shows "parseIPV4Strings (conf_text hs) = filter ip_text hs"
proof -
  have word: "(\<forall>c \<in> set h. \<not> is_space c) \<and> h \<noteq> []" if "h \<in> set hs" for h
    using bspec [OF assms(2) that] ip_text_chars(1,3) [of h] ip6_text_chars(1,3) [of h] by blast
  have "nl \<notin> set (server_entry h)" if "h \<in> set hs" for h
    using word [OF that] is_space_nl by (auto simp: nl_def server_entry_def)
  then have "split_on nl (conf_text hs) = map server_entry hs @ [[]]"
    unfolding conf_text_lines [OF assms(1)] by (intro split_lines_text) auto
  moreover have "\<not> server_line (trimmed (simplified []))"
    by (simp add: server_line_def simplified_def)
  moreover have "concat (map (\<lambda>raw. if server_line (trimmed (simplified raw))
      then [trimmed (filter ip_char (trimmed (simplified raw)))] else [])
      (map server_entry hs)) = filter ip_text hs"
    using assms(2) word
  proof (induction hs)
    case (Cons h hs)
    have line: "trimmed (simplified (server_entry h)) = server_entry h"
      using Cons.prems(2) [of h] by (intro nameserver_line) auto
    have "\<not> server_line (server_entry h)" if "ip6_text h"
      using ip6_text_chars(2) [OF that] by (auto simp: server_line_def server_entry_def)
    then show ?case
      using Cons line nameserver_parsed [of h] ip6_text_chars(4) [of h] by auto
  qed simp
  ultimately show ?thesis by (simp add: parseIPV4Strings_def)
qed

section \<open>What the operations leave alone\<close>

lemma exec_frame [frame_simps]:
  "exec env args s = (s1, r) \<Longrightarrow> sys_enabled s1 = sys_enabled s \<and> mTestDomains s1 = mTestDomains s \<and>
     files s1 = files s \<and> mResolvers s1 = mResolvers s \<and> mResolverIndex s1 = mResolverIndex s \<and>
     mInterfaceName s1 = mInterfaceName s \<and> commands s1 = commands s @ [args]"
  by (auto simp: exec_def)

lemma interfaceName_frame [frame_simps]:
  "interfaceName env s = (s1, r) \<Longrightarrow> sys_enabled s1 = sys_enabled s \<and> mTestDomains s1 = mTestDomains s \<and>
     files s1 = files s \<and> mResolvers s1 = mResolvers s \<and> mResolverIndex s1 = mResolverIndex s \<and>
     commands s1 = commands s \<and> mInterfaceName s1 = r"
  by (cases "mInterfaceName s = []") (auto simp: interfaceName_def Let_def)

lemma defaultInterfaceName_not_empty [simp]: "defaultInterfaceName env \<noteq> []"
  by (simp add: defaultInterfaceName_def Let_def split: platform.splits)

lemma interfaceName_result:
  "interfaceName env s = (s1, r) \<Longrightarrow>
   r \<noteq> [] \<and> r = (if mInterfaceName s = [] then defaultInterfaceName env else mInterfaceName s)"
  by (auto simp: interfaceName_def Let_def split: if_splits)

lemma win_update_frame [frame_simps]:
  assumes "win_updateResolver env h s = (s1, ok, msgs)"
  shows "sys_enabled s1 = sys_enabled s \<and> mTestDomains s1 = mTestDomains s \<and> files s1 = files s \<and>
    mResolvers s1 = mResolvers s \<and> mResolverIndex s1 = mResolverIndex s + 1 \<and>
    length (commands s1) = Suc (length (commands s))"
proof -
  obtain s2 i where i: "interfaceName env (s\<lparr>mResolverIndex := mResolverIndex s + 1\<rparr>) = (s2, i)"
    by (cases "interfaceName env (s\<lparr>mResolverIndex := mResolverIndex s + 1\<rparr>)") auto
  from assms i interfaceName_frame [OF i] show ?thesis
    by (auto simp: win_updateResolver_def Let_def exec_def split: if_splits prod.splits)
qed

lemma win_get_frame [frame_simps]:
  assumes "win_getSystemResolverList env s = (s1, r)"
  shows "sys_enabled s1 = sys_enabled s \<and> mTestDomains s1 = mTestDomains s \<and> files s1 = files s"
proof -
  obtain s2 i where i: "interfaceName env s = (s2, i)" by (cases "interfaceName env s") auto
  from assms i interfaceName_frame [OF i] show ?thesis
    by (auto simp: win_getSystemResolverList_def Let_def exec_def split: prod.splits)
qed

lemma apply_lines_frame [frame_simps]:
  "apply_lines env ls s = (s1, msgs) \<Longrightarrow>
   sys_enabled s1 = sys_enabled s \<and> mTestDomains s1 = mTestDomains s \<and> files s1 = files s"
proof (induction ls arbitrary: s s1 msgs)
  case (Cons l ls)
  show ?case
  proof (cases "trimmed (simplified l) = []")
    case False
    obtain s2 ok m1 where u: "win_updateResolver env (parse_host env (trimmed (simplified l))) s = (s2, ok, m1)"
      by (cases "win_updateResolver env (parse_host env (trimmed (simplified l))) s") auto
    from Cons.prems False u obtain m2 where "apply_lines env ls s2 = (s1, m2)"
      by (auto simp: Let_def split: prod.splits)
    with Cons.IH win_update_frame [OF u] show ?thesis by auto
  qed (use Cons in simp)
qed simp

lemma preserve_frame [frame_simps]:
  "preserveResolverCache env s = (s1, ok) \<Longrightarrow>
   sys_enabled s1 = sys_enabled s \<and> mTestDomains s1 = mTestDomains s"
  by (auto simp: preserveResolverCache_def win_preserve_def Let_def
      dest!: win_get_frame split: platform.splits prod.splits if_splits)

lemma restore_frame [frame_simps]:
  "restoreResolverCache env s = (s1, ok, msgs) \<Longrightarrow>
   sys_enabled s1 = sys_enabled s \<and> mTestDomains s1 = mTestDomains s"
  by (auto simp: restoreResolverCache_def win_restore_def Let_def win_beginUpdateResolvers_def
      win_endUpdateResolvers_def dest!: apply_lines_frame
      split: platform.splits prod.splits if_splits option.splits)

lemma startup_frame [frame_simps]:
  "startup env s = (s1, msgs) \<Longrightarrow> sys_enabled s1 = sys_enabled s \<and> mTestDomains s1 = mTestDomains s"
  by (auto simp: startup_def dest!: preserve_frame split: prod.splits)

lemma shutdown_frame [frame_simps]:
  "shutdown env s = (s1, msgs) \<Longrightarrow> sys_enabled s1 = sys_enabled s \<and> mTestDomains s1 = mTestDomains s"
  by (auto simp: shutdown_def dest!: restore_frame split: prod.splits)

lemma setEnabled_frame [frame_simps]:
  "setEnabled env b s = (s1, msgs) \<Longrightarrow> sys_enabled s1 = b \<and> mTestDomains s1 = mTestDomains s"
  by (auto simp: setEnabled_def Let_def dest!: startup_frame shutdown_frame split: prod.splits if_splits)

section \<open>Test domains\<close>

lemma getTestDomains_result:
  assumes "getTestDomains env s = (s1, pool)" "pool_ok (mTestDomains s)"
  shows "pool_ok pool \<and> mTestDomains s1 = pool \<and> (pool \<noteq> [] \<longrightarrow> getTestDomains env s1 = (s1, pool))"
  using assms pool_ok_append_all by (auto simp: getTestDomains_def Let_def split: if_splits)

lemma append_all_Nil_iff: "append_all pool ds = [] \<longleftrightarrow> pool = [] \<and> ds = []"
proof -
  have "toString ` set (append_all pool ds) = toString ` set pool \<union> toString ` set ds"
    unfolding append_all_def by (rule domain_pool_laws.keys_add_all)
  then show ?thesis by (metis Un_empty image_is_empty set_empty)
qed

lemma getTestDomains_empty:
  "snd (getTestDomains env s) = [] \<longleftrightarrow>
   mTestDomains s = [] \<and>
   (\<exists>t. open_read env (files s) (bootstrapDomainsPath env (files s)) = Some t \<and> nonblank (read_lines t) = [])"
  by (auto simp: getTestDomains_def Let_def append_all_Nil_iff fallback_domains_def split: option.splits)

lemma randomDomain_member:
  "snd (getTestDomains env s) \<noteq> [] \<Longrightarrow>
   \<exists>d. snd (randomDomain env q s) = Some d \<and> d \<in> set (snd (getTestDomains env s))"
proof -
  obtain s1 pool where g: "getTestDomains env s = (s1, pool)" by (cases "getTestDomains env s") auto
  assume "snd (getTestDomains env s) \<noteq> []"
  then have ne: "0 < length pool" using g by simp
  then obtain r where "random_in q 0 (int (length pool) - 1) = Some r" "0 \<le> r" "r \<le> int (length pool) - 1"
    using random_in_range [of 0 "int (length pool) - 1" q] by auto
  then show ?thesis using g ne by (auto simp: randomDomain_def intro!: nth_mem)
qed

lemma randomDomain_traps:
  "snd (getTestDomains env s) = [] \<Longrightarrow> snd (randomDomain env q s) = None"
  by (auto simp: randomDomain_def random_in_def split: prod.splits)

section \<open>Handing a list of servers to the system\<close>

fun hand_over :: "(host \<Rightarrow> 's \<Rightarrow> 's \<times> bool) \<Rightarrow> host list \<Rightarrow> 's \<Rightarrow> 's" where
  "hand_over add [] s = s"
| "hand_over add (h # hs) s = hand_over add hs (fst (add h s))"

lemma hand_over_append: "hand_over add (xs @ ys) s = hand_over add ys (hand_over add xs s)"
  by (induction xs arbitrary: s) auto

text \<open>The contract both platforms keep: a new list starts empty and every server counts.\<close>

locale server_list =
  fixes start :: "'s \<Rightarrow> 's \<times> bool" and add :: "host \<Rightarrow> 's \<Rightarrow> 's \<times> bool" and handed :: "'s \<Rightarrow> int"
  assumes start_ok: "snd (start s)" and start_empty: "handed (fst (start s)) = 0"
    and add_counts: "handed (fst (add h s)) = handed s + 1"
begin

lemma handed_all: "handed (hand_over add hs s) = handed s + int (length hs)"
  by (induction hs arbitrary: s) (auto simp: add_counts)

lemma handed_from_start: "handed (hand_over add hs (fst (start s))) = int (length hs)"
  by (simp add: handed_all start_empty)

end

definition update_result :: "sys_env \<Rightarrow> host \<Rightarrow> sys \<Rightarrow> sys \<times> bool" where
  "update_result env h s = (let (s1, ok, _) = updateResolver env h s in (s1, ok))"

definition servers_handed :: "sys_env \<Rightarrow> sys \<Rightarrow> int" where
  "servers_handed env s =
     (case platform_of env of Linux \<Rightarrow> int (length (mResolvers s)) | Windows \<Rightarrow> mResolverIndex s)"

interpretation os_servers: server_list "beginUpdateResolvers env" "update_result env" "servers_handed env" for env
proof (unfold_locales, goal_cases)
  case (1 s)
  show ?case by (simp add: beginUpdateResolvers_def linux_beginUpdateResolvers_def
      win_beginUpdateResolvers_def split: platform.splits)
next
  case (2 s)
  show ?case by (simp add: beginUpdateResolvers_def linux_beginUpdateResolvers_def
      win_beginUpdateResolvers_def servers_handed_def split: platform.splits)
next
  case (3 h s)
  show ?case
    by (auto simp: update_result_def updateResolver_def linux_updateResolver_def servers_handed_def
        dest: win_update_frame split: platform.splits prod.splits)
qed

lemma linux_hand_over:
  "platform_of env = Linux \<Longrightarrow>
   hand_over (update_result env) hs s = s\<lparr>mResolvers := mResolvers s @ hs\<rparr>"
  by (induction hs arbitrary: s)
    (auto simp: update_result_def updateResolver_def linux_updateResolver_def Let_def)

lemma linux_hand_over_end:
  assumes "platform_of env = Linux" "can_write env resolve_conf" "hs \<noteq> []"
  shows "files (fst (endUpdateResolvers env
      (hand_over (update_result env) hs (fst (beginUpdateResolvers env s)))))
    = (files s)(resolve_conf \<mapsto> conf_text hs)"
  using assms
  by (simp add: beginUpdateResolvers_def linux_beginUpdateResolvers_def linux_hand_over
      endUpdateResolvers_def linux_endUpdateResolvers_def conf_text_def Let_def)

definition win_command :: "string \<Rightarrow> int \<Rightarrow> host \<Rightarrow> string list" where
  \<comment> \<open>the first server replaces the interface's list, the others are added at their index\<close>
  "win_command iface n h =
     (if n = 1 then [''netsh'', ''interface'', ''ip'', ''set'', ''dns'', iface, ''static'', h]
      else [''netsh'', ''interface'', ''ip'', ''add'', ''dns'', iface, h, ''index='' @ number n])"

lemma win_hand_over:
  assumes "platform_of env = Windows" "mInterfaceName s = iface" "iface \<noteq> []"
  shows "commands (hand_over (update_result env) hs s) =
      commands s @ map (\<lambda>k. win_command iface (mResolverIndex s + 1 + int k) (hs ! k)) [0..<length hs]"
  using assms(2)
proof (induction hs arbitrary: s)
  case (Cons h hs)
  define s1 where "s1 = fst (update_result env h s)"
  have s1: "commands s1 = commands s @ [win_command iface (mResolverIndex s + 1) h]"
    "mInterfaceName s1 = iface" "mResolverIndex s1 = mResolverIndex s + 1"
    using assms(1,3) Cons.prems
    by (auto simp: s1_def update_result_def updateResolver_def win_updateResolver_def interfaceName_def
        exec_def win_command_def Let_def split: prod.splits)
  have "[0..<length (h # hs)] = 0 # map Suc [0..<length hs]"
    by (simp only: list.size map_Suc_upt) (simp add: upt_conv_Cons del: upt_Suc)
  then show ?case using Cons.IH [OF s1(2)] s1
    by (simp add: s1_def [symmetric] o_def algebra_simps)
qed simp

section \<open>Properties\<close>

text \<open>A Linux machine with a configuration and a bootstrap file, for the witnesses.\<close>

definition sample_os :: sys_env where
  "sample_os = \<lparr>platform_of = Linux, can_read = (\<lambda>_. True), can_write = (\<lambda>_. True), getenv = (\<lambda>_. None),
     interface_names = [''eth1''], run = (\<lambda>n args. (0, [])), parse_host = (\<lambda>t. t), stamp = ''230101120000''\<rparr>"

definition sample_files :: file_map where
  "sample_files = [resolve_conf \<mapsto> ''nameserver 8.8.8.8'' @ [nl], ''/etc/bootstrap.t1'' \<mapsto> ''1.2.3.4'' @ [nl],
     ''/etc/bootstrap.domains'' \<mapsto> ''icann;a.b'' @ [nl]]"

definition sample_sys :: sys where
  "sample_sys = \<lparr>sys_enabled = True, mInterfaceName = ''eth1'', mTestDomains = [], mResolvers = [],
     mResolverIndex = 0, files = sample_files, commands = []\<rparr>"

lemma sample_os_simps [simp]:
  "platform_of sample_os = Linux" "can_read sample_os f" "can_write sample_os f" "getenv sample_os v = None"
  "stamp_ok sample_os" "files sample_sys = sample_files" "mTestDomains sample_sys = []"
  by (simp_all add: sample_os_def stamp_ok_def sample_sys_def)

lemma sample_files_simps [simp]:
  "sample_files resolve_conf = Some (''nameserver 8.8.8.8'' @ [nl])"
  "sample_files ''/etc/bootstrap.t1'' = Some (''1.2.3.4'' @ [nl])"
  "sample_files ''/etc/bootstrap.domains'' = Some (''icann;a.b'' @ [nl])"
  "sample_files resolve_conf_backup = None"
  by (simp_all add: sample_files_def resolve_conf_def resolve_conf_backup_def)

lemma sample_T1_path: "bootstrapT1Path sample_os sample_files = ''/etc/bootstrap.t1''"
  by (simp add: bootstrapT1Path_def linux_path_def install_dirs_def fileExists_def sample_files_def resolve_conf_def)

lemma sample_domains_path: "bootstrapDomainsPath sample_os sample_files = ''/etc/bootstrap.domains''"
  by (simp add: bootstrapDomainsPath_def linux_path_def install_dirs_def fileExists_def sample_files_def resolve_conf_def)

lemma write_unsaved: "writeStringListToFile env f ls fs = (fs', False) \<Longrightarrow> fs' f = fs f"
  by (auto simp: writeStringListToFile_def backup_def fileCopy_def Let_def
      split: option.splits if_splits prod.splits)

lemma sample_write:
  assumes "sample_files f \<noteq> None"
  shows "\<exists>fs'. writeStringListToFile sample_os f ls sample_files = (fs', True)"
proof -
  have "f \<noteq> []" using assms by (auto simp: sample_files_def resolve_conf_def)
  then show ?thesis
    using assms by (auto simp: writeStringListToFile_def backup_def fileCopy_def open_read_def split: option.splits)
qed

text \<open>C26: what saving a list does to the files: it succeeds exactly when its file exists, can be
  read and can be written (so it never creates it); then the file holds exactly the lines,
  otherwise it is as it was. Before that, the old content goes to a second file whose name is
  the time stamp followed by the whole path, wherever that file can be written; where it
  cannot, no copy is kept and the save succeeds all the same. No other file changes.\<close>

theorem save_list_outcome:
  assumes "writeStringListToFile env f ls fs = (fs', ok)"
  shows "(ok \<longleftrightarrow> f \<noteq> [] \<and> open_read env fs f \<noteq> None \<and> can_write env f) \<and>
    fs' f = (if ok then Some (lines_text ls) else fs f) \<and>
    fs' (backup_name env f) =
      (if f \<noteq> [] \<and> open_read env fs f \<noteq> None \<and> can_write env (backup_name env f)
       then Some (overwrite (the (fs f)) (content fs (backup_name env f))) else fs (backup_name env f)) \<and>
    (\<forall>g. g \<noteq> f \<and> g \<noteq> backup_name env f \<longrightarrow> fs' g = fs g)"
proof (cases "f \<noteq> [] \<and> open_read env fs f \<noteq> None")
  case True
  then obtain t where "open_read env fs f = Some t" "fs f = Some t" "f \<noteq> []"
    by (auto simp: open_read_def split: if_splits)
  with assms show ?thesis
    by (auto simp: writeStringListToFile_def backup_def fileCopy_def split: if_splits)
next
  case False
  with assms show ?thesis
    by (auto simp: writeStringListToFile_def backup_def fileCopy_def split: option.splits)
qed

lemma save_list_outcome_witness:
  "\<exists>fs'. writeStringListToFile sample_os ''/etc/bootstrap.t1'' [''5.6.7.8''] sample_files = (fs', True) \<and>
     fs' ''/etc/bootstrap.t1'' = Some (lines_text [''5.6.7.8''])"
proof -
  obtain fs' where w: "writeStringListToFile sample_os ''/etc/bootstrap.t1'' [''5.6.7.8''] sample_files = (fs', True)"
    using sample_write [of "''/etc/bootstrap.t1''"] by auto
  moreover have "fs' ''/etc/bootstrap.t1'' = Some (lines_text [''5.6.7.8''])"
    using conjunct1 [OF conjunct2 [OF save_list_outcome [OF w]]] by (simp only: if_True)
  ultimately show ?thesis by blast
qed

text \<open>C20: the bootstrap list survives saving and loading: after a successful save the list read back
  is the saved one without blank lines, or the built-in list when nothing is left.\<close>

theorem T1_list_roundtrip:
  assumes saved: "saveBootstrapT1List env ls fs = (fs', True)" and lines: "\<forall>l \<in> set ls. nl \<notin> set l"
    and path: "stamp_ok env" "getenv env ''OPENNIC_T1_BOOTSTRAP'' \<noteq> Some (backup_name env (bootstrapT1Path env fs))"
  shows "getBootstrapT1List env fs' = (if nonblank ls = [] then fallback_T1 else nonblank ls)"
proof -
  note w = write_saved [OF saved [unfolded saveBootstrapT1List_def]]
  have "bootstrapT1Path env fs' = bootstrapT1Path env fs" by (rule T1_path_stable [OF path saved])
  moreover have "open_read env fs' (bootstrapT1Path env fs) = Some (lines_text ls)"
    using w by (auto simp: open_read_def split: if_splits)
  ultimately show ?thesis using line_file.decode_encode [OF lines] by (simp add: getBootstrapT1List_def)
qed

lemma T1_list_roundtrip_witness:
  "\<exists>fs'. saveBootstrapT1List sample_os [''5.6.7.8'', [], '' 9.9.9.9''] sample_files = (fs', True) \<and>
     getBootstrapT1List sample_os fs' = [''5.6.7.8'', ''9.9.9.9'']"
proof -
  obtain fs' where s: "saveBootstrapT1List sample_os [''5.6.7.8'', [], '' 9.9.9.9''] sample_files = (fs', True)"
    using sample_write [of "''/etc/bootstrap.t1''"] by (auto simp: saveBootstrapT1List_def sample_T1_path)
  have "nonblank [''5.6.7.8'', [], '' 9.9.9.9''] = [''5.6.7.8'', ''9.9.9.9'']" by (simp add: trimmed_def is_space_def)
  then show ?thesis using T1_list_roundtrip [OF s] s by (auto simp: nl_def)
qed

lemma domains_path_stable:
  assumes "stamp_ok env"
    "getenv env ''OPENNIC_DOMAINS_BOOTSTRAP'' \<noteq> Some (backup_name env (bootstrapDomainsPath env fs))"
    "saveTestDomains env ls fs = (fs', True)"
  shows "bootstrapDomainsPath env fs' = bootstrapDomainsPath env fs"
proof -
  note w = write_saved [OF assms(3) [unfolded saveTestDomains_def]]
  then have "fs (bootstrapDomainsPath env fs) \<noteq> None" by (auto simp: open_read_def split: if_splits)
  then show ?thesis
    using w assms(1,2) linux_path_stable [of env "''OPENNIC_DOMAINS_BOOTSTRAP''" "bootstrapDomainsPath env fs" fs fs']
    by (cases "platform_of env") (auto simp: bootstrapDomainsPath_def)
qed

text \<open>saved test domains are used only by a service that has not loaded any yet: it gets the
  saved lines parsed, without blank lines and duplicates; one that has keeps the old ones.\<close>

theorem saved_domains:
  assumes saved: "saveTestDomains env ls (files s) = (fs', True)" and lines: "\<forall>l \<in> set ls. nl \<notin> set l"
    and path: "stamp_ok env"
      "getenv env ''OPENNIC_DOMAINS_BOOTSTRAP'' \<noteq> Some (backup_name env (bootstrapDomainsPath env (files s)))"
  shows "snd (getTestDomains env (s\<lparr>files := fs'\<rparr>)) =
    (if mTestDomains s = [] then append_all [] (map fromString (nonblank ls)) else mTestDomains s)"
proof -
  note w = write_saved [OF saved [unfolded saveTestDomains_def]]
  have "bootstrapDomainsPath env fs' = bootstrapDomainsPath env (files s)" by (rule domains_path_stable [OF path saved])
  moreover have "open_read env fs' (bootstrapDomainsPath env (files s)) = Some (lines_text ls)"
    using w by (auto simp: open_read_def split: if_splits)
  ultimately show ?thesis using line_file.decode_encode [OF lines] by (simp add: getTestDomains_def)
qed

lemma saved_domains_witness:
  "\<exists>fs'. saveTestDomains sample_os [''opennic;x.y'', ''opennic;x.y''] sample_files = (fs', True) \<and>
     snd (getTestDomains sample_os (sample_sys\<lparr>files := fs'\<rparr>)) = [fromString ''opennic;x.y'']"
proof -
  obtain fs' where s: "saveTestDomains sample_os [''opennic;x.y'', ''opennic;x.y''] (files sample_sys) = (fs', True)"
    using sample_write [of "''/etc/bootstrap.domains''"] by (auto simp: saveTestDomains_def sample_domains_path)
  have "nonblank [''opennic;x.y'', ''opennic;x.y''] = [''opennic;x.y'', ''opennic;x.y'']"
    by (simp add: trimmed_def is_space_def)
  then have "append_all [] (map fromString (nonblank [''opennic;x.y'', ''opennic;x.y''])) = [fromString ''opennic;x.y'']"
    by (simp add: append_all_def pool_append_def)
  then show ?thesis using saved_domains [OF s] s by (auto simp: nl_def)
qed

text \<open>Drawing a test domain gives a member of the list, or traps in the remainder by zero;
  it traps exactly when the domains file can be opened and has no line that is not blank.\<close>

theorem random_domain:
  "(snd (randomDomain env q s) = None \<longleftrightarrow>
      mTestDomains s = [] \<and>
      (\<exists>t. open_read env (files s) (bootstrapDomainsPath env (files s)) = Some t \<and> nonblank (read_lines t) = [])) \<and>
   (\<forall>d. snd (randomDomain env q s) = Some d \<longrightarrow> d \<in> set (snd (getTestDomains env s)))"
proof (cases "snd (getTestDomains env s) = []")
  case True
  then show ?thesis using randomDomain_traps [OF True, of q] getTestDomains_empty [of env s] by auto
next
  case False
  then show ?thesis using randomDomain_member [OF False, of q] getTestDomains_empty [of env s] by auto
qed

lemma random_domain_witness:
  "snd (randomDomain sample_os 5 (sample_sys\<lparr>files := sample_files(''/etc/bootstrap.domains'' \<mapsto> '' '' @ [nl])\<rparr>)) = None"
proof -
  let ?fs = "sample_files(''/etc/bootstrap.domains'' \<mapsto> '' '' @ [nl])"
  have path: "bootstrapDomainsPath sample_os ?fs = ''/etc/bootstrap.domains''"
    by (simp add: bootstrapDomainsPath_def linux_path_def install_dirs_def fileExists_def sample_files_def resolve_conf_def)
  have "nonblank (read_lines ('' '' @ [nl])) = []"
    by (simp add: nonblank_read_lines trimmed_def is_space_def nl_def)
  then show ?thesis
    using random_domain [of sample_os 5 "sample_sys\<lparr>files := ?fs\<rparr>"] path by (simp add: open_read_def)
qed

text \<open>What the service does with a list of servers: begin, hand over each, commit.\<close>

definition install_servers :: "sys_env \<Rightarrow> host list \<Rightarrow> sys \<Rightarrow> sys" where
  "install_servers env hs s =
     fst (endUpdateResolvers env (hand_over (update_result env) hs (fst (beginUpdateResolvers env s))))"

lemma linux_install:
  "platform_of env = Linux \<Longrightarrow> can_write env resolve_conf \<Longrightarrow> hs \<noteq> [] \<Longrightarrow>
   files (install_servers env hs s) = (files s)(resolve_conf \<mapsto> conf_text hs)"
  unfolding install_servers_def by (rule linux_hand_over_end)

text \<open>C29: on Linux the list of active servers goes through \<open>resolv.conf\<close>: after a commit of
  IPv4 and IPv6 servers, reading the system's own list gives exactly the IPv4 servers handed
  over, in order; the IPv6 servers are in the file, but the reader loses every one of them.\<close>

theorem resolv_conf_roundtrip:
  assumes "platform_of env = Linux" "can_write env resolve_conf" "can_read env resolve_conf"
    "hs \<noteq> []" "\<forall>h \<in> set hs. ip_text h \<or> ip6_text h"
  shows "snd (getSystemResolverList env (install_servers env hs s)) = filter ip_text hs \<and>
    files (install_servers env hs s) resolve_conf = Some (lines_text (map server_entry hs))"
  using linux_install [OF assms(1,2,4)] parse_conf_mixed [OF assms(4,5)] assms(1,3) conf_text_lines [OF assms(4)]
  by (simp add: getSystemResolverList_def linux_getSystemResolverList_def open_read_def)

lemma resolv_conf_roundtrip_witness:
  "snd (getSystemResolverList sample_os
      (install_servers sample_os [''1.2.3.4'', ''2001:db8::1'', ''5.6.7.8''] sample_sys)) = [''1.2.3.4'', ''5.6.7.8'']"
  using resolv_conf_roundtrip [of sample_os "[''1.2.3.4'', ''2001:db8::1'', ''5.6.7.8'']" sample_sys]
  by (simp add: ip_text_def ip6_text_def is_digit_def)

text \<open>C32: what disabling the service leaves in \<open>resolv.conf\<close> on Linux, whatever an earlier run left
  in the backup file: neither the backup nor the file is truncated when it is written, so the
  tail of a longer old backup and the tail of a longer text of the service remain; the original
  comes back exactly when it is at least as long as both.\<close>

theorem linux_restore:
  assumes "platform_of env = Linux" "can_write env resolve_conf" "can_read env resolve_conf"
    "can_write env resolve_conf_backup" "can_read env resolve_conf_backup" "hs \<noteq> []"
    and orig: "files s resolve_conf = Some orig"
  shows "files (fst (shutdown env (install_servers env hs (fst (startup env s))))) resolve_conf =
      Some (overwrite (overwrite orig (content (files s) resolve_conf_backup)) (conf_text hs)) \<and>
    (files (fst (shutdown env (install_servers env hs (fst (startup env s))))) resolve_conf = Some orig \<longleftrightarrow>
      length (content (files s) resolve_conf_backup) \<le> length orig \<and> length (conf_text hs) \<le> length orig)"
proof -
  define old where "old = content (files s) resolve_conf_backup"
  have neq: "resolve_conf \<noteq> resolve_conf_backup" "resolve_conf \<noteq> []" "resolve_conf_backup \<noteq> []"
    by (simp_all add: resolve_conf_def resolve_conf_backup_def)
  define s1 where "s1 = fst (startup env s)"
  have s1: "files s1 = (files s)(resolve_conf_backup \<mapsto> overwrite orig old)"
    using assms neq by (simp add: s1_def startup_def preserveResolverCache_def fileCopy_def open_read_def old_def)
  define s2 where "s2 = install_servers env hs s1"
  have s2: "files s2 = (files s1)(resolve_conf \<mapsto> conf_text hs)"
    unfolding s2_def by (rule linux_install [OF assms(1,2,6)])
  have "files (fst (shutdown env s2)) resolve_conf = Some (overwrite (overwrite orig old) (conf_text hs))"
    using assms neq s1 s2 by (simp add: shutdown_def restoreResolverCache_def fileCopy_def open_read_def content_def)
  moreover have "overwrite (overwrite orig old) c = orig \<longleftrightarrow> length old \<le> length orig \<and> length c \<le> length orig" for c
    by (auto simp: overwrite_def)
  ultimately show ?thesis unfolding s2_def s1_def old_def by simp
qed

lemma linux_restore_witness:
  "files (fst (shutdown sample_os (install_servers sample_os [''1.2.3.4'', ''5.6.7.8''] (fst (startup sample_os sample_sys))))) resolve_conf
     \<noteq> files sample_sys resolve_conf"
proof -
  have "\<not> length (conf_text [''1.2.3.4'', ''5.6.7.8'']) \<le> length (''nameserver 8.8.8.8'' @ [nl])"
    by (simp add: conf_text_def server_entry_def)
  moreover have f: "files sample_sys resolve_conf = Some (''nameserver 8.8.8.8'' @ [nl])"
    by (simp only: sample_os_simps sample_files_simps)
  moreover have "[''1.2.3.4'', ''5.6.7.8''] \<noteq> []" by simp
  note linux_restore [OF sample_os_simps(1) sample_os_simps(3,2,3,2) this f]
  ultimately show ?thesis by metis
qed

text \<open>on Windows the servers become one \<open>netsh\<close> command each, in order: the first replaces the
  interface's list, the others are added at indices 2, 3 and so on.\<close>

theorem windows_commands:
  assumes "platform_of env = Windows" "mInterfaceName s = iface" "iface \<noteq> []"
  shows "commands (install_servers env hs s) =
    commands s @ map (\<lambda>k. win_command iface (1 + int k) (hs ! k)) [0..<length hs]"
proof -
  define s1 where "s1 = fst (beginUpdateResolvers env s)"
  have s1: "mInterfaceName s1 = iface" "mResolverIndex s1 = 0" "commands s1 = commands s"
    using assms(1,2) by (simp_all add: s1_def beginUpdateResolvers_def win_beginUpdateResolvers_def)
  have "commands (install_servers env hs s) = commands (hand_over (update_result env) hs s1)"
    using assms(1) by (simp add: install_servers_def s1_def endUpdateResolvers_def win_endUpdateResolvers_def)
  with win_hand_over [OF assms(1) s1(1) assms(3), of hs] s1 show ?thesis by simp
qed

lemma windows_commands_witness:
  "commands (install_servers (sample_os\<lparr>platform_of := Windows\<rparr>) [''1.2.3.4'', ''5.6.7.8''] sample_sys) =
     [[''netsh'', ''interface'', ''ip'', ''set'', ''dns'', ''eth1'', ''static'', ''1.2.3.4''],
      [''netsh'', ''interface'', ''ip'', ''add'', ''dns'', ''eth1'', ''5.6.7.8'', ''index='' @ number 2]]"
  using windows_commands [of "sample_os\<lparr>platform_of := Windows\<rparr>" sample_sys "''eth1''" "[''1.2.3.4'', ''5.6.7.8'']"]
  by (simp add: sample_sys_def win_command_def upt_rec)

text \<open>Both platforms keep the contract the service relies on: a new list starts empty and every
  server handed over is counted once.\<close>

theorem servers_counted:
  "servers_handed env (hand_over (update_result env) hs (fst (beginUpdateResolvers env s))) = int (length hs)"
  by (rule os_servers.handed_from_start)

text \<open>Enabling or disabling acts only on a change: repeating the request does nothing, so the
  configuration is preserved once and restored once.\<close>

theorem set_enabled_once:
  "sys_enabled (fst (setEnabled env b s)) = b \<and>
   setEnabled env b (fst (setEnabled env b s)) = (fst (setEnabled env b s), [])"
proof -
  obtain s1 msgs where e: "setEnabled env b s = (s1, msgs)" by (cases "setEnabled env b s") auto
  from setEnabled_frame [OF e] e show ?thesis by (simp add: setEnabled_def)
qed

end
