(* ===== verification/Net.thy ===== *)
theory Net
  imports Prelude
begin

text \<open>
  \<open>common/opennicpacket.cpp\<close> and \<open>common/opennicnet.cpp\<close>: a packet is a map from
  keys to values, framed on the socket by its length, and a net is one end of a connection.
  The bytes a map is streamed as belong to QDataStream: \<open>put_map\<close> and \<open>get_map\<close> are
  arguments, and what the code relies on is \<open>stream_ok\<close>.
\<close>

section \<open>OpenNICPacket\<close>

type_synonym data_map = "(string \<times> variant) list"

record packet =
  mData :: data_map
  mRXData :: "byte list"
  mRXState :: int
  mRXLength :: "32 word"

definition new_packet :: packet where
  "new_packet = \<lparr>mData = [], mRXData = [], mRXState = 0, mRXLength = 0\<rparr>"

definition packet_keys :: "string list" where
  "packet_keys =
     [''tcp_listen_port'', ''refresh_timer_period'', ''resolver_cache_size'', ''resolver_pool'',
      ''resolver_cache'', ''resolver_history'', ''bootstrap_t1_list'', ''bootstrap_domains'',
      ''system_text'', ''journal_text'', ''async_message'', ''score_rules'', ''score_internal'',
      ''update_dns'', ''poll_keys'', ''interface_list'', ''interface'', ''opennic_enabled'']"

definition packet_contains :: "string \<Rightarrow> packet \<Rightarrow> bool" where
  "packet_contains key p = (qlookup (mData p) key \<noteq> None)"

definition packet_set :: "string \<Rightarrow> variant \<Rightarrow> packet \<Rightarrow> packet" where
  "packet_set key value p = p\<lparr>mData := qinsert key value (mData p)\<rparr>"

definition packet_get :: "string \<Rightarrow> packet \<Rightarrow> variant" where
  "packet_get key p = (if packet_contains key p then the (qlookup (mData p) key) else VInvalid)"

definition packet_clear :: "packet \<Rightarrow> packet" where
  "packet_clear p = p\<lparr>mData := [], mRXState := 0, mRXLength := 0\<rparr>"

subsection \<open>Framing\<close>

definition be32 :: "nat \<Rightarrow> byte list" where
  "be32 n = [of_nat (n div 2 ^ 24), of_nat (n div 2 ^ 16), of_nat (n div 2 ^ 8), of_nat n]"

text \<open>
  \<open>stream >> quint32\<close>: four bytes, most significant first. When fewer are there they are
  consumed and the value is 0.
\<close>

fun take_u32 :: "byte list \<Rightarrow> 32 word \<times> byte list" where
  "take_u32 (a # b # c # d # rest) =
     (word_of_nat (((unat a * 256 + unat b) * 256 + unat c) * 256 + unat d), rest)"
| "take_u32 _ = (0, [])"

text \<open>
  \<open>recv\<close> on the bytes available: the packet, the bytes left in the socket, and whether
  \<open>dataReady\<close> is emitted. State 0 reads the length and falls through to state 1.
\<close>

definition recv_body ::
  "(byte list \<Rightarrow> data_map) \<Rightarrow> byte list \<Rightarrow> packet \<Rightarrow> packet \<times> byte list \<times> bool" where
  "recv_body get_map avail p =
     (let p1 = p\<lparr>mRXData := mRXData p @ avail\<rparr>
      in if int (length (mRXData p1)) < sint (mRXLength p1) then (p1, [], False)
         else (p1\<lparr>mRXState := 0, mData := get_map (mRXData p1)\<rparr>, [], True))"

definition recv ::
  "(byte list \<Rightarrow> data_map) \<Rightarrow> byte list \<Rightarrow> packet \<Rightarrow> packet \<times> byte list \<times> bool" where
  "recv get_map avail p =
     (if mRXState p = 0 then
        (let (n, rest) = take_u32 avail; p1 = p\<lparr>mRXData := [], mRXLength := n\<rparr>
         in if n = 0xFFFFFFFF then (p1, rest, False)
            else recv_body get_map rest (p1\<lparr>mRXState := 1\<rparr>))
      else if mRXState p = 1 then recv_body get_map avail p
      else (p\<lparr>mData := get_map (mRXData p)\<rparr>, avail, True))"

definition frame :: "(data_map \<Rightarrow> byte list) \<Rightarrow> data_map \<Rightarrow> byte list" where
  \<comment> \<open>a QByteArray streamed: its length and its bytes\<close>
  "frame put_map m = be32 (length (put_map m)) @ put_map m"

section \<open>OpenNICNet\<close>

record net =
  mTXPacket :: packet
  mRXPacket :: packet
  sock_connected :: bool
  sock_valid :: bool  \<comment> \<open>\<open>isOpen() && isValid()\<close>\<close>
  sock_in :: "byte list"
  sock_out :: "byte list"

definition new_net :: "bool \<Rightarrow> net" where
  "new_net up = \<lparr>mTXPacket = new_packet, mRXPacket = new_packet, sock_connected = up,
     sock_valid = up, sock_in = [], sock_out = []\<rparr>"

definition isLive :: "net \<Rightarrow> bool" where
  "isLive n = sock_connected n"

definition net_clear :: "net \<Rightarrow> net" where
  "net_clear n = n\<lparr>mTXPacket := packet_clear (mTXPacket n), mRXPacket := packet_clear (mRXPacket n)\<rparr>"

definition packet_send :: "(data_map \<Rightarrow> byte list) \<Rightarrow> packet \<Rightarrow> net \<Rightarrow> net" where
  "packet_send put_map p n =
     (if sock_valid n then n\<lparr>sock_out := sock_out n @ frame put_map (mData p)\<rparr> else n)"

definition net_send :: "(data_map \<Rightarrow> byte list) \<Rightarrow> bool \<Rightarrow> net \<Rightarrow> net" where
  "net_send put_map clear n =
     (let n1 = (if isLive n then packet_send put_map (mTXPacket n) n else n)
      in if clear then net_clear n1 else n1)"

definition tx_set :: "string \<Rightarrow> variant \<Rightarrow> net \<Rightarrow> net" where
  \<comment> \<open>\<open>net->txPacket().set(key, value)\<close>\<close>
  "tx_set key value n = n\<lparr>mTXPacket := packet_set key value (mTXPacket n)\<rparr>"

text \<open>
  The slot of the \<open>pollKeyValue\<close> signal is \<open>poll\<close>: it may change the state and gives a
  value when it sets \<open>valid\<close>. The slot of \<open>dataReady(net)\<close> is \<open>ready\<close>.
\<close>

fun poll_values ::
  "(string \<Rightarrow> 's \<Rightarrow> 's \<times> variant option) \<Rightarrow> string list \<Rightarrow> 's \<times> net \<Rightarrow> 's \<times> net" where
  "poll_values poll [] (s, n) = (s, n)"
| "poll_values poll (key # keys) (s, n) =
     (let (s1, v) = poll key s
      in poll_values poll keys (s1, case v of Some value \<Rightarrow> tx_set key value n | None \<Rightarrow> n))"

fun poll_entries ::
  "(string \<Rightarrow> 's \<Rightarrow> 's \<times> variant option) \<Rightarrow> data_map \<Rightarrow> 's \<times> net \<Rightarrow> 's \<times> net" where
  "poll_entries poll [] sn = sn"
| "poll_entries poll ((key, value) # rest) sn =
     poll_entries poll rest (if key = ''poll_keys'' then poll_values poll (to_strs value) sn else sn)"

definition net_dataReady ::
  "(data_map \<Rightarrow> byte list) \<Rightarrow> (string \<Rightarrow> 's \<Rightarrow> 's \<times> variant option) \<Rightarrow>
   ('s \<times> net \<Rightarrow> 's \<times> net) \<Rightarrow> 's \<times> net \<Rightarrow> 's \<times> net" where
  "net_dataReady put_map poll ready sn =
     (let entries = mData (mRXPacket (snd sn));
          (s1, n1) = poll_entries poll entries sn;
          tx = (\<exists>e \<in> set entries. fst e = ''poll_keys'');
          rx = (\<exists>e \<in> set entries. fst e \<noteq> ''poll_keys'');
          n2 = (if tx then net_send put_map True n1 else n1)
      in if rx then ready (s1, n2) else (s1, n2))"

definition readyRead ::
  "(data_map \<Rightarrow> byte list) \<Rightarrow> (byte list \<Rightarrow> data_map) \<Rightarrow> (string \<Rightarrow> 's \<Rightarrow> 's \<times> variant option) \<Rightarrow>
   ('s \<times> net \<Rightarrow> 's \<times> net) \<Rightarrow> 's \<times> net \<Rightarrow> 's \<times> net" where
  "readyRead put_map get_map poll ready sn =
     (let (p, rest, emitted) = recv get_map (sock_in (snd sn)) (mRXPacket (snd sn));
          n1 = (snd sn)\<lparr>mRXPacket := p, sock_in := rest\<rparr>
      in if emitted then net_dataReady put_map poll ready (fst sn, n1) else (fst sn, n1))"

text \<open>
  The socket delivers a stream in chunks and raises \<open>readyRead\<close> for each. The maps that
  \<open>recv\<close> announces, in order, with the packet and the bytes not read.
\<close>

fun receive ::
  "(byte list \<Rightarrow> data_map) \<Rightarrow> byte list list \<Rightarrow> packet \<times> byte list \<Rightarrow> data_map list \<times> packet \<times> byte list" where
  "receive get_map [] (p, buf) = ([], p, buf)"
| "receive get_map (chunk # chunks) (p, buf) =
     (let (p1, buf1, emitted) = recv get_map (buf @ chunk) p;
          (ms, last_state) = receive get_map chunks (p1, buf1)
      in (if emitted then mData p1 # ms else ms, last_state))"

section \<open>What the stream format promises\<close>

definition stream_ok :: "(data_map \<Rightarrow> byte list) \<Rightarrow> (byte list \<Rightarrow> data_map) \<Rightarrow> data_map \<Rightarrow> bool" where
  \<comment> \<open>a map that was streamed is read back, whatever follows it in the buffer\<close>
  "stream_ok put_map get_map m =
     (length (put_map m) < 2 ^ 31 \<and> (\<forall>rest. get_map (put_map m @ rest) = m))"

lemma stream_okD:
  assumes "stream_ok put_map get_map m"
  shows "length (put_map m) < 2 ^ 31" "get_map (put_map m @ rest) = m" "get_map (put_map m) = m"
  using assms unfolding stream_ok_def by (metis append.right_neutral)+

lemma be32_value:
  "n < 2 ^ 32 \<Longrightarrow> ((n div 2 ^ 24 mod 256 * 256 + n div 2 ^ 16 mod 256) * 256 + n div 2 ^ 8 mod 256) * 256
     + n mod 256 = (n :: nat)"
proof -
  assume "n < 2 ^ 32"
  then have "n div 2 ^ 24 < 256" by (simp add: less_mult_imp_div_less)
  moreover have "n div 2 ^ 8 div 256 = n div 2 ^ 16" "n div 2 ^ 16 div 256 = n div 2 ^ 24"
    by (simp_all add: div_mult2_eq [symmetric])
  moreover have "n = n div 2 ^ 8 * 256 + n mod 256" by simp
  moreover have "n div 2 ^ 8 = n div 2 ^ 16 * 256 + n div 2 ^ 8 mod 256"
    using calculation(2) by (metis div_mult_mod_eq)
  moreover have "n div 2 ^ 16 = n div 2 ^ 24 * 256 + n div 2 ^ 16 mod 256"
    using calculation(3) by (metis div_mult_mod_eq)
  ultimately show ?thesis by simp
qed

lemma take_u32_be32: "n < 2 ^ 32 \<Longrightarrow> take_u32 (be32 n @ rest) = (word_of_nat n, rest)"
  using be32_value [of n] by (simp add: be32_def unat_word_ariths unsigned_of_nat take_bit_eq_mod)

lemma length_be32 [simp]: "length (be32 n) = 4"
  by (simp add: be32_def)

lemma length_word:
  assumes "n < 2 ^ 31"
  shows "sint (word_of_nat n :: 32 word) = int n" "(word_of_nat n :: 32 word) \<noteq> 0xFFFFFFFF"
proof -
  show s: "sint (word_of_nat n :: 32 word) = int n"
    using assms by (simp add: signed_of_nat signed_take_bit_eq_if_positive bit_iff_odd take_bit_eq_mod)
  have "sint (0xFFFFFFFF :: 32 word) = - 1" by simp
  then show "(word_of_nat n :: 32 word) \<noteq> 0xFFFFFFFF" using s by (metis of_nat_0_le_iff neg_0_le_iff_le not_one_le_zero)
qed

section \<open>Receiving a frame\<close>

lemma recv_body_waits:
  "int (length (mRXData p @ avail)) < sint (mRXLength p) \<Longrightarrow>
   recv_body get_map avail p = (p\<lparr>mRXData := mRXData p @ avail\<rparr>, [], False)"
  by (simp add: recv_body_def)

lemma recv_body_done:
  "\<not> int (length (mRXData p @ avail)) < sint (mRXLength p) \<Longrightarrow>
   recv_body get_map avail p =
     (p\<lparr>mRXData := mRXData p @ avail, mRXState := 0, mData := get_map (mRXData p @ avail)\<rparr>, [], True)"
  by (simp add: recv_body_def)

text \<open>Waiting for the rest of a body.\<close>

lemma receive_rest:
  assumes "mRXState p = 1" "sint (mRXLength p) = int (length body)" "stream_ok put_map get_map m"
    "body = put_map m" "mRXData p @ concat chunks = body" "length (mRXData p) < length body"
    "\<forall>c \<in> set chunks. c \<noteq> []"
  shows "\<exists>p'. receive get_map chunks (p, []) = ([m], p', []) \<and> mRXState p' = 0 \<and> mData p' = m"
  using assms(1,2,5-7)
proof (induction chunks arbitrary: p)
  case (Cons c chunks)
  show ?case
  proof (cases "concat chunks = []")
    case True
    then have "chunks = []" using Cons.prems(5) by (cases chunks) auto
    then show ?thesis using Cons.prems stream_okD(3) [OF assms(3)] assms(4)
      by (simp add: recv_def recv_body_done)
  next
    case False
    let ?p = "p\<lparr>mRXData := mRXData p @ c\<rparr>"
    have "length (mRXData p @ c) < length body"
      using Cons.prems(3) False by (metis append_assoc concat.simps(2) length_append length_greater_0_conv less_add_same_cancel1)
    then have "recv get_map c p = (?p, [], False)" "length (mRXData ?p) < length body"
      using Cons.prems(1,2) by (simp_all add: recv_def recv_body_waits)
    with Cons.IH [of ?p] Cons.prems show ?thesis by simp
  qed
qed simp

lemma receive_header:
  assumes "mRXState p = 0" "stream_ok put_map get_map m" "chunks \<noteq> []" "\<forall>c \<in> set chunks. c \<noteq> []"
    "4 \<le> length (hd chunks)" "concat chunks = frame put_map m"
  shows "\<exists>p'. receive get_map chunks (p, []) = ([m], p', []) \<and> mRXState p' = 0 \<and> mData p' = m"
proof -
  define body where "body = put_map m"
  obtain c cs where chunks: "chunks = c # cs" using assms(3) by (cases chunks) auto
  have len: "length body < 2 ^ 31" using stream_okD(1) [OF assms(2)] by (simp add: body_def)
  have whole: "c @ concat cs = be32 (length body) @ body"
    using assms(6) by (simp add: chunks frame_def body_def)
  define rest where "rest = drop 4 c"
  have four: "4 \<le> length c" using assms(5) by (simp add: chunks)
  have "take 4 (c @ concat cs) = be32 (length body)" using whole by simp
  then have "take 4 c = be32 (length body)" using four by simp
  then have c: "c = be32 (length body) @ rest" unfolding rest_def by (metis append_take_drop_id)
  then have body: "rest @ concat cs = body" using whole by simp
  let ?p = "p\<lparr>mRXData := [], mRXLength := word_of_nat (length body), mRXState := 1\<rparr>"
  have n: "sint (mRXLength ?p) = int (length body)" using length_word(1) [OF len] by simp
  have step: "recv get_map c p = recv_body get_map rest ?p"
    using assms(1) length_word(2) [OF len] take_u32_be32 [of "length body" rest] len
    by (simp add: recv_def c)
  show ?thesis
  proof (cases "cs = []")
    case True
    then have "rest = body" using body by simp
    then show ?thesis using step n stream_okD(3) [OF assms(2)] True
      by (simp add: chunks recv_body_done body_def)
  next
    case False
    then have "concat cs \<noteq> []" using assms(4) by (auto simp: chunks)
    then have "length rest < length body" using body by auto
    moreover from this have "recv_body get_map rest ?p = (?p\<lparr>mRXData := rest\<rparr>, [], False)"
      using n by (simp add: recv_body_waits)
    ultimately show ?thesis
      using receive_rest [of "?p\<lparr>mRXData := rest\<rparr>" body put_map get_map m cs] n body assms(2,4) step
      by (simp add: chunks body_def)
  qed
qed

text \<open>Whatever follows a frame in the same chunk is swallowed with it.\<close>

lemma recv_coalesced:
  assumes "mRXState p = 0" "stream_ok put_map get_map m"
  shows "\<exists>p'. recv get_map (frame put_map m @ others) p = (p', [], True) \<and> mData p' = m \<and> mRXState p' = 0"
  using assms take_u32_be32 [of "length (put_map m)" "put_map m @ others"] length_word [of "length (put_map m)"]
    stream_okD [OF assms(2)]
  by (simp add: recv_def frame_def recv_body_done)

section \<open>Polling\<close>

lemma tx_set_data [simp]: "mData (mTXPacket (tx_set k v n)) = qinsert k v (mData (mTXPacket n))"
  by (simp add: tx_set_def packet_set_def)

lemma tx_set_frame [simp]:
  "mRXPacket (tx_set k v n) = mRXPacket n" "sock_connected (tx_set k v n) = sock_connected n"
  "sock_valid (tx_set k v n) = sock_valid n" "sock_in (tx_set k v n) = sock_in n"
  "sock_out (tx_set k v n) = sock_out n"
  by (simp_all add: tx_set_def)

lemma net_send_clears:
  "mData (mRXPacket (net_send put_map True n)) = []" "mData (mTXPacket (net_send put_map True n)) = []"
  "mRXState (mRXPacket (net_send put_map True n)) = 0"
  "isLive (net_send put_map True n) = isLive n"
  by (simp_all add: net_send_def Let_def net_clear_def packet_clear_def isLive_def packet_send_def)

lemma net_send_out:
  "isLive n \<Longrightarrow> sock_valid n \<Longrightarrow>
   sock_out (net_send put_map clear n) = sock_out n @ frame put_map (mData (mTXPacket n))"
  by (simp add: net_send_def net_clear_def packet_send_def Let_def)

lemma poll_values_frame:
  "poll_values poll keys (s, n) = (s1, n1) \<Longrightarrow>
   mRXPacket n1 = mRXPacket n \<and> sock_connected n1 = sock_connected n \<and> sock_valid n1 = sock_valid n \<and>
   sock_in n1 = sock_in n \<and> sock_out n1 = sock_out n"
proof (induction keys arbitrary: s n)
  case (Cons k ks)
  then obtain s' v where "poll k s = (s', v)" by (cases "poll k s") auto
  with Cons show ?case by (fastforce split: option.splits)
qed simp

text \<open>The reply to a poll whose answers do not depend on the order of the keys.\<close>

lemma poll_values_data:
  assumes "\<And>k s. snd (poll k s) = val k"
  shows "poll_values poll keys (s, n) = (s1, n1) \<Longrightarrow>
    qlookup (mData (mTXPacket n1)) k =
      (if k \<in> set keys \<and> val k \<noteq> None then val k else qlookup (mData (mTXPacket n)) k)"
proof (induction keys arbitrary: s n)
  case (Cons x ks)
  obtain s' v where p: "poll x s = (s', v)" by (cases "poll x s") auto
  then have "v = val x" using assms [of x s] by simp
  with Cons p show ?case by (auto split: option.splits)
qed simp

section \<open>Properties\<close>

text \<open>A stream format for the witnesses: it knows the empty map and one with a single entry.\<close>

definition sample_map :: data_map where
  "sample_map = [(''update_dns'', VStr [])]"

definition sample_put :: "data_map \<Rightarrow> byte list" where
  "sample_put m = (if m = [] then [0, 0, 0, 0] else [0, 0, 0, 1, 7])"

definition sample_get :: "byte list \<Rightarrow> data_map" where
  "sample_get bs = (if take 4 bs = [0, 0, 0, 1] then sample_map else [])"

lemma sample_stream_ok: "stream_ok sample_put sample_get sample_map" "stream_ok sample_put sample_get []"
  by (simp_all add: stream_ok_def sample_put_def sample_get_def sample_map_def)

lemma sample_frame: "frame sample_put sample_map = [0, 0, 0, 5, 0, 0, 0, 1, 7]"
  by (simp add: frame_def sample_put_def sample_map_def be32_def)

text \<open>C12: a packet survives the socket: however the bytes of a frame are cut into chunks, as long as
  the first holds its four length bytes, the receiver announces exactly the map that was sent,
  once, and is ready for the next frame.\<close>

theorem frame_in_chunks:
  assumes "mRXState p = 0" "stream_ok put_map get_map m" "chunks \<noteq> []" "\<forall>c \<in> set chunks. c \<noteq> []"
    "4 \<le> length (hd chunks)" "concat chunks = frame put_map m"
  shows "fst (receive get_map chunks (p, [])) = [m] \<and>
    mRXState (fst (snd (receive get_map chunks (p, [])))) = 0"
  using receive_header [OF assms] by auto

lemma frame_in_chunks_witness:
  "fst (receive sample_get [[0, 0, 0, 5, 0, 0], [0], [1, 7]] (new_packet, [])) = [sample_map]"
  using frame_in_chunks [of new_packet sample_put sample_get sample_map "[[0, 0, 0, 5, 0, 0], [0], [1, 7]]"]
    sample_stream_ok
  by (simp add: sample_frame new_packet_def)

text \<open>frames that arrive together are lost but for the first: \<open>recv\<close> reads all there is into
  the first packet, so the next frame is never announced.\<close>

theorem coalesced_frame_lost:
  assumes "mRXState p = 0" "stream_ok put_map get_map m"
  shows "fst (receive get_map [frame put_map m @ frame put_map m'] (p, [])) = [m] \<and>
    snd (snd (receive get_map [frame put_map m @ frame put_map m'] (p, []))) = []"
  using recv_coalesced [OF assms, of "frame put_map m'"] by auto

lemma coalesced_frame_lost_witness:
  "fst (receive sample_get [frame sample_put sample_map @ frame sample_put []] (new_packet, [])) = [sample_map]"
  using coalesced_frame_lost [of new_packet sample_put sample_get sample_map "[]"] sample_stream_ok
  by (simp add: new_packet_def)

text \<open>A length header that arrives in two pieces is misread: the bytes there are consumed, the
  length counts as 0 and a packet with the map of no bytes is announced at once.\<close>

theorem split_header_misread:
  assumes "mRXState p = 0" "length avail < 4"
  shows "recv get_map avail p =
    (p\<lparr>mRXData := [], mRXLength := 0, mRXState := 0, mData := get_map []\<rparr>, [], True)"
proof -
  have "take_u32 avail = (0, [])"
    using assms(2) by (cases avail rule: take_u32.cases) auto
  then show ?thesis using assms(1) by (simp add: recv_def recv_body_def)
qed

lemma split_header_misread_witness:
  "snd (snd (recv sample_get [0, 0] new_packet)) \<and> mData (fst (recv sample_get [0, 0] new_packet)) = sample_get []"
  using split_header_misread [of new_packet "[0, 0]" sample_get] by (simp add: new_packet_def)

text \<open>a packet that asks for values and carries settings as well loses its settings: sending the
  reply clears the received packet before the receiver is told of it.\<close>

theorem mixed_packet_lost:
  assumes "\<exists>e \<in> set (mData (mRXPacket n)). fst e = ''poll_keys''"
    "\<exists>e \<in> set (mData (mRXPacket n)). fst e \<noteq> ''poll_keys''"
  shows "\<exists>s1 n1. net_dataReady put_map poll ready (s, n) = ready (s1, n1) \<and> mData (mRXPacket n1) = []"
proof -
  obtain s1 n1 where "poll_entries poll (mData (mRXPacket n)) (s, n) = (s1, n1)"
    by (cases "poll_entries poll (mData (mRXPacket n)) (s, n)") auto
  then show ?thesis
    using assms net_send_clears(1) [of put_map n1]
    by (intro exI [of _ s1] exI [of _ "net_send put_map True n1"]) (simp add: net_dataReady_def)
qed

lemma mixed_packet_lost_witness:
  "\<exists>s1 n1. net_dataReady sample_put (\<lambda>k s. (s, None)) (\<lambda>sn. sn)
     (0 :: nat, (new_net True)\<lparr>mRXPacket := new_packet\<lparr>mData := [(''poll_keys'', VList []), (''score_internal'', VBool True)]\<rparr>\<rparr>)
     = (s1, n1) \<and> mData (mRXPacket n1) = []"
  using mixed_packet_lost [of "(new_net True)\<lparr>mRXPacket := new_packet\<lparr>mData := [(''poll_keys'', VList []), (''score_internal'', VBool True)]\<rparr>\<rparr>"
      sample_put "\<lambda>k s. (s, None)" "\<lambda>sn. sn" "0 :: nat"]
  by simp

section \<open>Polling with a state the polls do not change\<close>

lemma poll_values_still:
  assumes "\<And>k. k \<in> set keys \<Longrightarrow> poll k s = (s, val k)"
  shows "poll_values poll keys (s, n) = (s1, n1) \<Longrightarrow> s1 = s \<and>
    (\<forall>k. qlookup (mData (mTXPacket n1)) k =
      (if k \<in> set keys \<and> val k \<noteq> None then val k else qlookup (mData (mTXPacket n)) k))"
  using assms
proof (induction keys arbitrary: n)
  case (Cons x ks)
  have "poll x s = (s, val x)" using Cons.prems(2) by simp
  with Cons show ?case by (auto split: option.splits if_splits)
qed simp

text \<open>The reply to a poll, on the wire.\<close>

lemma poll_reply:
  assumes "\<And>k. k \<in> set keys \<Longrightarrow> poll k s = (s, val k)" "mData (mRXPacket n) = [(''poll_keys'', VList keys)]"
    "isLive n" "sock_valid n" "mData (mTXPacket n) = []"
  shows "\<exists>reply n1. net_dataReady put_map poll ready (s, n) = (s, n1) \<and> sock_out n1 = sock_out n @ frame put_map reply \<and>
    (\<forall>k. qlookup reply k = (if k \<in> set keys then val k else None)) \<and>
    mData (mRXPacket n1) = [] \<and> mData (mTXPacket n1) = [] \<and> isLive n1 \<and> mRXState (mRXPacket n1) = 0"
proof -
  obtain s2 n2 where p: "poll_values poll keys (s, n) = (s2, n2)" by (cases "poll_values poll keys (s, n)") auto
  note v = poll_values_still [OF assms(1) p]
  note f = poll_values_frame [OF p]
  have live: "isLive n2" "sock_valid n2" using f assms(3,4) by (simp_all add: isLive_def)
  have "net_dataReady put_map poll ready (s, n) = (s, net_send put_map True n2)"
    using p v assms(2) by (simp add: net_dataReady_def)
  moreover have "\<forall>k. qlookup (mData (mTXPacket n2)) k = (if k \<in> set keys then val k else None)"
    using v assms(5) by auto
  ultimately show ?thesis
    using net_send_out [OF live, of put_map True] f net_send_clears [of put_map n2] live by auto
qed

end
