(* ===== verification/ServerCore.thy ===== *)
theory ServerCore
  imports ResolverPool OsSystem Net
begin

text \<open>
  \<open>server/opennicserver.cpp\<close>, first part: the state of the service, its log and settings,
  and the choice of the active resolvers (\<open>bootstrapResolvers\<close>, \<open>updateDNS\<close>). None is the
  result of a call that has undefined behaviour or does not return.
\<close>

section \<open>State\<close>

datatype settings_status = NoError | AccessError | FormatError | OtherError

datatype event =
    Timer int                  \<comment> \<open>a timer of the server fires\<close>
  | Connection "net list"      \<comment> \<open>clients are waiting in the listening socket\<close>
  | Readable nat "byte list"   \<comment> \<open>bytes arrive at the session with this index\<close>
  | ResolverTimer nat int launch nat
      \<comment> \<open>a timer of the resolver object at this address fires; the draw that picks a domain\<close>
  | QueryReadable nat nat time "byte list list"
      \<comment> \<open>datagrams arrive for a query, by its place in the resolver's history\<close>
  | QueryTimer nat nat time int   \<comment> \<open>a timer of a query fires\<close>

record server =
  srv_heap :: heap
  mResolverPool :: pool
  mResolverCache :: pool
  mSystem :: "sys option"
  mRefreshTimerPeriod :: int
  mResolverCacheSize :: int
  mEnabled :: bool
  mNetworkInterface :: string
  mRefreshTimer :: int
  mFastTimer :: int
  mSecondTimer :: int
  mBootstrapTimer :: int
  mBootstrapTicks :: int
  mSeconds :: nat
  mResolversInitialized :: bool
  mTcpListenPort :: int
  mUpdatingDNS :: bool
  mInColdBoot :: bool
  mAsyncMessage :: string
  mSessions :: "net list"
  mListening :: bool
  mLog :: "string list"
  mScoreRules :: string
  mScoreInternal :: bool
  settings :: "string \<Rightarrow> variant option"  \<comment> \<open>the contents of the settings file\<close>
  timers :: "(int \<times> int) list"           \<comment> \<open>the running timers and their intervals\<close>
  next_timer :: int
  draws_used :: nat
  inbox :: "event list"                   \<comment> \<open>what the event loop will deliver, in order\<close>
  GlobalShutdown :: bool

record server_env =
  os :: sys_env
  launches :: "nat \<Rightarrow> launch"
  picks :: "nat \<Rightarrow> nat"
  draws :: "nat \<Rightarrow> nat"
  score_rounding :: "rat \<Rightarrow> rat"
  score_evaluate :: "string \<Rightarrow> script_globals \<Rightarrow> double"
  fmt_double :: "double \<Rightarrow> string"
  fmt_time :: "time option \<Rightarrow> string"
  version :: string
  settings_file :: string
  save_status :: settings_status
  can_listen :: bool
  put_map :: "data_map \<Rightarrow> byte list"
  get_map :: "byte list \<Rightarrow> data_map"

section \<open>The log\<close>

definition max_log_lines :: nat where
  "max_log_lines = 100"

function trim_log :: "string list \<Rightarrow> string list" where
  "trim_log xs = (if length xs > max_log_lines then trim_log (take_at 0 xs) else xs)"
  by pat_completeness auto
termination by (relation "measure length") (auto simp: max_log_lines_def take_at_def)

declare trim_log.simps [simp del]

definition log_msg :: "server_env \<Rightarrow> string \<Rightarrow> server \<Rightarrow> server" where
  "log_msg env msg s = s\<lparr>mLog := trim_log (mLog s @ [stamp (os env) @ ''|'' @ msg])\<rparr>"

fun log_all :: "server_env \<Rightarrow> string list \<Rightarrow> server \<Rightarrow> server" where
  "log_all env [] s = s"
| "log_all env (msg # msgs) s = log_all env msgs (log_msg env msg s)"

definition pruneLog :: "server \<Rightarrow> server" where
  "pruneLog s = s\<lparr>mLog := trim_log (mLog s)\<rparr>"

definition logPurge :: "server \<Rightarrow> server" where
  "logPurge s = s\<lparr>mLog := []\<rparr>"

definition logResolverPool :: "server_env \<Rightarrow> string \<Rightarrow> pool \<Rightarrow> server \<Rightarrow> server" where
  "logResolverPool env msg pool s =
     log_all env (pool_toStrings (fmt_double env) (srv_heap s) pool) (log_msg env msg s)"

section \<open>Timers\<close>

definition start_timer_msecs :: "int \<Rightarrow> server \<Rightarrow> server \<times> int" where
  "start_timer_msecs ms s =
     (s\<lparr>timers := timers s @ [(next_timer s, ms)], next_timer := next_timer s + 1\<rparr>, next_timer s)"

definition kill_timer :: "int \<Rightarrow> server \<Rightarrow> server" where
  "kill_timer i s = s\<lparr>timers := filter (\<lambda>t. fst t \<noteq> i) (timers s)\<rparr>"

definition stop_refresh :: "server \<Rightarrow> server" where
  "stop_refresh s =
     (if mRefreshTimer s \<ge> 0 then (kill_timer (mRefreshTimer s) s)\<lparr>mRefreshTimer := - 1\<rparr> else s)"

definition start_refresh :: "server \<Rightarrow> server" where
  "start_refresh s =
     (let (s1, t) = start_timer_msecs (mRefreshTimerPeriod s * 60 * 1000) s in s1\<lparr>mRefreshTimer := t\<rparr>)"

text \<open>\<open>setRefreshPeriod\<close>. None: the interval in milliseconds overflows an int.\<close>

definition setRefreshPeriod :: "server_env \<Rightarrow> int \<Rightarrow> server \<Rightarrow> server option" where
  "setRefreshPeriod env period s =
     (if mRefreshTimerPeriod s \<noteq> period \<and> period \<ge> 0 then
        (let s1 = log_msg env (''** DNS REFRESH IN '' @ number period @ '' MINUTES **'')
                    (stop_refresh (s\<lparr>mRefreshTimerPeriod := period\<rparr>))
         in if int_ok (period * 60 * 1000) then Some (start_refresh s1) else None)
      else Some s)"

section \<open>Calls into the operating system\<close>

definition with_system :: "(sys \<Rightarrow> sys \<times> 'a) \<Rightarrow> server \<Rightarrow> (server \<times> 'a) option" where
  \<comment> \<open>None: the pointer to the system is null\<close>
  "with_system f s =
     (case mSystem s of None \<Rightarrow> None
      | Some y \<Rightarrow> (let (y1, r) = f y in Some (s\<lparr>mSystem := Some y1\<rparr>, r)))"

section \<open>Replacing the active resolvers\<close>

fun apply_loop :: "server_env \<Rightarrow> pool \<Rightarrow> server \<Rightarrow> server option" where
  "apply_loop env [] s = Some s"
| "apply_loop env (resolver # rest) s =
     (case with_system (updateResolver (os env) (host_of (srv_heap s) resolver)) s of
        None \<Rightarrow> None
      | Some (s1, applied, msgs) \<Rightarrow>
          (let s2 = log_all env msgs s1;
               s3 = (if applied then
                       (let s2' = log_msg env ('' > '' @ resolver_toString (fmt_double env) (objs (srv_heap s2) resolver)) s2;
                            (h, cache, _) = pool_append_resolver (srv_heap s2') (mResolverCache s2') resolver
                        in s2'\<lparr>srv_heap := h, mResolverCache := cache\<rparr>)
                     else s2);
               s4 = log_msg env (''** EXIT '' @ (if applied then ''OK'' else ''FAIL'')) s3
           in apply_loop env rest s4))"

definition commit_servers :: "server_env \<Rightarrow> pool \<Rightarrow> server \<Rightarrow> (server \<times> bool) option" where
  "commit_servers env proposed s =
     do {
       (s1, begun) \<leftarrow> with_system (beginUpdateResolvers (os env)) s;
       (if begun then
          do { s2 \<leftarrow> apply_loop env proposed s1;
               (s3, ended) \<leftarrow> with_system (endUpdateResolvers (os env)) s2;
               Some (if ended then s3
                     else log_msg env ''** Operating system failed to commit resolver cache changes **'' s3,
                     ended) }
        else Some (log_msg env ''** Operating system refused to begin comitting changes **'' s1, False)) }"

definition begin_note :: "server_env \<Rightarrow> pool \<Rightarrow> server \<Rightarrow> server" where
  "begin_note env proposed s =
     log_msg env (''Begin applying updated resolver cache of ('' @ number (int (length proposed)) @ '') items...'') s"

definition schedule_note :: "server_env \<Rightarrow> bool \<Rightarrow> server \<Rightarrow> server" where
  "schedule_note env applied s =
     (if applied then log_msg env (''Next scheduled refresh proposal in '' @ number (mRefreshTimerPeriod s) @ '' minutes'') s
      else s)"

definition replaceActiveResolvers :: "server_env \<Rightarrow> pool \<Rightarrow> server \<Rightarrow> (server \<times> pool \<times> bool) option" where
  \<comment> \<open>the state, the proposed pool as the sort leaves it, and whether the changes were applied\<close>
  "replaceActiveResolvers env proposed0 s =
     (let s1 = s\<lparr>mResolverCache := pool_clear (mResolverCache s)\<rparr>;
          proposed = pool_sort (srv_heap s1) proposed0
      in do {
        (s2, applied) \<leftarrow> commit_servers env proposed (begin_note env proposed s1);
        Some (schedule_note env applied s2, proposed, applied) })"

section \<open>Deciding on a replacement\<close>

definition diff_count :: "heap \<Rightarrow> pool \<Rightarrow> pool \<Rightarrow> nat" where
  "diff_count h cache proposed = length (filter (\<lambda>r. \<not> pool_contains_resolver h cache r) proposed)"

definition shouldReplaceWithProposed :: "server_env \<Rightarrow> pool \<Rightarrow> server \<Rightarrow> server \<times> bool" where
  "shouldReplaceWithProposed env proposed s =
     (let s1 = logResolverPool env ''**PROPOSED**'' proposed s;
          s2 = logResolverPool env ''**ACTIVE**'' (mResolverCache s1) s1;
          cache = mResolverCache s2
      in if length proposed \<ge> 2 \<and> length proposed = length cache then
           (if diff_count (srv_heap s2) cache proposed \<ge> length cache div 2
            then (log_msg env ''Recommending active resolvers be replaced due to >= %50 change proposed'' s2, True)
            else (log_msg env ''Not recommending active resolvers be replaced due to < %50 change proposed'' s2, False))
         else if length proposed = 1 \<and> length cache = 1 then
           (if proposed ! 0 = cache ! 0
            then (log_msg env ''Recommending active resolver be replaced due single proposed <> single active resolver'' s2, True)
            else (log_msg env ''Not recommending active resolvers be replaced due tosingle proposed == single active resolver'' s2, False))
         else (log_msg env ''Recommending resolvers be replaced with proposed as a default measure'' s2, True))"

section \<open>Updating the DNS\<close>

definition score_env_of :: "server_env \<Rightarrow> server \<Rightarrow> score_env" where
  "score_env_of env s =
     \<lparr>rounding = score_rounding env, evaluate = score_evaluate env,
      score_internal = mScoreInternal s, score_rules = mScoreRules s\<rparr>"

definition propose :: "nat \<Rightarrow> server \<Rightarrow> server \<times> pool" where
  \<comment> \<open>the first \<open>n\<close> of the pool appended to a new pool, one by one\<close>
  "propose n s =
     (let (h, proposed) = pool_copy (srv_heap s) [] (take n (mResolverPool s))
      in (s\<lparr>srv_heap := h\<rparr>, proposed))"

definition dispose :: "pool \<Rightarrow> server \<Rightarrow> server" where
  \<comment> \<open>the destructor of a local pool\<close>
  "dispose pool s = s\<lparr>srv_heap := pool_destroy (srv_heap s) pool\<rparr>"

definition score_pool :: "server_env \<Rightarrow> server \<Rightarrow> server" where
  "score_pool env s =
     log_all env (pool_score_log (fmt_double env) (score_env_of env s) (srv_heap s) (mResolverPool s))
       (s\<lparr>srv_heap := pool_score (score_env_of env s) (srv_heap s) (mResolverPool s)\<rparr>)"

definition sort_pool :: "server \<Rightarrow> server" where
  "sort_pool s = s\<lparr>mResolverPool := pool_sort (srv_heap s) (mResolverPool s)\<rparr>"

definition accept_proposal :: "server_env \<Rightarrow> pool \<Rightarrow> server \<Rightarrow> (server \<times> pool \<times> int) option" where
  "accept_proposal env proposed s =
     (let (s1, ok) = shouldReplaceWithProposed env proposed s
      in if ok then
           do { (s2, proposed', applied) \<leftarrow> replaceActiveResolvers env proposed (log_msg env ''Proposal accepted.'' s1);
                let s3 = (if applied then s2
                          else log_msg env ''** Warning: A problem occured while activating resolver cache'' s2);
                Some (s3, proposed', int (length (mResolverCache s3))) }
         else Some (log_msg env ''Proposal declined'' s1, proposed, 0))"

definition update_pool :: "server_env \<Rightarrow> int \<Rightarrow> server \<Rightarrow> server" where
  \<comment> \<open>the pool scored and sorted\<close>
  "update_pool env n s =
     log_msg env (''Proposing ('' @ number n @ '') candidates.'')
       (sort_pool (log_msg env ''Sorting resolver pool.'' (score_pool env (log_msg env ''Scoring resolver pool.'' s))))"

definition run_update :: "server_env \<Rightarrow> int \<Rightarrow> server \<Rightarrow> (server \<times> int) option" where
  "run_update env n s =
     (if length (mResolverPool s) > 0 then
        (let (d, proposed) = propose (nat n) (update_pool env n s)
         in do { (e, proposed', rc) \<leftarrow> accept_proposal env proposed d;
                 Some (dispose proposed' e, rc) })
      else Some (log_msg env ''Resolver pool is empty'' s, 0))"

definition updateDNS :: "server_env \<Rightarrow> int \<Rightarrow> server \<Rightarrow> (server \<times> int) option" where
  "updateDNS env resolverCount s =
     (if \<not> mUpdatingDNS s then
        do { (s1, rc) \<leftarrow> run_update env resolverCount (log_msg env ''** UPDATE DNS **'' (s\<lparr>mUpdatingDNS := True\<rparr>));
             Some (s1\<lparr>mUpdatingDNS := False\<rparr>, rc) }
      else Some (s, 0))"

definition setResolverCacheSize :: "server_env \<Rightarrow> int \<Rightarrow> server \<Rightarrow> server option" where
  "setResolverCacheSize env n s =
     (if mResolverCacheSize s \<noteq> n \<and> n \<ge> 0 then
        (let s1 = log_msg env (''** ACTIVE CACHE SET TO '' @ number n @ '' RESOLVERS **'') (s\<lparr>mResolverCacheSize := n\<rparr>)
         in map_option fst (updateDNS env (mResolverCacheSize s1) s1))
      else Some s)"

section \<open>Testing the active resolvers\<close>

definition testResolverCache :: "server_env \<Rightarrow> server \<Rightarrow> server \<times> bool" where
  "testResolverCache env s =
     (case find (\<lambda>a. \<not> alive (objs (srv_heap s) a)) (mResolverCache s) of
        None \<Rightarrow> (s, True)
      | Some a \<Rightarrow>
          (log_msg env (''** ACTIVE RESOLVER '' @ host_of (srv_heap s) a @ [CHR 0x27] @ '' NOT RESPONDING **'') s, False))"

section \<open>Bootstrap\<close>

definition pool_fromIPList :: "server_env \<Rightarrow> string list \<Rightarrow> string \<Rightarrow> server \<Rightarrow> server option" where
  \<comment> \<open>\<open>mResolverPool.fromIPList\<close>; every new resolver asks the system for a random domain\<close>
  "pool_fromIPList env items kind s =
     (if nonblank items = [] then Some s
      else do {
        (s1, domains) \<leftarrow> with_system (getTestDomains (os env)) s;
        (if domains = [] then None
         else do {
           (h, p) \<leftarrow> fromIPList
             (\<lambda>a. (launches env a)\<lparr>l_domain := domains ! (picks env a mod length domains)\<rparr>)
             (parse_host (os env)) (srv_heap s1) (mResolverPool s1) items kind;
           Some (s1\<lparr>srv_heap := h, mResolverPool := p\<rparr>) }) })"

definition shuffle :: "server_env \<Rightarrow> pool \<Rightarrow> server \<Rightarrow> (server \<times> pool) option" where
  "shuffle env p s =
     do { (p', k) \<leftarrow> pool_randomize (draws env) (draws_used s) p; Some (s\<lparr>draws_used := k\<rparr>, p') }"

definition shuffle_pool :: "server_env \<Rightarrow> server \<Rightarrow> server option" where
  "shuffle_pool env s =
     do { (s1, p) \<leftarrow> shuffle env (mResolverPool s) s; Some (s1\<lparr>mResolverPool := p\<rparr>) }"

definition pick_count :: "server \<Rightarrow> nat" where
  \<comment> \<open>the bound of the two loops that fill \<open>proposed\<close>\<close>
  "pick_count s =
     (if mResolverCacheSize s \<le> int (length (mResolverPool s))
      then nat (mResolverCacheSize s) else length (mResolverPool s))"

fun fetch_T2 :: "nat \<Rightarrow> server_env \<Rightarrow> string list \<Rightarrow> server \<Rightarrow> (server \<times> string list) option" where
  "fetch_T2 0 env found s = Some (s, found)"
| "fetch_T2 (Suc tries) env found s =
     (if found = [] then
        do { (s1, found1) \<leftarrow> with_system (getBootstrapT2List (os env)) s; fetch_T2 tries env found1 s1 }
      else Some (s, found))"

definition applying_note :: "server_env \<Rightarrow> pool \<Rightarrow> server \<Rightarrow> server" where
  "applying_note env proposed s =
     log_msg env (''Applying ('' @ number (int (length proposed)) @ '') resolvers from the T1 list'') s"

text \<open>The first half: the T1 servers of the bootstrap file become the active ones.\<close>

definition load_T1 :: "server_env \<Rightarrow> server \<Rightarrow> server option" where
  "load_T1 env s =
     do {
       (s1, bootstrapList) \<leftarrow> with_system (\<lambda>y. (y, getBootstrapT1List (os env) (files y))) s;
       s2 \<leftarrow> pool_fromIPList env bootstrapList ''T1'' (s1\<lparr>mResolverPool := pool_clear (mResolverPool s1)\<rparr>);
       shuffle_pool env s2 }"

definition found_note :: "server_env \<Rightarrow> server \<Rightarrow> server" where
  "found_note env s =
     (let s1 = log_msg env (''Found '' @ number (int (length (mResolverPool s))) @ '' T1 resolvers'') s
      in if int (length (mResolverPool s1)) < mResolverCacheSize s1
         then log_msg env ''** Warning: T1 bootstrap resolver count is less than resolver cache size'' s1
         else s1)"

definition apply_T1 :: "server_env \<Rightarrow> server \<Rightarrow> (server \<times> pool) option" where
  "apply_T1 env s =
     (let (s1, proposed) = propose (pick_count s) s
      in do {
        (s2, proposed1) \<leftarrow> shuffle env proposed (log_msg env ''Randomizing T1 list'' s1);
        (s3, proposed2, _) \<leftarrow> replaceActiveResolvers env proposed1 (applying_note env proposed1 s2);
        Some (s3, proposed2) })"

definition bootstrap_T1 :: "server_env \<Rightarrow> server \<Rightarrow> (server \<times> pool) option" where
  "bootstrap_T1 env s =
     do { s1 \<leftarrow> load_T1 env (s\<lparr>mResolversInitialized := False\<rparr>); apply_T1 env (found_note env s1) }"

text \<open>The second half: T2 servers join the pool and are proposed with the others.\<close>

definition load_T2 :: "server_env \<Rightarrow> server \<Rightarrow> server option" where
  "load_T2 env s =
     do {
       (s1, bootstrapList) \<leftarrow> fetch_T2 5 env [] (log_msg env ''Fetching T2 resolvers'' s);
       s2 \<leftarrow> pool_fromIPList env bootstrapList ''T2'' s1;
       shuffle_pool env (log_msg env ''Randomizing T2 Resolvers'' s2) }"

definition apply_T2 :: "server_env \<Rightarrow> server \<Rightarrow> (server \<times> pool) option" where
  "apply_T2 env s =
     (let (s1, proposed) = propose (pick_count s) s
      in if length proposed > 0 then
           do { (s2, proposed1, ok) \<leftarrow> replaceActiveResolvers env proposed (applying_note env proposed s1);
                Some (s2\<lparr>mResolversInitialized := ok\<rparr>, proposed1) }
         else Some (log_msg env ''** Critical: no T2 resolvers found **'' s1, proposed))"

definition bootstrap_T2 :: "server_env \<Rightarrow> server \<Rightarrow> (server \<times> pool) option" where
  "bootstrap_T2 env s = do { s1 \<leftarrow> load_T2 env s; apply_T2 env s1 }"

definition ready_note :: "server_env \<Rightarrow> server \<Rightarrow> server" where
  "ready_note env s =
     log_msg env (if mResolversInitialized s then ''** RESOLVERS INITIALIZED **''
                  else ''** RESOLVERS NOT INITIALIZED **'') s"

definition bootstrapResolvers :: "server_env \<Rightarrow> server \<Rightarrow> (server \<times> int) option" where
  \<comment> \<open>between the halves \<open>proposed\<close> is emptied by \<open>clear\<close>, which gives no reference back\<close>
  "bootstrapResolvers env s =
     do {
       (s1, _) \<leftarrow> bootstrap_T1 env s;
       (s2, proposed) \<leftarrow> bootstrap_T2 env s1;
       Some (dispose proposed (ready_note env s2),
             if mResolversInitialized s2 then int (length proposed) else 0) }"

section \<open>The log is bounded and nothing else changes\<close>

lemma trim_log_eq: "trim_log xs = drop (length xs - max_log_lines) xs"
proof (induction xs rule: trim_log.induct)
  case (1 xs)
  show ?case
  proof (cases "length xs > max_log_lines")
    case True
    then obtain y ys where "xs = y # ys" "max_log_lines \<le> length ys" by (cases xs) auto
    with 1 True show ?thesis by (subst trim_log.simps) (simp add: take_at_def Suc_diff_le)
  next
    case False
    then show ?thesis by (subst trim_log.simps) simp
  qed
qed

lemma length_trim_log [simp]: "length (trim_log xs) = min (length xs) max_log_lines"
  by (simp add: trim_log_eq)

lemma log_msg_frame [simp]:
  "srv_heap (log_msg env m s) = srv_heap s" "mResolverPool (log_msg env m s) = mResolverPool s"
  "mResolverCache (log_msg env m s) = mResolverCache s" "mSystem (log_msg env m s) = mSystem s"
  "mRefreshTimerPeriod (log_msg env m s) = mRefreshTimerPeriod s"
  "mResolverCacheSize (log_msg env m s) = mResolverCacheSize s"
  "mEnabled (log_msg env m s) = mEnabled s" "mNetworkInterface (log_msg env m s) = mNetworkInterface s"
  "mRefreshTimer (log_msg env m s) = mRefreshTimer s" "mFastTimer (log_msg env m s) = mFastTimer s"
  "mSecondTimer (log_msg env m s) = mSecondTimer s"
  "mBootstrapTimer (log_msg env m s) = mBootstrapTimer s"
  "mBootstrapTicks (log_msg env m s) = mBootstrapTicks s" "mSeconds (log_msg env m s) = mSeconds s"
  "mResolversInitialized (log_msg env m s) = mResolversInitialized s"
  "mTcpListenPort (log_msg env m s) = mTcpListenPort s"
  "mUpdatingDNS (log_msg env m s) = mUpdatingDNS s" "mInColdBoot (log_msg env m s) = mInColdBoot s"
  "mAsyncMessage (log_msg env m s) = mAsyncMessage s" "mSessions (log_msg env m s) = mSessions s"
  "mListening (log_msg env m s) = mListening s" "mScoreRules (log_msg env m s) = mScoreRules s"
  "mScoreInternal (log_msg env m s) = mScoreInternal s" "settings (log_msg env m s) = settings s"
  "timers (log_msg env m s) = timers s" "next_timer (log_msg env m s) = next_timer s"
  "draws_used (log_msg env m s) = draws_used s" "inbox (log_msg env m s) = inbox s"
  "GlobalShutdown (log_msg env m s) = GlobalShutdown s"
  by (simp_all add: log_msg_def)

lemma log_all_frame [simp]:
  "srv_heap (log_all env ms s) = srv_heap s" "mResolverPool (log_all env ms s) = mResolverPool s"
  "mResolverCache (log_all env ms s) = mResolverCache s" "mSystem (log_all env ms s) = mSystem s"
  "mRefreshTimerPeriod (log_all env ms s) = mRefreshTimerPeriod s"
  "mResolverCacheSize (log_all env ms s) = mResolverCacheSize s"
  "mEnabled (log_all env ms s) = mEnabled s"
  "mNetworkInterface (log_all env ms s) = mNetworkInterface s"
  "mRefreshTimer (log_all env ms s) = mRefreshTimer s" "mFastTimer (log_all env ms s) = mFastTimer s"
  "mSecondTimer (log_all env ms s) = mSecondTimer s"
  "mBootstrapTimer (log_all env ms s) = mBootstrapTimer s"
  "mBootstrapTicks (log_all env ms s) = mBootstrapTicks s" "mSeconds (log_all env ms s) = mSeconds s"
  "mResolversInitialized (log_all env ms s) = mResolversInitialized s"
  "mTcpListenPort (log_all env ms s) = mTcpListenPort s"
  "mUpdatingDNS (log_all env ms s) = mUpdatingDNS s" "mInColdBoot (log_all env ms s) = mInColdBoot s"
  "mAsyncMessage (log_all env ms s) = mAsyncMessage s" "mSessions (log_all env ms s) = mSessions s"
  "mListening (log_all env ms s) = mListening s" "mScoreRules (log_all env ms s) = mScoreRules s"
  "mScoreInternal (log_all env ms s) = mScoreInternal s" "settings (log_all env ms s) = settings s"
  "timers (log_all env ms s) = timers s" "next_timer (log_all env ms s) = next_timer s"
  "draws_used (log_all env ms s) = draws_used s" "inbox (log_all env ms s) = inbox s"
  "GlobalShutdown (log_all env ms s) = GlobalShutdown s"
  by (induction env ms s rule: log_all.induct) simp_all

lemma log_msg_length [simp]: "length (mLog (log_msg env m s)) \<le> max_log_lines"
  by (simp add: log_msg_def)

lemma log_all_length: "length (mLog s) \<le> max_log_lines \<Longrightarrow> length (mLog (log_all env ms s)) \<le> max_log_lines"
  by (induction env ms s rule: log_all.induct) simp_all

lemma log_last: "last (mLog (log_msg env m s)) = stamp (os env) @ ''|'' @ m"
  by (simp add: log_msg_def trim_log_eq last_drop max_log_lines_def)

lemma logResolverPool_frame [simp]:
  "srv_heap (logResolverPool env m p s) = srv_heap s"
  "mResolverPool (logResolverPool env m p s) = mResolverPool s"
  "mResolverCache (logResolverPool env m p s) = mResolverCache s"
  "mSystem (logResolverPool env m p s) = mSystem s"
  "mRefreshTimerPeriod (logResolverPool env m p s) = mRefreshTimerPeriod s"
  "mResolverCacheSize (logResolverPool env m p s) = mResolverCacheSize s"
  "mEnabled (logResolverPool env m p s) = mEnabled s"
  "mNetworkInterface (logResolverPool env m p s) = mNetworkInterface s"
  "mRefreshTimer (logResolverPool env m p s) = mRefreshTimer s"
  "mFastTimer (logResolverPool env m p s) = mFastTimer s"
  "mSecondTimer (logResolverPool env m p s) = mSecondTimer s"
  "mBootstrapTimer (logResolverPool env m p s) = mBootstrapTimer s"
  "mBootstrapTicks (logResolverPool env m p s) = mBootstrapTicks s"
  "mSeconds (logResolverPool env m p s) = mSeconds s"
  "mResolversInitialized (logResolverPool env m p s) = mResolversInitialized s"
  "mTcpListenPort (logResolverPool env m p s) = mTcpListenPort s"
  "mUpdatingDNS (logResolverPool env m p s) = mUpdatingDNS s"
  "mInColdBoot (logResolverPool env m p s) = mInColdBoot s"
  "mAsyncMessage (logResolverPool env m p s) = mAsyncMessage s"
  "mSessions (logResolverPool env m p s) = mSessions s"
  "mListening (logResolverPool env m p s) = mListening s"
  "mScoreRules (logResolverPool env m p s) = mScoreRules s"
  "mScoreInternal (logResolverPool env m p s) = mScoreInternal s"
  "settings (logResolverPool env m p s) = settings s" "timers (logResolverPool env m p s) = timers s"
  "next_timer (logResolverPool env m p s) = next_timer s"
  "draws_used (logResolverPool env m p s) = draws_used s" "inbox (logResolverPool env m p s) = inbox s"
  "GlobalShutdown (logResolverPool env m p s) = GlobalShutdown s"
  by (simp_all add: logResolverPool_def)

section \<open>The invariant of the server\<close>

lemma held_mset: "mset ps = mset qs \<Longrightarrow> held ps a = held qs a"
  unfolding held_def by (metis mset_map sum_mset_sum_list)

lemma pools_ok_mset:
  assumes "pools_ok h ps" "mset ps = mset qs" shows "pools_ok h qs"
proof (rule pools_ok_sub [OF assms(1)])
  show "held qs a \<le> held ps a" for a using held_mset [OF assms(2)] by simp
  show "distinct (map (host_of h) q)" if "q \<in> set qs" for q
    using that assms by (metis mset_eq_setD pools_okD(2))
qed

text \<open>
  \<open>srv_ok ps s\<close>: the heap accounts for the two pools of the server and for the local pools
  \<open>ps\<close>, none of them lists a host twice, the log is within its bound, and the cached test
  domains are without duplicates.
\<close>

definition sys_ok :: "server \<Rightarrow> bool" where
  "sys_ok s = (case mSystem s of None \<Rightarrow> True | Some y \<Rightarrow> pool_ok (mTestDomains y))"

definition srv_ok :: "pool list \<Rightarrow> server \<Rightarrow> bool" where
  "srv_ok ps s =
     (pools_ok (srv_heap s) (ps @ [mResolverPool s, mResolverCache s]) \<and>
      length (mLog s) \<le> max_log_lines \<and> sys_ok s)"

lemma sys_ok_log [simp]:
  "sys_ok (log_msg env m s) = sys_ok s" "sys_ok (log_all env ms s) = sys_ok s"
  by (simp_all add: sys_ok_def)

lemma srv_ok_log [simp, intro]: "srv_ok ps s \<Longrightarrow> srv_ok ps (log_msg env m s)"
  by (simp add: srv_ok_def)

lemma srv_ok_log_all [simp, intro]: "srv_ok ps s \<Longrightarrow> srv_ok ps (log_all env ms s)"
  using log_all_length by (simp add: srv_ok_def)

lemma srv_ok_logPool [simp, intro]: "srv_ok ps s \<Longrightarrow> srv_ok ps (logResolverPool env m p s)"
  by (simp add: logResolverPool_def)

lemma srv_ok_cong:
  "srv_ok ps s \<Longrightarrow> srv_heap t = srv_heap s \<Longrightarrow> mResolverPool t = mResolverPool s \<Longrightarrow>
   mResolverCache t = mResolverCache s \<Longrightarrow> mLog t = mLog s \<Longrightarrow> mSystem t = mSystem s \<Longrightarrow> srv_ok ps t"
  by (simp add: srv_ok_def sys_ok_def)

lemma srv_ok_drop: "srv_ok (p # ps) s \<Longrightarrow> srv_ok ps s"
  using pools_ok_tail by (auto simp: srv_ok_def)

lemma srv_ok_perm: "srv_ok (p # ps) s \<Longrightarrow> mset q = mset p \<Longrightarrow> srv_ok (q # ps) s"
  using pools_ok_perm [of "srv_heap s" p "ps @ [mResolverPool s, mResolverCache s]" q]
  by (simp add: srv_ok_def)

text \<open>An operation on the pool, on the cache, or on a local pool, as one on the first pool.\<close>

lemma srv_ok_pool:
  "srv_ok ps s \<longleftrightarrow>
   pools_ok (srv_heap s) (mResolverPool s # ps @ [mResolverCache s]) \<and>
     length (mLog s) \<le> max_log_lines \<and> sys_ok s"
  unfolding srv_ok_def using pools_ok_mset by (metis (no_types, lifting) append_Cons append_Nil mset.simps(2)
      mset_append union_mset_add_mset_left union_mset_add_mset_right)

lemma srv_ok_cache:
  "srv_ok ps s \<longleftrightarrow>
   pools_ok (srv_heap s) (mResolverCache s # ps @ [mResolverPool s]) \<and>
     length (mLog s) \<le> max_log_lines \<and> sys_ok s"
proof -
  have "mset (ps @ [mResolverPool s, mResolverCache s]) = mset (mResolverCache s # ps @ [mResolverPool s])"
    by simp
  then show ?thesis unfolding srv_ok_def using pools_ok_mset by metis
qed

lemma srv_ok_live:
  assumes "srv_ok ps s" "a \<in> set (mResolverPool s) \<or> a \<in> set (mResolverCache s) \<or> (\<exists>p \<in> set ps. a \<in> set p)"
  shows "live (srv_heap s) a"
  using assms pools_ok_live [of "srv_heap s" "ps @ [mResolverPool s, mResolverCache s]"]
  by (auto simp: srv_ok_def)

section \<open>The steps keep the invariant\<close>

text \<open>What every step below leaves as it was: the configuration, not the pools.\<close>

definition config :: "server \<Rightarrow> int \<times> int \<times> bool \<times> int \<times> bool \<times> bool \<times> event list \<times> (string \<Rightarrow> variant option)" where
  "config s = (mResolverCacheSize s, mRefreshTimerPeriod s, mUpdatingDNS s, mTcpListenPort s,
     mInColdBoot s, mSystem s = None, inbox s, settings s)"

lemma config_log [simp]:
  "config (log_msg env m s) = config s" "config (log_all env ms s) = config s"
  "config (logResolverPool env m p s) = config s"
  by (simp_all add: config_def)

lemma with_system_upd:
  assumes "with_system f s = Some (t, r)"
  obtains y y1 where "mSystem s = Some y" "f y = (y1, r)" "t = s\<lparr>mSystem := Some y1\<rparr>"
  using assms by (auto simp: with_system_def split: option.splits prod.splits)

lemma with_system_present: "with_system f s = Some (t, r) \<Longrightarrow> mSystem t \<noteq> None"
  by (erule with_system_upd) simp

lemma with_system_config: "with_system f s = Some (t, r) \<Longrightarrow> config t = config s"
  by (erule with_system_upd) (simp add: config_def)

lemma srv_ok_system:
  assumes "with_system f s = Some (t, r)" "srv_ok ps s"
    "\<And>y y1 r. f y = (y1, r) \<Longrightarrow> pool_ok (mTestDomains y) \<Longrightarrow> pool_ok (mTestDomains y1)"
  shows "srv_ok ps t"
  using assms(1)
proof (rule with_system_upd)
  fix y y1 assume y: "mSystem s = Some y" "f y = (y1, r)" "t = s\<lparr>mSystem := Some y1\<rparr>"
  then show "srv_ok ps t" using assms(2) assms(3) [OF y(2)] by (auto simp: srv_ok_def sys_ok_def)
qed

lemma with_system_returns: "mSystem s \<noteq> None \<Longrightarrow> \<exists>t r. with_system f s = Some (t, r)"
  by (auto simp: with_system_def split: prod.splits)

lemma updateResolver_domains:
  "updateResolver env h y = (y1, r) \<Longrightarrow> mTestDomains y1 = mTestDomains y"
  by (cases r) (auto simp: updateResolver_def linux_updateResolver_def Let_def dest: win_update_frame
      split: platform.splits prod.splits)

lemma beginUpdate_domains: "beginUpdateResolvers env y = (y1, r) \<Longrightarrow> mTestDomains y1 = mTestDomains y"
  by (auto simp: beginUpdateResolvers_def linux_beginUpdateResolvers_def win_beginUpdateResolvers_def
      split: platform.splits)

lemma endUpdate_domains: "endUpdateResolvers env y = (y1, r) \<Longrightarrow> mTestDomains y1 = mTestDomains y"
  by (auto simp: endUpdateResolvers_def linux_endUpdateResolvers_def win_endUpdateResolvers_def Let_def
      split: platform.splits if_splits)

lemmas keeps_domains = updateResolver_domains beginUpdate_domains endUpdate_domains

lemma srv_ok_clear_cache: "srv_ok ps s \<Longrightarrow> srv_ok ps (s\<lparr>mResolverCache := pool_clear (mResolverCache s)\<rparr>)"
  unfolding srv_ok_cache using pools_ok_clear [of "srv_heap s" "mResolverCache s" "ps @ [mResolverPool s]"]
  by (simp add: sys_ok_def)

lemma srv_ok_clear_pool: "srv_ok ps s \<Longrightarrow> srv_ok ps (s\<lparr>mResolverPool := pool_clear (mResolverPool s)\<rparr>)"
  unfolding srv_ok_pool using pools_ok_clear [of "srv_heap s" "mResolverPool s" "ps @ [mResolverCache s]"]
  by (simp add: sys_ok_def)

lemma append_to_cache:
  assumes "srv_ok ps s" "p \<in> set ps" "a \<in> set p"
    "pool_append_resolver (srv_heap s) (mResolverCache s) a = (h, cache, b)"
  shows "srv_ok ps (s\<lparr>srv_heap := h, mResolverCache := cache\<rparr>)" "host_of h = host_of (srv_heap s)"
    "set cache \<subseteq> insert a (set (mResolverCache s))"
proof -
  have "live (srv_heap s) a" using srv_ok_live [OF assms(1)] assms(2,3) by blast
  moreover have "pools_ok (srv_heap s) (mResolverCache s # ps @ [mResolverPool s])"
    using assms(1) srv_ok_cache by blast
  ultimately have "pools_ok h (cache # ps @ [mResolverPool s]) \<and> host_of h = host_of (srv_heap s)"
    using pools_ok_append assms(4) by blast
  then show "srv_ok ps (s\<lparr>srv_heap := h, mResolverCache := cache\<rparr>)" "host_of h = host_of (srv_heap s)"
    using assms(1) unfolding srv_ok_cache by (simp_all add: sys_ok_def)
  show "set cache \<subseteq> insert a (set (mResolverCache s))"
    using assms(4) by (auto simp: pool_append_eq split: if_splits)
qed

lemma apply_loop_ok:
  "apply_loop env rs s = Some t \<Longrightarrow> srv_ok ps s \<Longrightarrow> p \<in> set ps \<Longrightarrow> set rs \<subseteq> set p \<Longrightarrow>
   srv_ok ps t \<and> mResolverPool t = mResolverPool s \<and> host_of (srv_heap t) = host_of (srv_heap s) \<and>
   set (mResolverCache t) \<subseteq> set (mResolverCache s) \<union> set rs \<and> config t = config s"
proof (induction rs arbitrary: s)
  case (Cons r rs)
  let ?upd = "updateResolver (os env) (host_of (srv_heap s) r)"
  obtain s1 applied msgs where u: "with_system ?upd s = Some (s1, applied, msgs)"
    using Cons.prems(1) by (auto split: option.splits)
  have ok1: "srv_ok ps s1"
    using srv_ok_system [OF u Cons.prems(2)] keeps_domains(1) by metis
  obtain y where s1: "mSystem s \<noteq> None" "s1 = s\<lparr>mSystem := Some y\<rparr>"
    using u by (auto elim: with_system_upd)
  define s2 where "s2 = log_all env msgs s1"
  define l where "l = log_msg env ('' > '' @ resolver_toString (fmt_double env) (objs (srv_heap s2) r)) s2"
  obtain h cache b where app: "pool_append_resolver (srv_heap l) (mResolverCache l) r = (h, cache, b)"
    by (cases "pool_append_resolver (srv_heap l) (mResolverCache l) r") auto
  define s3 where "s3 = (if applied then l\<lparr>srv_heap := h, mResolverCache := cache\<rparr> else s2)"
  define s4 where "s4 = log_msg env (''** EXIT '' @ (if applied then ''OK'' else ''FAIL'')) s3"
  have rest: "apply_loop env rs s4 = Some t"
    using Cons.prems(1) u app
    by (simp add: s4_def s3_def l_def s2_def Let_def split: if_splits)
  have "srv_ok ps l" "r \<in> set p" using ok1 Cons.prems(4) by (auto simp: l_def s2_def)
  note app' = append_to_cache [OF this(1) Cons.prems(3) this(2) app]
  have "srv_ok ps s4" using app'(1) ok1 by (auto simp: s4_def s3_def s2_def)
  moreover have "mResolverPool s4 = mResolverPool s \<and> host_of (srv_heap s4) = host_of (srv_heap s) \<and>
      set (mResolverCache s4) \<subseteq> insert r (set (mResolverCache s)) \<and> config s4 = config s"
    using app'(2,3) s1 by (auto simp: s4_def s3_def l_def s2_def config_def)
  ultimately show ?case using Cons.IH [OF rest] Cons.prems(3,4) by auto
qed simp

lemma commit_ok:
  assumes "commit_servers env q s = Some (t, applied)" "srv_ok (q # ps) s"
  shows "srv_ok (q # ps) t \<and> mResolverPool t = mResolverPool s \<and>
    host_of (srv_heap t) = host_of (srv_heap s) \<and>
    set (mResolverCache t) \<subseteq> set (mResolverCache s) \<union> set q \<and> config t = config s"
proof -
  obtain s1 begun where b: "with_system (beginUpdateResolvers (os env)) s = Some (s1, begun)"
    using assms(1) by (auto simp: commit_servers_def bind_eq_Some_conv)
  have ok1: "srv_ok (q # ps) s1" using srv_ok_system [OF b assms(2)] keeps_domains(2) by metis
  obtain y1 where s1: "mSystem s \<noteq> None" "s1 = s\<lparr>mSystem := Some y1\<rparr>" using b by (auto elim: with_system_upd)
  show ?thesis
  proof (cases begun)
    case True
    with assms(1) b obtain s2 s3 ended where l: "apply_loop env q s1 = Some s2"
      and e: "with_system (endUpdateResolvers (os env)) s2 = Some (s3, ended)"
      and t: "t = (if ended then s3 else log_msg env ''** Operating system failed to commit resolver cache changes **'' s3)"
      by (auto simp: commit_servers_def bind_eq_Some_conv)
    have loop: "srv_ok (q # ps) s2 \<and> mResolverPool s2 = mResolverPool s1 \<and>
      host_of (srv_heap s2) = host_of (srv_heap s1) \<and>
      set (mResolverCache s2) \<subseteq> set (mResolverCache s1) \<union> set q \<and> config s2 = config s1"
      by (rule apply_loop_ok [OF l ok1, of q]) simp_all
    have ok3: "srv_ok (q # ps) s3" using srv_ok_system [OF e conjunct1 [OF loop]] keeps_domains(3) by metis
    obtain y3 where "mSystem s2 \<noteq> None" "s3 = s2\<lparr>mSystem := Some y3\<rparr>" using e by (auto elim: with_system_upd)
    then show ?thesis using ok3 loop s1 by (auto simp: t config_def)
  next
    case False
    then show ?thesis using assms(1) b ok1 s1 by (auto simp: commit_servers_def config_def)
  qed
qed

lemma replace_ok:
  assumes "replaceActiveResolvers env proposed s = Some (t, proposed', applied)" "srv_ok (proposed # ps) s"
  shows "srv_ok (proposed' # ps) t \<and> proposed' = pool_sort (srv_heap s) proposed \<and>
    mResolverPool t = mResolverPool s \<and> host_of (srv_heap t) = host_of (srv_heap s) \<and>
    set (mResolverCache t) \<subseteq> set proposed \<and> config t = config s"
proof -
  define q where "q = pool_sort (srv_heap s) proposed"
  define s1 where "s1 = s\<lparr>mResolverCache := pool_clear (mResolverCache s)\<rparr>"
  have "srv_ok (proposed # ps) s1" unfolding s1_def using assms(2) by (rule srv_ok_clear_cache)
  then have "srv_ok (q # ps) s1" by (rule srv_ok_perm) (simp add: q_def)
  then have ok2: "srv_ok (q # ps) (begin_note env q s1)" by (simp add: begin_note_def)
  have "srv_heap s1 = srv_heap s" by (simp add: s1_def)
  then obtain s3 where c: "commit_servers env q (begin_note env q s1) = Some (s3, applied)"
    and p': "proposed' = q" and t: "t = schedule_note env applied s3"
    using assms(1)
    by (auto simp only: replaceActiveResolvers_def Let_def bind_eq_Some_conv q_def [symmetric] s1_def [symmetric]
        option.inject prod.inject split: prod.splits)
  have base: "mResolverPool s1 = mResolverPool s" "mResolverCache s1 = []" "srv_heap s1 = srv_heap s"
    "config s1 = config s"
    by (simp_all add: s1_def pool_clear_def config_def)
  show ?thesis using commit_ok [OF c ok2] base
    by (simp add: p' t schedule_note_def begin_note_def q_def)
qed

lemma propose_ok:
  assumes "propose n s = (t, proposed)" "srv_ok ps s"
  shows "srv_ok (proposed # ps) t \<and> proposed = take n (mResolverPool s) \<and>
    mResolverPool t = mResolverPool s \<and> mResolverCache t = mResolverCache s \<and>
    host_of (srv_heap t) = host_of (srv_heap s) \<and> config t = config s"
proof -
  obtain h p where c: "pool_copy (srv_heap s) [] (take n (mResolverPool s)) = (h, p)"
    by (cases "pool_copy (srv_heap s) [] (take n (mResolverPool s))") auto
  then have t: "t = s\<lparr>srv_heap := h\<rparr>" "proposed = p" using assms(1) by (auto simp: propose_def)
  let ?ps = "ps @ [mResolverPool s, mResolverCache s]"
  have ok: "pools_ok (srv_heap s) ([] # ?ps)" using assms(2) pools_ok_empty by (auto simp: srv_ok_def)
  have copied: "pools_ok h (p # ?ps) \<and> host_of h = host_of (srv_heap s) \<and>
      (distinct (map (host_of (srv_heap s)) ([] @ take n (mResolverPool s))) \<longrightarrow> p = [] @ take n (mResolverPool s))"
    by (rule pools_ok_copy [OF ok _ _ c, of "mResolverPool s"]) (auto dest: in_set_takeD)
  have "distinct (map (host_of (srv_heap s)) (take n (mResolverPool s)))"
    using pools_okD(2) [OF ok, of "mResolverPool s"] by (simp add: take_map [symmetric])
  then have "p = take n (mResolverPool s)" using copied by simp
  moreover have "pools_ok h (p # ?ps)" "host_of h = host_of (srv_heap s)" using copied by blast+
  ultimately show ?thesis using assms(2) unfolding t srv_ok_def by (simp add: sys_ok_def config_def)
qed

lemma dispose_ok:
  assumes "srv_ok (p # ps) s"
  shows "srv_ok ps (dispose p s) \<and> host_of (srv_heap (dispose p s)) = host_of (srv_heap s) \<and>
    mResolverPool (dispose p s) = mResolverPool s \<and> mResolverCache (dispose p s) = mResolverCache s \<and>
    config (dispose p s) = config s"
  using assms pools_ok_destroy [of "srv_heap s" p "ps @ [mResolverPool s, mResolverCache s]"]
  by (simp add: srv_ok_def dispose_def sys_ok_def config_def)

lemma score_pool_ok:
  assumes "srv_ok ps s"
  shows "srv_ok ps (score_pool env s) \<and> host_of (srv_heap (score_pool env s)) = host_of (srv_heap s) \<and>
    mResolverPool (score_pool env s) = mResolverPool s \<and>
    mResolverCache (score_pool env s) = mResolverCache s \<and> config (score_pool env s) = config s"
proof -
  let ?t = "s\<lparr>srv_heap := pool_score (score_env_of env s) (srv_heap s) (mResolverPool s)\<rparr>"
  have "pools_ok (srv_heap ?t) (ps @ [mResolverPool s, mResolverCache s]) \<and>
      host_of (srv_heap ?t) = host_of (srv_heap s)"
    using assms pools_ok_pool_score [of "srv_heap s" "ps @ [mResolverPool s, mResolverCache s]"]
    by (simp add: srv_ok_def)
  moreover have "config ?t = config s" by (simp add: config_def)
  ultimately show ?thesis using assms unfolding score_pool_def
    by (simp add: srv_ok_def sys_ok_def log_all_length)
qed

lemma srv_ok_perm_pool:
  "srv_ok ps s \<Longrightarrow> mset p = mset (mResolverPool s) \<Longrightarrow> srv_ok ps (s\<lparr>mResolverPool := p\<rparr>)"
  unfolding srv_ok_pool
  using pools_ok_perm [of "srv_heap s" "mResolverPool s" "ps @ [mResolverCache s]" p]
  by (simp add: sys_ok_def)

lemma sort_pool_ok:
  assumes "srv_ok ps s"
  shows "srv_ok ps (sort_pool s) \<and> srv_heap (sort_pool s) = srv_heap s \<and>
    mset (mResolverPool (sort_pool s)) = mset (mResolverPool s) \<and>
    mResolverCache (sort_pool s) = mResolverCache s \<and> config (sort_pool s) = config s"
  using srv_ok_perm_pool [OF assms, of "pool_sort (srv_heap s) (mResolverPool s)"]
  by (simp add: sort_pool_def config_def)

lemma shuffle_ok:
  "shuffle env p s = Some (t, p') \<Longrightarrow> mset p' = mset p \<and> (\<exists>k. t = s\<lparr>draws_used := k\<rparr>)"
  by (auto simp: shuffle_def bind_eq_Some_conv dest: randomize_perm)

lemma shuffle_pool_ok:
  assumes "shuffle_pool env s = Some t" "srv_ok ps s"
  shows "srv_ok ps t \<and> srv_heap t = srv_heap s \<and> mset (mResolverPool t) = mset (mResolverPool s) \<and>
    mResolverCache t = mResolverCache s \<and> config t = config s \<and>
    mResolversInitialized t = mResolversInitialized s \<and> mLog t = mLog s"
proof -
  obtain s1 p k where "mset p = mset (mResolverPool s)" "s1 = s\<lparr>draws_used := k\<rparr>" "t = s1\<lparr>mResolverPool := p\<rparr>"
    using assms(1) by (auto simp: shuffle_pool_def bind_eq_Some_conv dest!: shuffle_ok)
  moreover from this have "srv_ok ps (s\<lparr>mResolverPool := p\<rparr>)" using assms(2) srv_ok_perm_pool by blast
  ultimately show ?thesis by (auto simp: config_def elim: srv_ok_cong)
qed

section \<open>Updating the DNS keeps the invariant\<close>

lemma should_state:
  "shouldReplaceWithProposed env p s = (t, b) \<Longrightarrow>
   \<exists>m. t = log_msg env m (logResolverPool env ''**ACTIVE**'' (mResolverCache s) (logResolverPool env ''**PROPOSED**'' p s))"
  by (auto simp: shouldReplaceWithProposed_def Let_def split: if_splits)

lemma accept_ok:
  assumes "accept_proposal env proposed s = Some (t, proposed', rc)" "srv_ok (proposed # ps) s"
  shows "srv_ok (proposed' # ps) t \<and> mResolverPool t = mResolverPool s \<and>
    host_of (srv_heap t) = host_of (srv_heap s) \<and>
    set (mResolverCache t) \<subseteq> set (mResolverCache s) \<union> set proposed \<and> config t = config s"
proof -
  obtain s1 ok where d: "shouldReplaceWithProposed env proposed s = (s1, ok)"
    by (cases "shouldReplaceWithProposed env proposed s") auto
  obtain m where s1: "s1 = log_msg env m (logResolverPool env ''**ACTIVE**'' (mResolverCache s) (logResolverPool env ''**PROPOSED**'' proposed s))"
    using should_state [OF d] by blast
  have ok1: "srv_ok (proposed # ps) (log_msg env x s1)" for x using assms(2) by (simp add: s1)
  have base: "mResolverPool s1 = mResolverPool s" "mResolverCache s1 = mResolverCache s"
    "srv_heap s1 = srv_heap s" "config s1 = config s" by (simp_all add: s1)
  show ?thesis
  proof (cases ok)
    case True
    with assms(1) d obtain s2 applied where
      r: "replaceActiveResolvers env proposed (log_msg env ''Proposal accepted.'' s1) = Some (s2, proposed', applied)"
      and t: "t = (if applied then s2 else log_msg env ''** Warning: A problem occured while activating resolver cache'' s2)"
      by (auto simp: accept_proposal_def bind_eq_Some_conv Let_def)
    from replace_ok [OF r ok1] base show ?thesis by (auto simp: t)
  next
    case False
    with assms(1) d ok1 base show ?thesis by (auto simp: accept_proposal_def)
  qed
qed

lemma update_pool_ok:
  assumes "srv_ok ps s"
  shows "srv_ok ps (update_pool env n s) \<and>
    mset (mResolverPool (update_pool env n s)) = mset (mResolverPool s) \<and>
    mResolverCache (update_pool env n s) = mResolverCache s \<and>
    host_of (srv_heap (update_pool env n s)) = host_of (srv_heap s) \<and>
    config (update_pool env n s) = config s"
proof -
  let ?a = "score_pool env (log_msg env ''Scoring resolver pool.'' s)"
  have a: "srv_ok ps ?a \<and> host_of (srv_heap ?a) = host_of (srv_heap s) \<and> mResolverPool ?a = mResolverPool s \<and>
      mResolverCache ?a = mResolverCache s \<and> config ?a = config s"
    using score_pool_ok [OF srv_ok_log [OF assms], of env env "''Scoring resolver pool.''"] by simp
  let ?b = "sort_pool (log_msg env ''Sorting resolver pool.'' ?a)"
  have "srv_ok ps ?b \<and> srv_heap ?b = srv_heap ?a \<and> mset (mResolverPool ?b) = mset (mResolverPool ?a) \<and>
      mResolverCache ?b = mResolverCache ?a \<and> config ?b = config ?a"
    using sort_pool_ok [OF srv_ok_log [OF conjunct1 [OF a]], of env "''Sorting resolver pool.''"] by simp
  with a show ?thesis by (simp add: update_pool_def)
qed

lemma run_update_ok:
  assumes "run_update env n s = Some (t, rc)" "srv_ok ps s"
  shows "srv_ok ps t \<and> mset (mResolverPool t) = mset (mResolverPool s) \<and>
    host_of (srv_heap t) = host_of (srv_heap s) \<and>
    set (mResolverCache t) \<subseteq> set (mResolverCache s) \<union> set (mResolverPool s) \<and> config t = config s"
proof (cases "mResolverPool s = []")
  case True
  then show ?thesis using assms by (auto simp: run_update_def)
next
  case False
  define u where "u = update_pool env n s"
  obtain d proposed where p: "propose (nat n) u = (d, proposed)" by (cases "propose (nat n) u") auto
  with assms(1) False obtain e proposed' where a: "accept_proposal env proposed d = Some (e, proposed', rc)"
    and t: "t = dispose proposed' e"
    by (auto simp: run_update_def bind_eq_Some_conv u_def [symmetric])
  note U = update_pool_ok [OF assms(2), of env n, folded u_def]
  note P = propose_ok [OF p conjunct1 [OF U]]
  note A = accept_ok [OF a conjunct1 [OF P]]
  note D = dispose_ok [OF conjunct1 [OF A]]
  have "set (mResolverPool u) = set (mResolverPool s)" using U by (metis set_mset_mset)
  then have "set proposed \<subseteq> set (mResolverPool s)" using P by (auto dest: in_set_takeD)
  then show ?thesis using U P A D by (auto simp: t)
qed

lemma updateDNS_ok:
  assumes "updateDNS env n s = Some (t, rc)" "srv_ok ps s"
  shows "srv_ok ps t \<and> mset (mResolverPool t) = mset (mResolverPool s) \<and>
    host_of (srv_heap t) = host_of (srv_heap s) \<and>
    set (mResolverCache t) \<subseteq> set (mResolverCache s) \<union> set (mResolverPool s) \<and> config t = config s"
proof (cases "mUpdatingDNS s")
  case True
  then show ?thesis using assms by (auto simp: updateDNS_def)
next
  case False
  define s1 where "s1 = log_msg env ''** UPDATE DNS **'' (s\<lparr>mUpdatingDNS := True\<rparr>)"
  from assms(1) False obtain u where r: "run_update env n s1 = Some (u, rc)" and t: "t = u\<lparr>mUpdatingDNS := False\<rparr>"
    by (auto simp: updateDNS_def bind_eq_Some_conv s1_def)
  have "srv_ok ps s1" unfolding s1_def by (rule srv_ok_log) (rule srv_ok_cong [OF assms(2)], simp_all)
  note R = run_update_ok [OF r this]
  have "srv_ok ps t" unfolding t by (rule srv_ok_cong [OF conjunct1 [OF R]]) simp_all
  then show ?thesis using R False by (auto simp: t s1_def config_def)
qed

lemma setResolverCacheSize_ok:
  assumes "setResolverCacheSize env n s = Some t" "srv_ok ps s"
  shows "srv_ok ps t \<and> mset (mResolverPool t) = mset (mResolverPool s) \<and>
    (mSystem t = None \<longleftrightarrow> mSystem s = None) \<and> inbox t = inbox s"
proof (cases "mResolverCacheSize s \<noteq> n \<and> n \<ge> 0")
  case True
  let ?s1 = "log_msg env (''** ACTIVE CACHE SET TO '' @ number n @ '' RESOLVERS **'') (s\<lparr>mResolverCacheSize := n\<rparr>)"
  from assms(1) True obtain rc where u: "updateDNS env n ?s1 = Some (t, rc)"
    by (auto simp: setResolverCacheSize_def Let_def)
  have "srv_ok ps ?s1" by (rule srv_ok_log) (rule srv_ok_cong [OF assms(2)], simp_all)
  from updateDNS_ok [OF u this] show ?thesis by (auto simp: config_def)
qed (use assms in \<open>auto simp: setResolverCacheSize_def\<close>)

lemma setRefreshPeriod_ok:
  assumes "setRefreshPeriod env n s = Some t" "srv_ok ps s"
  shows "srv_ok ps t \<and> mResolverPool t = mResolverPool s \<and> mSystem t = mSystem s \<and> inbox t = inbox s"
proof (cases "mRefreshTimerPeriod s \<noteq> n \<and> n \<ge> 0")
  case True
  define s2 where "s2 = stop_refresh (s\<lparr>mRefreshTimerPeriod := n\<rparr>)"
  from assms(1) True obtain m where t: "t = start_refresh (log_msg env m s2)"
    by (auto simp: setRefreshPeriod_def Let_def s2_def [symmetric] split: if_splits)
  have "srv_ok ps s2"
    by (rule srv_ok_cong [OF assms(2)]) (simp_all add: s2_def stop_refresh_def kill_timer_def)
  then have "srv_ok ps (log_msg env m s2)" by simp
  then have "srv_ok ps t" by (rule srv_ok_cong) (simp_all add: t start_refresh_def start_timer_msecs_def)
  then show ?thesis
    by (simp add: t start_refresh_def start_timer_msecs_def) (simp add: s2_def stop_refresh_def kill_timer_def)
qed (use assms in \<open>auto simp: setRefreshPeriod_def\<close>)

section \<open>Bootstrapping keeps the invariant\<close>

lemma getTestDomains_ok:
  "getTestDomains env y = (y1, d) \<Longrightarrow> pool_ok (mTestDomains y) \<Longrightarrow> pool_ok (mTestDomains y1)"
  by (metis getTestDomains_result)

lemma pool_fromIPList_ok:
  assumes "pool_fromIPList env items kind s = Some t" "srv_ok ps s"
  shows "srv_ok ps t \<and>
    host_of (srv_heap t) ` set (mResolverPool t) =
      host_of (srv_heap s) ` set (mResolverPool s) \<union> parse_host (os env) ` set (nonblank items) \<and>
    (\<forall>p \<in> set (ps @ [mResolverCache s]). map (host_of (srv_heap t)) p = map (host_of (srv_heap s)) p) \<and>
    mResolverCache t = mResolverCache s \<and> config t = config s \<and>
    mResolversInitialized t = mResolversInitialized s"
proof (cases "nonblank items = []")
  case True
  then show ?thesis using assms by (auto simp: pool_fromIPList_def)
next
  case False
  define lau where "lau = (\<lambda>domains a. (launches env a)\<lparr>l_domain := domains ! (picks env a mod length domains)\<rparr>)"
  from assms(1) False obtain s1 domains h p where
    d: "with_system (getTestDomains (os env)) s = Some (s1, domains)"
    and f: "fromIPList (lau domains) (parse_host (os env)) (srv_heap s1) (mResolverPool s1) items kind = Some (h, p)"
    and t: "t = s1\<lparr>srv_heap := h, mResolverPool := p\<rparr>"
    by (auto simp: pool_fromIPList_def bind_eq_Some_conv lau_def split: if_splits)
  have ok1: "srv_ok ps s1" using srv_ok_system [OF d assms(2)] getTestDomains_ok by metis
  obtain y where s1: "s1 = s\<lparr>mSystem := Some y\<rparr>" "mSystem s \<noteq> None" using d by (auto elim: with_system_upd)
  have "pools_ok (srv_heap s1) (mResolverPool s1 # ps @ [mResolverCache s1])" using ok1 srv_ok_pool by blast
  from pools_ok_fromIPList [OF this f]
  have F: "pools_ok h (p # ps @ [mResolverCache s1])"
    "\<forall>q \<in> set (ps @ [mResolverCache s1]). map (host_of h) q = map (host_of (srv_heap s1)) q"
    "host_of h ` set p = host_of (srv_heap s1) ` set (mResolverPool s1) \<union> parse_host (os env) ` set (nonblank items)"
    by blast+
  have "srv_ok ps t" using F(1) ok1 unfolding srv_ok_pool by (simp add: t sys_ok_def)
  then show ?thesis using F(2,3) s1 by (simp add: t config_def)
qed

lemma fetch_T2_ok:
  "fetch_T2 n env found s = Some (t, r) \<Longrightarrow> srv_ok ps s \<Longrightarrow>
   srv_ok ps t \<and> srv_heap t = srv_heap s \<and> mResolverPool t = mResolverPool s \<and>
   mResolverCache t = mResolverCache s \<and> config t = config s \<and>
   mResolversInitialized t = mResolversInitialized s"
proof (induction n arbitrary: found s)
  case (Suc n)
  show ?case
  proof (cases "found = []")
    case True
    with Suc.prems(1) obtain s1 found1 where g: "with_system (getBootstrapT2List (os env)) s = Some (s1, found1)"
      and rest: "fetch_T2 n env found1 s1 = Some (t, r)"
      by (auto simp: bind_eq_Some_conv)
    have "mTestDomains y1 = mTestDomains y" if "getBootstrapT2List (os env) y = (y1, q)" for y y1 q
      using that by (auto simp: getBootstrapT2List_def exec_def Let_def split: prod.splits)
    then have "srv_ok ps s1" using srv_ok_system [OF g Suc.prems(2)] by metis
    moreover obtain y where "s1 = s\<lparr>mSystem := Some y\<rparr>" "mSystem s \<noteq> None" using g by (auto elim: with_system_upd)
    ultimately show ?thesis using Suc.IH [OF rest] by (auto simp: config_def)
  qed (use Suc.prems in auto)
qed auto

text \<open>The hosts a pool holds, and that they come from a list of texts.\<close>

definition pool_hosts :: "server \<Rightarrow> host set" where
  "pool_hosts s = host_of (srv_heap s) ` set (mResolverPool s)"

definition cache_hosts :: "server \<Rightarrow> host set" where
  "cache_hosts s = host_of (srv_heap s) ` set (mResolverCache s)"

lemma hosts_mset:
  "mset (mResolverPool t) = mset (mResolverPool s) \<Longrightarrow> host_of (srv_heap t) = host_of (srv_heap s) \<Longrightarrow>
   pool_hosts t = pool_hosts s"
  unfolding pool_hosts_def by (metis set_mset_mset)

lemma replace_hosts:
  assumes "replaceActiveResolvers env proposed s = Some (t, proposed', applied)" "srv_ok (proposed # ps) s"
    "host_of (srv_heap s) ` set proposed \<subseteq> pool_hosts s"
  shows "srv_ok (proposed' # ps) t \<and> pool_hosts t = pool_hosts s \<and> cache_hosts t \<subseteq> pool_hosts t \<and>
    config t = config s \<and> length proposed' = length proposed"
proof -
  note R = replace_ok [OF assms(1,2)]
  have "pool_hosts t = pool_hosts s" using R by (simp add: pool_hosts_def)
  moreover have "cache_hosts t \<subseteq> host_of (srv_heap s) ` set proposed" using R by (auto simp: cache_hosts_def)
  ultimately show ?thesis using R assms(3) by (auto simp: length_pool_sort)
qed

lemma propose_hosts:
  assumes "propose n s = (t, proposed)" "srv_ok ps s"
  shows "srv_ok (proposed # ps) t \<and> pool_hosts t = pool_hosts s \<and>
    host_of (srv_heap t) ` set proposed \<subseteq> pool_hosts t \<and> config t = config s \<and>
    mResolverPool t = mResolverPool s \<and> length proposed = min (length (mResolverPool s)) n"
  using propose_ok [OF assms] by (auto simp: pool_hosts_def dest: in_set_takeD)

lemma pool_hosts_log [simp]: "pool_hosts (log_msg env m s) = pool_hosts s" "pool_hosts (log_all env ms s) = pool_hosts s"
  by (simp_all add: pool_hosts_def)

lemma cache_hosts_log [simp]: "cache_hosts (log_msg env m s) = cache_hosts s" "cache_hosts (log_all env ms s) = cache_hosts s"
  by (simp_all add: cache_hosts_def)

lemma updateDNS_hosts:
  assumes "updateDNS env n s = Some (t, rc)" "srv_ok ps s" "cache_hosts s \<subseteq> pool_hosts s"
  shows "cache_hosts t \<subseteq> pool_hosts t"
proof -
  note U = updateDNS_ok [OF assms(1,2)]
  then have "pool_hosts t = pool_hosts s" by (intro hosts_mset) simp_all
  moreover have "cache_hosts t \<subseteq> cache_hosts s \<union> pool_hosts s"
    using U unfolding cache_hosts_def pool_hosts_def by (simp add: image_Un [symmetric] image_mono)
  ultimately show ?thesis using assms(3) by blast
qed

lemma found_note_frame [simp]:
  "config (found_note env s) = config s" "pool_hosts (found_note env s) = pool_hosts s"
  "srv_ok ps s \<Longrightarrow> srv_ok ps (found_note env s)" "srv_heap (found_note env s) = srv_heap s"
  "mResolverPool (found_note env s) = mResolverPool s" "mResolverCache (found_note env s) = mResolverCache s"
  "mResolversInitialized (found_note env s) = mResolversInitialized s"
  by (simp_all add: found_note_def Let_def)

lemma applying_note_frame [simp]:
  "config (applying_note env p s) = config s" "pool_hosts (applying_note env p s) = pool_hosts s"
  "srv_ok ps s \<Longrightarrow> srv_ok ps (applying_note env p s)" "srv_heap (applying_note env p s) = srv_heap s"
  "mResolversInitialized (applying_note env p s) = mResolversInitialized s"
  by (simp_all add: applying_note_def)

lemma load_T1_ok:
  assumes "load_T1 env s = Some t" "srv_ok ps s"
  shows "srv_ok ps t \<and> config t = config s \<and> mResolverCache t = mResolverCache s \<and>
    mResolversInitialized t = mResolversInitialized s \<and>
    (\<exists>y. mSystem s = Some y \<and>
      pool_hosts t = parse_host (os env) ` set (nonblank (getBootstrapT1List (os env) (files y))))"
proof -
  obtain s1 bl s2 where
    g: "with_system (\<lambda>y. (y, getBootstrapT1List (os env) (files y))) s = Some (s1, bl)" and
    f: "pool_fromIPList env bl ''T1'' (s1\<lparr>mResolverPool := pool_clear (mResolverPool s1)\<rparr>) = Some s2" and
    h: "shuffle_pool env s2 = Some t"
    using assms(1) by (auto simp: load_T1_def bind_eq_Some_conv)
  obtain y where y: "mSystem s = Some y" "s1 = s" "bl = getBootstrapT1List (os env) (files y)"
    using g by (rule with_system_upd) auto
  define c where "c = s\<lparr>mResolverPool := pool_clear (mResolverPool s)\<rparr>"
  have okc: "srv_ok ps c" unfolding c_def using assms(2) by (rule srv_ok_clear_pool)
  note F = pool_fromIPList_ok [OF f [unfolded y(2), folded c_def] okc]
  note H = shuffle_pool_ok [OF h conjunct1 [OF F]]
  have "pool_hosts t = pool_hosts s2" using H by (intro hosts_mset) simp_all
  also have "\<dots> = parse_host (os env) ` set (nonblank bl)"
    using F by (simp add: pool_hosts_def c_def pool_clear_def)
  finally have "pool_hosts t = parse_host (os env) ` set (nonblank bl)" .
  moreover have "config c = config s" by (simp add: c_def config_def)
  ultimately show ?thesis using H F y by (simp add: c_def)
qed

lemma apply_T1_ok:
  assumes "apply_T1 env s = Some (t, proposed)" "srv_ok ps s"
  shows "srv_ok ps t \<and> config t = config s \<and> pool_hosts t = pool_hosts s \<and> cache_hosts t \<subseteq> pool_hosts t"
proof -
  obtain s1 chosen where p: "propose (pick_count s) s = (s1, chosen)" by (cases "propose (pick_count s) s") auto
  define l where "l = log_msg env ''Randomizing T1 list'' s1"
  obtain s2 prop1 ok where sh: "shuffle env chosen l = Some (s2, prop1)"
    and r: "replaceActiveResolvers env prop1 (applying_note env prop1 s2) = Some (t, proposed, ok)"
    using assms(1) p by (auto simp: apply_T1_def bind_eq_Some_conv l_def)
  note P = propose_hosts [OF p assms(2)]
  obtain k where S: "mset prop1 = mset chosen" "s2 = l\<lparr>draws_used := k\<rparr>" using shuffle_ok [OF sh] by blast
  have "srv_ok (chosen # ps) l" unfolding l_def by (rule srv_ok_log [OF conjunct1 [OF P]])
  then have "srv_ok (chosen # ps) s2" by (rule srv_ok_cong) (simp_all add: S(2))
  then have "srv_ok (prop1 # ps) s2" using S(1) by (rule srv_ok_perm)
  then have ok2: "srv_ok (prop1 # ps) (applying_note env prop1 s2)" by (rule applying_note_frame(3))
  have set1: "set prop1 = set chosen" using S(1) by (metis set_mset_mset)
  have base: "pool_hosts s2 = pool_hosts s1" "srv_heap s2 = srv_heap s1" "config s2 = config s1"
    by (simp_all add: S(2) pool_hosts_def config_def l_def)
  have "host_of (srv_heap (applying_note env prop1 s2)) ` set prop1 \<subseteq> pool_hosts (applying_note env prop1 s2)"
    using P set1 base by auto
  note R = replace_hosts [OF r ok2 this]
  have "srv_ok ps t" using R srv_ok_drop by blast
  then show ?thesis using R P base by auto
qed

lemma load_T2_ok:
  assumes "load_T2 env s = Some t" "srv_ok ps s"
  shows "srv_ok ps t \<and> config t = config s \<and> mResolversInitialized t = mResolversInitialized s \<and>
    cache_hosts t = cache_hosts s \<and>
    (\<exists>s1 bl. fetch_T2 5 env [] (log_msg env ''Fetching T2 resolvers'' s) = Some (s1, bl) \<and>
      pool_hosts t = pool_hosts s \<union> parse_host (os env) ` set (nonblank bl))"
proof -
  define l where "l = log_msg env ''Fetching T2 resolvers'' s"
  obtain s1 bl s2 where
    g: "fetch_T2 5 env [] l = Some (s1, bl)" and
    f: "pool_fromIPList env bl ''T2'' s1 = Some s2" and
    h: "shuffle_pool env (log_msg env ''Randomizing T2 Resolvers'' s2) = Some t"
    using assms(1) by (auto simp: load_T2_def bind_eq_Some_conv l_def)
  have "srv_ok ps l" using assms(2) by (simp add: l_def)
  note G = fetch_T2_ok [OF g this]
  note F = pool_fromIPList_ok [OF f conjunct1 [OF G]]
  note H = shuffle_pool_ok [OF h srv_ok_log [OF conjunct1 [OF F]]]
  have "pool_hosts t = pool_hosts s2" using H by (intro hosts_mset) simp_all
  also have "\<dots> = pool_hosts s \<union> parse_host (os env) ` set (nonblank bl)"
    using F G by (simp add: pool_hosts_def l_def)
  finally have hosts: "pool_hosts t = pool_hosts s \<union> parse_host (os env) ` set (nonblank bl)" .
  have "map (host_of (srv_heap s2)) (mResolverCache s1) = map (host_of (srv_heap s1)) (mResolverCache s1)"
    using F by simp
  then have "host_of (srv_heap s2) ` set (mResolverCache s1) = host_of (srv_heap s1) ` set (mResolverCache s1)"
    by (metis list.set_map)
  then have "cache_hosts t = cache_hosts s" using F G H by (simp add: cache_hosts_def l_def)
  with hosts show ?thesis using g G F H unfolding l_def [symmetric] by (simp add: l_def)
qed

lemma apply_T2_ok:
  assumes "apply_T2 env s = Some (t, proposed)" "srv_ok ps s"
  shows "srv_ok (proposed # ps) t \<and> config t = config s \<and> pool_hosts t = pool_hosts s \<and>
    (cache_hosts s \<subseteq> pool_hosts s \<longrightarrow> cache_hosts t \<subseteq> pool_hosts t)"
proof -
  obtain s1 chosen where p: "propose (pick_count s) s = (s1, chosen)" by (cases "propose (pick_count s) s") auto
  note P = propose_hosts [OF p assms(2)]
  have cache: "cache_hosts s1 = cache_hosts s" using propose_ok [OF p assms(2)] by (simp add: cache_hosts_def)
  show ?thesis
  proof (cases "chosen = []")
    case True
    with assms(1) p obtain m where t: "t = log_msg env m s1" "proposed = chosen"
      by (auto simp: apply_T2_def)
    then have "cache_hosts t = cache_hosts s" using cache by (simp add: cache_hosts_def)
    moreover have "srv_ok (proposed # ps) t" unfolding t by (rule srv_ok_log [OF conjunct1 [OF P]])
    ultimately show ?thesis using P by (auto simp: t(1))
  next
    case False
    then obtain s2 ok where
      r: "replaceActiveResolvers env chosen (applying_note env chosen s1) = Some (s2, proposed, ok)"
      and t: "t = s2\<lparr>mResolversInitialized := ok\<rparr>"
      using assms(1) p by (auto simp: apply_T2_def bind_eq_Some_conv)
    have "srv_ok (chosen # ps) (applying_note env chosen s1)" by (rule applying_note_frame(3) [OF conjunct1 [OF P]])
    moreover have "host_of (srv_heap (applying_note env chosen s1)) ` set chosen \<subseteq> pool_hosts (applying_note env chosen s1)"
      using P by auto
    ultimately have R: "srv_ok (proposed # ps) s2 \<and> pool_hosts s2 = pool_hosts (applying_note env chosen s1) \<and>
        cache_hosts s2 \<subseteq> pool_hosts s2 \<and> config s2 = config (applying_note env chosen s1) \<and>
        length proposed = length chosen"
      by (rule replace_hosts [OF r])
    have "srv_ok (proposed # ps) t" by (rule srv_ok_cong [of "proposed # ps" s2]) (use R P in \<open>simp_all add: t\<close>)
    moreover have "config t = config s2" "pool_hosts t = pool_hosts s2" "cache_hosts t = cache_hosts s2"
      by (simp_all add: t config_def pool_hosts_def cache_hosts_def)
    ultimately show ?thesis using R P by auto
  qed
qed

lemma bootstrap_ok:
  assumes "bootstrapResolvers env s = Some (t, rc)" "srv_ok ps s"
  shows "srv_ok ps t \<and> config t = config s \<and> cache_hosts t \<subseteq> pool_hosts t"
proof -
  obtain s1 pa s2 pb where a: "bootstrap_T1 env s = Some (s1, pa)" and b: "bootstrap_T2 env s1 = Some (s2, pb)"
    and t: "t = dispose pb (ready_note env s2)"
    using assms(1) by (auto simp: bootstrapResolvers_def bind_eq_Some_conv)
  obtain x where x: "load_T1 env (s\<lparr>mResolversInitialized := False\<rparr>) = Some x"
    "apply_T1 env (found_note env x) = Some (s1, pa)"
    using a by (auto simp: bootstrap_T1_def bind_eq_Some_conv)
  obtain z where z: "load_T2 env s1 = Some z" "apply_T2 env z = Some (s2, pb)"
    using b by (auto simp: bootstrap_T2_def bind_eq_Some_conv)
  have "srv_ok ps (s\<lparr>mResolversInitialized := False\<rparr>)" by (rule srv_ok_cong [OF assms(2)]) simp_all
  note A = load_T1_ok [OF x(1) this]
  note B = apply_T1_ok [OF x(2) found_note_frame(3) [OF conjunct1 [OF A]]]
  note C = load_T2_ok [OF z(1) conjunct1 [OF B]]
  note D = apply_T2_ok [OF z(2) conjunct1 [OF C]]
  have "srv_ok (pb # ps) (ready_note env s2)" using D by (simp add: ready_note_def)
  note E = dispose_ok [OF this]
  have "config (s\<lparr>mResolversInitialized := False\<rparr>) = config s" by (simp add: config_def)
  moreover have "cache_hosts s2 \<subseteq> pool_hosts s2" using B C D by auto
  then have "cache_hosts t \<subseteq> pool_hosts t" using E by (simp add: t ready_note_def cache_hosts_def pool_hosts_def)
  ultimately show ?thesis using A B C D E unfolding t by (simp add: ready_note_def)
qed

section \<open>What an update leaves alone\<close>

text \<open>All but the fields an update works on.\<close>

definition masked :: "server \<Rightarrow> server" where
  "masked s = s\<lparr>srv_heap := empty_heap, mResolverPool := [], mResolverCache := [], mSystem := None,
     mUpdatingDNS := False, mLog := []\<rparr>"

lemma masked_simps [simp]: "masked (log_msg env m s) = masked s" "masked (log_all env ms s) = masked s"
  "masked (s\<lparr>mResolverPool := p\<rparr>) = masked s" "masked (s\<lparr>mResolverCache := p\<rparr>) = masked s"
  "masked (s\<lparr>srv_heap := h\<rparr>) = masked s" "masked (s\<lparr>mUpdatingDNS := b\<rparr>) = masked s"
  "masked (s\<lparr>mSystem := y\<rparr>) = masked s" "masked (logResolverPool env m p s) = masked s"
proof -
  show log: "masked (log_msg env m s) = masked s" for m s by (simp add: masked_def log_msg_def)
  show logs: "masked (log_all env ms s) = masked s" for ms s by (induction ms arbitrary: s) (simp_all add: log)
  show "masked (logResolverPool env m p s) = masked s" by (simp add: logResolverPool_def log logs)
qed (simp_all add: masked_def)

lemma masked_system: "with_system f s = Some (t, r) \<Longrightarrow> masked t = masked s"
  by (erule with_system_upd) simp

section \<open>Every update returns\<close>

lemma apply_loop_step:
  assumes "with_system (updateResolver (os env) (host_of (srv_heap s) r)) s = Some (s1, applied, msgs)"
  shows "\<exists>s4. apply_loop env (r # rs) s = apply_loop env rs s4 \<and> mSystem s4 = mSystem s1 \<and> masked s4 = masked s1"
proof -
  define l where "l = log_msg env ('' > '' @ resolver_toString (fmt_double env) (objs (srv_heap (log_all env msgs s1)) r)) (log_all env msgs s1)"
  obtain h cache b where app: "pool_append_resolver (srv_heap l) (mResolverCache l) r = (h, cache, b)"
    by (cases "pool_append_resolver (srv_heap l) (mResolverCache l) r") auto
  define s4 where "s4 = log_msg env (''** EXIT '' @ (if applied then ''OK'' else ''FAIL''))
    (if applied then l\<lparr>srv_heap := h, mResolverCache := cache\<rparr> else log_all env msgs s1)"
  have "apply_loop env (r # rs) s = apply_loop env rs s4"
    by (simp only: apply_loop.simps assms option.case prod.case Let_def app [unfolded l_def] s4_def l_def)
  moreover have "mSystem s4 = mSystem s1" "masked s4 = masked s1" by (simp_all add: s4_def l_def)
  ultimately show ?thesis by blast
qed

lemma apply_loop_masked: "apply_loop env rs s = Some t \<Longrightarrow> masked t = masked s"
proof (induction rs arbitrary: s)
  case (Cons r rs)
  obtain s1 applied msgs where u: "with_system (updateResolver (os env) (host_of (srv_heap s) r)) s = Some (s1, applied, msgs)"
    using Cons.prems by (auto split: option.splits)
  obtain s4 where "apply_loop env (r # rs) s = apply_loop env rs s4" "masked s4 = masked s1"
    using apply_loop_step [OF u] by blast
  then show ?case using Cons masked_system [OF u] by simp
qed simp

lemma commit_masked:
  assumes "commit_servers env q s = Some (t, b)" shows "masked t = masked s"
proof -
  obtain s1 begun where bg: "with_system (beginUpdateResolvers (os env)) s = Some (s1, begun)"
    using assms by (auto simp: commit_servers_def bind_eq_Some_conv)
  show ?thesis
  proof (cases begun)
    case True
    with assms bg obtain s2 s3 where l: "apply_loop env q s1 = Some s2"
      and e: "with_system (endUpdateResolvers (os env)) s2 = Some (s3, b)"
      and t: "t = (if b then s3 else log_msg env ''** Operating system failed to commit resolver cache changes **'' s3)"
      by (auto simp: commit_servers_def bind_eq_Some_conv)
    show ?thesis using apply_loop_masked [OF l] masked_system [OF bg] masked_system [OF e] by (simp add: t)
  next
    case False
    with assms bg show ?thesis using masked_system [OF bg] by (auto simp: commit_servers_def)
  qed
qed

lemma replace_masked:
  assumes "replaceActiveResolvers env p s = Some (t, p', b)" shows "masked t = masked s"
proof -
  obtain q u where "commit_servers env q (begin_note env q (s\<lparr>mResolverCache := pool_clear (mResolverCache s)\<rparr>)) = Some (u, b)"
    and t: "t = schedule_note env b u"
    using assms by (auto simp: replaceActiveResolvers_def Let_def bind_eq_Some_conv)
  from commit_masked [OF this(1)] show ?thesis by (simp add: t schedule_note_def begin_note_def)
qed

lemma accept_masked:
  assumes "accept_proposal env p s = Some (t, q, rc)" shows "masked t = masked s"
proof -
  obtain s1 ok where sh: "shouldReplaceWithProposed env p s = (s1, ok)"
    by (cases "shouldReplaceWithProposed env p s") auto
  obtain m where "s1 = log_msg env m (logResolverPool env ''**ACTIVE**'' (mResolverCache s) (logResolverPool env ''**PROPOSED**'' p s))"
    using should_state [OF sh] by blast
  then have "masked (log_msg env x s1) = masked s" for x by simp
  then show ?thesis using assms sh replace_masked [of env p "log_msg env ''Proposal accepted.'' s1"]
    by (cases ok) (auto simp: accept_proposal_def bind_eq_Some_conv Let_def)
qed

lemma updateDNS_masked:
  assumes "updateDNS env n s = Some (t, rc)" shows "masked t = masked s"
proof (cases "mUpdatingDNS s \<or> mResolverPool s = []")
  case True
  then show ?thesis using assms by (auto simp: updateDNS_def run_update_def split: if_splits)
next
  case False
  define s1 where "s1 = update_pool env n (log_msg env ''** UPDATE DNS **'' (s\<lparr>mUpdatingDNS := True\<rparr>))"
  obtain d p where pr: "propose (nat n) s1 = (d, p)" by (cases "propose (nat n) s1") auto
  obtain e q where a: "accept_proposal env p d = Some (e, q, rc)" and t: "t = (dispose q e)\<lparr>mUpdatingDNS := False\<rparr>"
    using assms False pr by (auto simp: updateDNS_def run_update_def bind_eq_Some_conv s1_def)
  have "masked d = masked s1" using pr by (auto simp: propose_def split: prod.splits)
  then show ?thesis using accept_masked [OF a]
    by (simp add: t dispose_def s1_def update_pool_def sort_pool_def score_pool_def)
qed

lemma apply_loop_returns: "mSystem s \<noteq> None \<Longrightarrow> \<exists>t. apply_loop env rs s = Some t \<and> mSystem t \<noteq> None"
proof (induction rs arbitrary: s)
  case (Cons r rs)
  obtain s1 applied msgs where u: "with_system (updateResolver (os env) (host_of (srv_heap s) r)) s = Some (s1, applied, msgs)"
    using with_system_returns [OF Cons.prems] by (metis prod_cases3)
  then have s1: "mSystem s1 \<noteq> None" by (rule with_system_present)
  obtain s4 where s4: "apply_loop env (r # rs) s = apply_loop env rs s4" "mSystem s4 = mSystem s1"
    using apply_loop_step [OF u] by blast
  have "mSystem s4 \<noteq> None" using s1 s4(2) by simp
  then show ?case unfolding s4(1) by (rule Cons.IH)
qed simp

lemma commit_returns: "mSystem s \<noteq> None \<Longrightarrow> \<exists>t b. commit_servers env q s = Some (t, b)"
proof -
  assume "mSystem s \<noteq> None"
  then obtain s1 begun where b: "with_system (beginUpdateResolvers (os env)) s = Some (s1, begun)"
    using with_system_returns [of s "beginUpdateResolvers (os env)"] by auto
  then have "mSystem s1 \<noteq> None" by (rule with_system_present)
  then obtain s2 where l: "apply_loop env q s1 = Some s2" "mSystem s2 \<noteq> None"
    using apply_loop_returns [of s1 env q] by auto
  then obtain s3 e where "with_system (endUpdateResolvers (os env)) s2 = Some (s3, e)"
    using with_system_returns [of s2 "endUpdateResolvers (os env)"] by auto
  with b l show ?thesis by (cases begun) (auto simp: commit_servers_def)
qed

lemma replace_returns: "mSystem s \<noteq> None \<Longrightarrow> \<exists>t p b. replaceActiveResolvers env q s = Some (t, p, b)"
proof -
  let ?s1 = "s\<lparr>mResolverCache := pool_clear (mResolverCache s)\<rparr>"
  let ?q = "pool_sort (srv_heap ?s1) q"
  assume "mSystem s \<noteq> None"
  then have "mSystem (begin_note env ?q ?s1) \<noteq> None" by (simp add: begin_note_def)
  then obtain t b where "commit_servers env ?q (begin_note env ?q ?s1) = Some (t, b)"
    using commit_returns by blast
  then have "replaceActiveResolvers env q s = Some (schedule_note env b t, ?q, b)"
    by (simp only: replaceActiveResolvers_def Let_def prod.case Option.bind_lunit)
  then show ?thesis by blast
qed

lemma updateDNS_returns:
  assumes "mSystem s \<noteq> None" shows "\<exists>t rc. updateDNS env n s = Some (t, rc)"
proof -
  have "\<exists>t rc. run_update env n x = Some (t, rc)" if x: "mSystem x \<noteq> None" for x
  proof -
    obtain d proposed where p: "propose (nat n) (update_pool env n x) = (d, proposed)"
      by (cases "propose (nat n) (update_pool env n x)") auto
    then have "mSystem d \<noteq> None" using x
      by (auto simp: propose_def update_pool_def sort_pool_def score_pool_def split: prod.splits)
    moreover obtain d1 ok where sh: "shouldReplaceWithProposed env proposed d = (d1, ok)"
      by (cases "shouldReplaceWithProposed env proposed d") auto
    ultimately have "mSystem (log_msg env m d1) \<noteq> None" for m using should_state [OF sh] by auto
    then have "\<exists>t q b. replaceActiveResolvers env proposed (log_msg env m d1) = Some (t, q, b)" for m
      using replace_returns by blast
    then have "\<exists>e q rc. accept_proposal env proposed d = Some (e, q, rc)"
      using sh by (cases ok) (fastforce simp: accept_proposal_def bind_eq_Some_conv Let_def)+
    then show ?thesis using p by (auto simp: run_update_def)
  qed
  note run = this
  let ?s1 = "log_msg env ''** UPDATE DNS **'' (s\<lparr>mUpdatingDNS := True\<rparr>)"
  obtain t rc where "run_update env n ?s1 = Some (t, rc)" using run [of ?s1] assms by auto
  then show ?thesis by (cases "mUpdatingDNS s") (simp_all add: updateDNS_def)
qed

section \<open>What an update does on Linux\<close>

lemma apply_loop_linux:
  "apply_loop env rs s = Some t \<Longrightarrow> platform_of (os env) = Linux \<Longrightarrow> mSystem s = Some y \<Longrightarrow>
   distinct (map (host_of (srv_heap s)) (mResolverCache s @ rs)) \<Longrightarrow>
   mResolverCache t = mResolverCache s @ rs \<and> score_of (srv_heap t) = score_of (srv_heap s) \<and>
   mSystem t = Some (y\<lparr>mResolvers := mResolvers y @ map (host_of (srv_heap s)) rs\<rparr>)"
proof (induction rs arbitrary: s y)
  case (Cons r rs)
  define s1 where "s1 = s\<lparr>mSystem := Some (y\<lparr>mResolvers := mResolvers y @ [host_of (srv_heap s) r]\<rparr>)\<rparr>"
  define l where "l = log_msg env ('' > '' @ resolver_toString (fmt_double env) (objs (srv_heap s1) r)) s1"
  have u: "with_system (updateResolver (os env) (host_of (srv_heap s) r)) s = Some (s1, True, [])"
    using Cons.prems(2,3)
    by (simp add: with_system_def updateResolver_def linux_updateResolver_def s1_def)
  have app: "pool_append_resolver (srv_heap l) (mResolverCache l) r
      = (incRef r (srv_heap s), mResolverCache s @ [r], True)"
    using Cons.prems(4) by (auto simp: pool_append_eq l_def s1_def)
  define s4 where "s4 = log_msg env (''** EXIT '' @ ''OK'')
    (l\<lparr>srv_heap := incRef r (srv_heap s), mResolverCache := mResolverCache s @ [r]\<rparr>)"
  have rest: "apply_loop env rs s4 = Some t"
    using Cons.prems(1) u app by (simp add: s4_def l_def Let_def)
  have base: "srv_heap s4 = incRef r (srv_heap s)" "mResolverCache s4 = mResolverCache s @ [r]"
    "mSystem s4 = Some (y\<lparr>mResolvers := mResolvers y @ [host_of (srv_heap s) r]\<rparr>)"
    by (simp_all add: s4_def l_def s1_def)
  have "distinct (map (host_of (srv_heap s4)) (mResolverCache s4 @ rs))"
    using Cons.prems(4) by (simp add: base)
  from Cons.IH [OF rest Cons.prems(2) base(3) this] show ?case by (simp add: base)
qed simp

lemma commit_linux:
  assumes "commit_servers env q s = Some (t, applied)" "platform_of (os env) = Linux"
    "can_write (os env) resolve_conf" "mSystem s = Some y" "q \<noteq> []" "mResolverCache s = []"
    "distinct (map (host_of (srv_heap s)) q)"
  shows "applied \<and> mResolverCache t = q \<and> score_of (srv_heap t) = score_of (srv_heap s) \<and>
    (\<exists>y'. mSystem t = Some y' \<and> files y' = (files y)(resolve_conf \<mapsto> conf_text (map (host_of (srv_heap s)) q)))"
proof -
  let ?s1 = "s\<lparr>mSystem := Some (y\<lparr>mResolvers := []\<rparr>)\<rparr>"
  have b: "with_system (beginUpdateResolvers (os env)) s = Some (?s1, True)"
    using assms(2,4) by (simp add: with_system_def beginUpdateResolvers_def linux_beginUpdateResolvers_def)
  obtain s2 where l: "apply_loop env q ?s1 = Some s2" using assms(1) b by (auto simp: commit_servers_def bind_eq_Some_conv)
  have L: "mResolverCache s2 = mResolverCache ?s1 @ q \<and> score_of (srv_heap s2) = score_of (srv_heap ?s1) \<and>
      mSystem s2 = Some ((y\<lparr>mResolvers := []\<rparr>)\<lparr>mResolvers := mResolvers (y\<lparr>mResolvers := []\<rparr>) @ map (host_of (srv_heap ?s1)) q\<rparr>)"
    by (rule apply_loop_linux [OF l assms(2)]) (use assms(6,7) in simp_all)
  then have e: "with_system (endUpdateResolvers (os env)) s2 = Some (s2\<lparr>mSystem := Some
      (y\<lparr>mResolvers := map server_entry (map (host_of (srv_heap s)) q),
         files := (files y)(resolve_conf \<mapsto> conf_text (map (host_of (srv_heap s)) q))\<rparr>)\<rparr>, True)"
    using assms(2,3,5)
    by (simp add: with_system_def endUpdateResolvers_def linux_endUpdateResolvers_def conf_text_def Let_def)
  then have "t = s2\<lparr>mSystem := Some
      (y\<lparr>mResolvers := map server_entry (map (host_of (srv_heap s)) q),
         files := (files y)(resolve_conf \<mapsto> conf_text (map (host_of (srv_heap s)) q))\<rparr>)\<rparr> \<and> applied"
    using assms(1) b l by (simp add: commit_servers_def)
  then show ?thesis using L assms(6) by simp
qed

lemma replace_linux:
  assumes "replaceActiveResolvers env proposed s = Some (t, proposed', applied)" "srv_ok (proposed # ps) s"
    "platform_of (os env) = Linux" "can_write (os env) resolve_conf" "mSystem s = Some y" "proposed \<noteq> []"
  shows "applied \<and> proposed' = pool_sort (srv_heap s) proposed \<and> mResolverCache t = proposed' \<and>
    score_of (srv_heap t) = score_of (srv_heap s) \<and>
    (\<exists>y'. mSystem t = Some y' \<and>
      files y' = (files y)(resolve_conf \<mapsto> conf_text (map (host_of (srv_heap s)) proposed')))"
proof -
  define q where "q = pool_sort (srv_heap s) proposed"
  define s1 where "s1 = s\<lparr>mResolverCache := pool_clear (mResolverCache s)\<rparr>"
  have heap: "srv_heap s1 = srv_heap s" by (simp add: s1_def)
  then obtain s3 where c: "commit_servers env q (begin_note env q s1) = Some (s3, applied)"
    and p': "proposed' = q" and t: "t = schedule_note env applied s3"
    using assms(1)
    by (auto simp only: replaceActiveResolvers_def Let_def bind_eq_Some_conv q_def [symmetric] s1_def [symmetric]
        option.inject prod.inject split: prod.splits)
  have "distinct (map (host_of (srv_heap s)) proposed)"
    using assms(2) pools_okD(2) by (auto simp: srv_ok_def)
  then have "distinct (map (host_of (srv_heap s)) q)"
    unfolding q_def by (metis distinct_count_atmost_1 mset_map mset_pool_sort set_mset_mset)
  then have d: "distinct (map (host_of (srv_heap (begin_note env q s1))) q)" by (simp add: begin_note_def heap)
  have ne: "q \<noteq> []" using assms(6) unfolding q_def by (metis length_0_conv length_pool_sort)
  have y: "mSystem (begin_note env q s1) = Some y" "mResolverCache (begin_note env q s1) = []"
    "srv_heap (begin_note env q s1) = srv_heap s"
    using assms(5) by (simp_all add: begin_note_def s1_def pool_clear_def)
  note C = commit_linux [OF c assms(3,4) y(1) ne y(2) d, unfolded y(3)]
  show ?thesis using C unfolding t p' by (simp add: schedule_note_def) (simp add: q_def)
qed

section \<open>The ranking an update makes\<close>

lemma distinct_pool: "srv_ok ps s \<Longrightarrow> distinct (mResolverPool s)"
  using pools_okD(2) [of "srv_heap s" "ps @ [mResolverPool s, mResolverCache s]" "mResolverPool s"]
  by (auto simp: srv_ok_def distinct_map)

lemma internal_scores:
  assumes "srv_ok ps s" "mScoreInternal s" "a \<in> set (mResolverPool s)"
  shows "score_of (srv_heap (score_pool env s)) a \<noteq> NaN"
proof -
  let ?se = "score_env_of env s"
  let ?lat = "pool_latency (rounding ?se) (map (objs (srv_heap s)) (mResolverPool s))"
  have "mResolverPool s \<noteq> []" using assms(3) by auto
  then have "objs (srv_heap (score_pool env s)) a =
      setScore (score_resolver ?se ?lat (objs (srv_heap s) a)) (objs (srv_heap s) a)"
    using score_loop_scores [OF distinct_pool [OF assms(1)], of ?se ?lat "srv_heap s" a] assms(3)
    by (simp add: score_pool_def pool_score_def)
  then show ?thesis using assms(2)
    by (simp add: score_of_def setScore_def score_resolver_def score_env_of_def split: prod.splits)
qed

lemma update_pool_sorted:
  assumes "srv_ok ps s" "mScoreInternal s"
  shows "sorted_desc dlt (score_of (srv_heap (update_pool env n s))) (mResolverPool (update_pool env n s))"
proof -
  let ?l = "log_msg env ''Scoring resolver pool.'' s"
  let ?b = "log_msg env ''Sorting resolver pool.'' (score_pool env ?l)"
  have "mResolverPool ?b = mResolverPool s" by (simp add: score_pool_def)
  moreover have "score_of (srv_heap ?b) a \<noteq> NaN" if "a \<in> set (mResolverPool s)" for a
    using internal_scores [of ps ?l a env] assms that by simp
  ultimately have "sorted_desc dlt (score_of (srv_heap ?b)) (pool_sort (srv_heap ?b) (mResolverPool ?b))"
    by (intro pool_sort_sorted) simp
  then show ?thesis by (simp add: update_pool_def sort_pool_def)
qed

lemma update_pool_system:
  "mSystem (update_pool env n s) = mSystem s" "mUpdatingDNS (update_pool env n s) = mUpdatingDNS s"
  by (simp_all add: update_pool_def sort_pool_def score_pool_def)

lemma propose_scores:
  "propose n s = (t, proposed) \<Longrightarrow> score_of (srv_heap t) = score_of (srv_heap s) \<and> mSystem t = mSystem s"
  by (auto simp: propose_def split: prod.splits dest: score_of_copy)

text \<open>When a proposal is worth taking, by the addresses of the two lists.\<close>

definition worth_replacing :: "(nat \<Rightarrow> host) \<Rightarrow> pool \<Rightarrow> pool \<Rightarrow> bool" where
  "worth_replacing host proposed active =
     (if 2 \<le> length proposed \<and> length proposed = length active
      then length active div 2 \<le> length (filter (\<lambda>r. host r \<notin> host ` set active) proposed)
      else if length proposed = 1 \<and> length active = 1 then proposed = active
      else True)"

lemma should_decides:
  "snd (shouldReplaceWithProposed env proposed s) =
   worth_replacing (host_of (srv_heap s)) proposed (mResolverCache s)"
proof -
  have "xs = ys \<longleftrightarrow> xs ! 0 = ys ! 0" if "length xs = 1" "length ys = 1" for xs ys :: pool
    using that by (auto simp: length_Suc_conv)
  from this [of proposed "mResolverCache s"] show ?thesis
    by (simp add: shouldReplaceWithProposed_def worth_replacing_def Let_def diff_count_def)
qed

lemma accept_declined:
  assumes "accept_proposal env proposed s = Some (t, proposed', rc)"
    "\<not> snd (shouldReplaceWithProposed env proposed s)"
  shows "proposed' = proposed \<and> rc = 0 \<and> srv_heap t = srv_heap s \<and> mResolverCache t = mResolverCache s \<and>
    mSystem t = mSystem s \<and> mResolverPool t = mResolverPool s"
proof -
  obtain s1 where d: "shouldReplaceWithProposed env proposed s = (s1, False)"
    using assms(2) by (cases "shouldReplaceWithProposed env proposed s") auto
  obtain m where "s1 = log_msg env m (logResolverPool env ''**ACTIVE**'' (mResolverCache s) (logResolverPool env ''**PROPOSED**'' proposed s))"
    using should_state [OF d] by blast
  moreover have "t = log_msg env ''Proposal declined'' s1" "proposed' = proposed" "rc = 0"
    using assms(1) d by (auto simp: accept_proposal_def)
  ultimately show ?thesis by simp
qed

lemma accept_linux:
  assumes "accept_proposal env proposed s = Some (t, proposed', rc)" "srv_ok (proposed # ps) s"
    "platform_of (os env) = Linux" "can_write (os env) resolve_conf" "mSystem s = Some y" "proposed \<noteq> []"
    "snd (shouldReplaceWithProposed env proposed s)"
  shows "proposed' = pool_sort (srv_heap s) proposed \<and> mResolverCache t = proposed' \<and>
    rc = int (length proposed') \<and> score_of (srv_heap t) = score_of (srv_heap s) \<and>
    (\<exists>y'. mSystem t = Some y' \<and>
      files y' = (files y)(resolve_conf \<mapsto> conf_text (map (host_of (srv_heap s)) proposed')))"
proof -
  obtain s1 where d: "shouldReplaceWithProposed env proposed s = (s1, True)"
    using assms(7) by (cases "shouldReplaceWithProposed env proposed s") auto
  obtain m where s1: "s1 = log_msg env m (logResolverPool env ''**ACTIVE**'' (mResolverCache s) (logResolverPool env ''**PROPOSED**'' proposed s))"
    using should_state [OF d] by blast
  define l where "l = log_msg env ''Proposal accepted.'' s1"
  have l: "srv_ok (proposed # ps) l" "mSystem l = Some y" "srv_heap l = srv_heap s"
    using assms(2,5) by (simp_all add: l_def s1)
  obtain s2 applied where r: "replaceActiveResolvers env proposed l = Some (s2, proposed', applied)"
    and t: "t = (if applied then s2 else log_msg env ''** Warning: A problem occured while activating resolver cache'' s2)"
    and rc: "rc = int (length (mResolverCache t))"
    using assms(1) d by (auto simp: accept_proposal_def bind_eq_Some_conv Let_def l_def)
  note R = replace_linux [OF r l(1) assms(3,4) l(2) assms(6), unfolded l(3)]
  then have "t = s2" by (simp add: t)
  then show ?thesis using R rc by auto
qed

lemma updateDNS_linux:
  assumes u: "updateDNS env n s = Some (t, rc)" and ok: "srv_ok [] s" and idle: "\<not> mUpdatingDNS s"
    and ne: "mResolverPool s \<noteq> []" and int: "mScoreInternal s" and n: "0 < n"
    and lin: "platform_of (os env) = Linux" "can_write (os env) resolve_conf" and y: "mSystem s = Some y"
  shows "sorted_desc dlt (score_of (srv_heap t)) (mResolverPool t) \<and>
    mset (mResolverPool t) = mset (mResolverPool s) \<and>
    (let best = take (nat n) (mResolverPool t)
     in if worth_replacing (host_of (srv_heap t)) best (mResolverCache s)
        then mResolverCache t = best \<and> rc = int (length best) \<and>
          (\<exists>y'. mSystem t = Some y' \<and>
            files y' = (files y)(resolve_conf \<mapsto> conf_text (map (host_of (srv_heap t)) best)))
        else mResolverCache t = mResolverCache s \<and> rc = 0 \<and> mSystem t = Some y)"
proof -
  define s1 where "s1 = log_msg env ''** UPDATE DNS **'' (s\<lparr>mUpdatingDNS := True\<rparr>)"
  define v where "v = update_pool env n s1"
  obtain d proposed where p: "propose (nat n) v = (d, proposed)" by (cases "propose (nat n) v") auto
  have "mResolverPool s1 \<noteq> []" using ne by (simp add: s1_def)
  then obtain e proposed' where a: "accept_proposal env proposed d = Some (e, proposed', rc)"
    and t: "t = (dispose proposed' e)\<lparr>mUpdatingDNS := False\<rparr>"
    using u idle p by (auto simp: updateDNS_def run_update_def bind_eq_Some_conv s1_def v_def)
  have ok1: "srv_ok [] s1" unfolding s1_def by (rule srv_ok_log) (rule srv_ok_cong [OF ok], simp_all)
  have s1: "mScoreInternal s1" "mSystem s1 = Some y" "mResolverPool s1 = mResolverPool s"
    "mResolverCache s1 = mResolverCache s" "host_of (srv_heap s1) = host_of (srv_heap s)"
    using int y by (simp_all add: s1_def)
  note V = update_pool_ok [OF ok1, of env n, folded v_def]
  have srt: "sorted_desc dlt (score_of (srv_heap v)) (mResolverPool v)"
    unfolding v_def by (rule update_pool_sorted [OF ok1 s1(1)])
  note P = propose_ok [OF p conjunct1 [OF V]]
  note PS = propose_scores [OF p]
  have "mset (mResolverPool v) = mset (mResolverPool s)" using V s1(3) by simp
  then have "length (mResolverPool v) = length (mResolverPool s)" by (metis size_mset)
  moreover have chosen: "proposed = take (nat n) (mResolverPool v)" using P by blast
  ultimately have "proposed \<noteq> []" using ne n by auto
  moreover have sd: "mSystem d = Some y" using PS update_pool_system(1) s1(2) by (simp add: v_def)
  ultimately have accepted: "proposed' = pool_sort (srv_heap d) proposed \<and> mResolverCache e = proposed' \<and>
      rc = int (length proposed') \<and> score_of (srv_heap e) = score_of (srv_heap d) \<and>
      (\<exists>y'. mSystem e = Some y' \<and>
        files y' = (files y)(resolve_conf \<mapsto> conf_text (map (host_of (srv_heap d)) proposed')))"
    if "snd (shouldReplaceWithProposed env proposed d)"
    using accept_linux [OF a conjunct1 [OF P] lin] that by blast
  have "sorted_desc dlt (score_of (srv_heap d)) proposed"
    using srt PS chosen by (simp add: sorted_desc_take)
  then have same: "pool_sort (srv_heap d) proposed = proposed" by (rule pool_sort_sorted_id)
  have e: "mResolverPool e = mResolverPool d" "host_of (srv_heap e) = host_of (srv_heap d)"
    using accept_ok [OF a conjunct1 [OF P]] by blast+
  have scores: "score_of (srv_heap e) = score_of (srv_heap d)"
    using accepted accept_declined [OF a] by (cases "snd (shouldReplaceWithProposed env proposed d)") auto
  have T: "mResolverPool t = mResolverPool v" "mResolverCache t = mResolverCache e" "mSystem t = mSystem e"
    "host_of (srv_heap t) = host_of (srv_heap d)" "score_of (srv_heap t) = score_of (srv_heap v)"
    using scores P PS e by (simp_all add: t dispose_def score_of_destroy)
  have "mResolverCache d = mResolverCache s" using P V s1(4) by simp
  then have decision: "snd (shouldReplaceWithProposed env proposed d) =
      worth_replacing (host_of (srv_heap t)) (take (nat n) (mResolverPool t)) (mResolverCache s)"
    using should_decides [of env proposed d] T(1,4) chosen by simp
  have main: "sorted_desc dlt (score_of (srv_heap t)) (mResolverPool t)" "mset (mResolverPool t) = mset (mResolverPool s)"
    using srt V s1(3) T(1,5) by simp_all
  show ?thesis
  proof (cases "snd (shouldReplaceWithProposed env proposed d)")
    case True
    then show ?thesis using accepted [OF True] same chosen decision main T by (auto simp: Let_def)
  next
    case False
    then show ?thesis using accept_declined [OF a False] decision main T sd \<open>mResolverCache d = mResolverCache s\<close>
      by (simp add: Let_def)
  qed
qed

section \<open>The bootstrap completes\<close>

definition domains_short :: "domain_pool \<Rightarrow> bool" where
  \<comment> \<open>there are test domains and each fits a query\<close>
  "domains_short ds = (ds \<noteq> [] \<and> (\<forall>d \<in> set ds. length (bytes_of (mDomainName d)) \<le> 2030))"

definition draws_fair :: "server_env \<Rightarrow> bool" where
  "draws_fair env = (\<forall>n \<ge> 2. fair_draws (draws env) n)"

definition system_has :: "(sys \<Rightarrow> bool) \<Rightarrow> server \<Rightarrow> bool" where
  "system_has P s = (\<exists>y. mSystem s = Some y \<and> P y)"

lemma system_has_cong [simp]: "system_has P (log_msg env m s) = system_has P s"
  "system_has P (log_all env ms s) = system_has P s" "system_has P (s\<lparr>mResolverPool := p\<rparr>) = system_has P s"
  "system_has P (s\<lparr>mResolverCache := p\<rparr>) = system_has P s" "system_has P (s\<lparr>srv_heap := h\<rparr>) = system_has P s"
  "system_has P (s\<lparr>draws_used := k\<rparr>) = system_has P s" "system_has P (s\<lparr>mUpdatingDNS := b\<rparr>) = system_has P s"
  "system_has P (s\<lparr>mResolversInitialized := b\<rparr>) = system_has P s"
  by (simp_all add: system_has_def)

lemma system_has_step:
  assumes "with_system f s = Some (t, r)" "system_has P s" "\<And>y y1. f y = (y1, r) \<Longrightarrow> P y \<Longrightarrow> P y1"
  shows "system_has P t"
  using assms(1)
proof (rule with_system_upd)
  fix y y1 assume y: "mSystem s = Some y" "f y = (y1, r)" "t = s\<lparr>mSystem := Some y1\<rparr>"
  then show "system_has P t" using assms(2) assms(3) [OF y(2)] by (simp add: system_has_def)
qed

lemma system_has_present: "system_has P s \<Longrightarrow> mSystem s \<noteq> None"
  by (auto simp: system_has_def)

lemma propose_system: "propose n s = (t, p) \<Longrightarrow> system_has P t = system_has P s"
  by (auto simp: propose_def split: prod.splits)

text \<open>
  The contract of the three calls an update makes on the system, for a property they keep:
  every update then keeps it.
\<close>

locale update_contract =
  fixes env :: server_env and P :: "sys \<Rightarrow> bool"
  assumes begin_keeps: "beginUpdateResolvers (os env) y = (y1, begun) \<Longrightarrow> P y \<Longrightarrow> P y1"
    and update_keeps: "updateResolver (os env) h y = (y1, r) \<Longrightarrow> P y \<Longrightarrow> P y1"
    and end_keeps: "endUpdateResolvers (os env) y = (y1, ended) \<Longrightarrow> P y \<Longrightarrow> P y1"
begin

lemma apply_loop: "apply_loop env rs s = Some t \<Longrightarrow> system_has P s \<Longrightarrow> system_has P t"
proof (induction rs arbitrary: s)
  case (Cons r rs)
  obtain s1 applied msgs where u: "with_system (updateResolver (os env) (host_of (srv_heap s) r)) s = Some (s1, applied, msgs)"
    using Cons.prems(1) by (auto split: option.splits)
  obtain s4 where "ServerCore.apply_loop env (r # rs) s = ServerCore.apply_loop env rs s4" "mSystem s4 = mSystem s1"
    using apply_loop_step [OF u] by blast
  moreover have "system_has P s1" using system_has_step [OF u Cons.prems(2)] update_keeps by metis
  ultimately show ?case using Cons by (simp add: system_has_def)
qed simp

lemma replace:
  assumes "replaceActiveResolvers env p s = Some (t, p', b)" "system_has P s" shows "system_has P t"
proof -
  define q where "q = pool_sort (srv_heap s) p"
  define s1 where "s1 = begin_note env q (s\<lparr>mResolverCache := pool_clear (mResolverCache s)\<rparr>)"
  have s1: "system_has P s1" using assms(2) by (simp add: s1_def begin_note_def)
  obtain s2 where c: "commit_servers env q s1 = Some (s2, b)" and t: "t = schedule_note env b s2"
    using assms(1) by (auto simp: replaceActiveResolvers_def Let_def bind_eq_Some_conv q_def s1_def)
  obtain s3 begun where bg: "with_system (beginUpdateResolvers (os env)) s1 = Some (s3, begun)"
    using c by (auto simp: commit_servers_def bind_eq_Some_conv)
  have s3: "system_has P s3" using system_has_step [OF bg s1] begin_keeps by metis
  have "system_has P s2"
  proof (cases begun)
    case True
    with c bg obtain s4 s5 ended where l: "ServerCore.apply_loop env q s3 = Some s4"
      and e: "with_system (endUpdateResolvers (os env)) s4 = Some (s5, ended)"
      and s2: "s2 = (if ended then s5 else log_msg env ''** Operating system failed to commit resolver cache changes **'' s5)"
      by (auto simp: commit_servers_def bind_eq_Some_conv)
    have "system_has P s5" using system_has_step [OF e apply_loop [OF l s3]] end_keeps by metis
    then show ?thesis by (simp add: s2)
  next
    case False
    with c bg s3 show ?thesis by (auto simp: commit_servers_def)
  qed
  then show ?thesis by (simp add: t schedule_note_def)
qed

lemma accept:
  assumes "accept_proposal env p s = Some (t, q, rc)" "system_has P s" shows "system_has P t"
proof -
  obtain s1 ok where sh: "shouldReplaceWithProposed env p s = (s1, ok)"
    by (cases "shouldReplaceWithProposed env p s") auto
  have "system_has P s1" using should_state [OF sh] assms(2) by (auto simp: system_has_def)
  then show ?thesis
    using assms(1) sh replace [of p "log_msg env ''Proposal accepted.'' s1"]
    by (auto simp: accept_proposal_def bind_eq_Some_conv Let_def split: if_splits)
qed

lemma updateDNS:
  assumes "updateDNS env n s = Some (t, rc)" "system_has P s" shows "system_has P t"
proof (cases "mUpdatingDNS s \<or> mResolverPool s = []")
  case True
  then show ?thesis using assms by (auto simp: updateDNS_def run_update_def split: if_splits)
next
  case False
  define s1 where "s1 = update_pool env n (log_msg env ''** UPDATE DNS **'' (s\<lparr>mUpdatingDNS := True\<rparr>))"
  obtain d p where pr: "propose (nat n) s1 = (d, p)" by (cases "propose (nat n) s1") auto
  obtain e q where a: "accept_proposal env p d = Some (e, q, rc)"
    and t: "t = (dispose q e)\<lparr>mUpdatingDNS := False\<rparr>"
    using assms(1) False pr by (auto simp: updateDNS_def run_update_def bind_eq_Some_conv s1_def)
  have "system_has P s1" using assms(2) by (simp add: s1_def update_pool_def sort_pool_def score_pool_def)
  then have "system_has P e" using accept [OF a] propose_system [OF pr] by blast
  then show ?thesis by (simp add: t dispose_def)
qed

end

lemma win_update_keeps:
  "win_updateResolver env h y = (y1, r) \<Longrightarrow>
   sys_enabled y1 = sys_enabled y \<and> (mInterfaceName y \<noteq> [] \<longrightarrow> mInterfaceName y1 = mInterfaceName y)"
  by (auto simp: win_updateResolver_def interfaceName_def exec_def Let_def split: if_splits prod.splits)

lemmas update_calls = beginUpdateResolvers_def linux_beginUpdateResolvers_def win_beginUpdateResolvers_def
  updateResolver_def linux_updateResolver_def endUpdateResolvers_def linux_endUpdateResolvers_def
  win_endUpdateResolvers_def

interpretation test_domains: update_contract env "\<lambda>y. domains_short (mTestDomains y)" for env
proof (unfold_locales, goal_cases)
  case (2 h y y1 r)
  then show ?case using keeps_domains(1) [of "os env" h y y1 r] by simp
qed (auto dest: keeps_domains)

interpretation enabled_flag: update_contract env "\<lambda>y. sys_enabled y = b" for env b
  by unfold_locales (auto simp: update_calls Let_def dest: win_update_keeps split: platform.splits if_splits prod.splits)

interpretation interface_name: update_contract env "\<lambda>y. i \<noteq> [] \<and> mInterfaceName y = i" for env i
  by unfold_locales (auto simp: update_calls Let_def dest: win_update_keeps split: platform.splits if_splits prod.splits)

interpretation any_system: update_contract env "\<lambda>y. True" for env
  by unfold_locales simp_all

abbreviation loaded :: "server \<Rightarrow> bool" where
  \<comment> \<open>the system has loaded its test domains\<close>
  "loaded \<equiv> system_has (\<lambda>y. domains_short (mTestDomains y))"

lemma pool_fromIPList_returns:
  assumes "mSystem s = Some y" "domains_short (snd (getTestDomains (os env) y))"
  shows "\<exists>t. pool_fromIPList env items kind s = Some t \<and> (nonblank items \<noteq> [] \<longrightarrow> loaded t) \<and>
    (loaded s \<longrightarrow> loaded t)"
proof (cases "nonblank items = []")
  case False
  obtain y1 d where g: "getTestDomains (os env) y = (y1, d)" by (cases "getTestDomains (os env) y") auto
  then have d: "domains_short d" "mTestDomains y1 = d" using assms(2) by (auto simp: getTestDomains_def Let_def)
  let ?s1 = "s\<lparr>mSystem := Some y1\<rparr>"
  let ?lau = "\<lambda>a. (launches env a)\<lparr>l_domain := d ! (picks env a mod length d)\<rparr>"
  have w: "with_system (getTestDomains (os env)) s = Some (?s1, d)" using assms(1) g by (simp add: with_system_def)
  have "d ! (picks env a mod length d) \<in> set d" for a using d(1) by (auto simp: domains_short_def)
  then have "\<forall>a. length (bytes_of (mDomainName (l_domain (?lau a)))) \<le> 2030" using d(1) by (simp add: domains_short_def)
  from fromIPList_returns [OF this] obtain h p where
    "fromIPList ?lau (parse_host (os env)) (srv_heap ?s1) (mResolverPool ?s1) items kind = Some (h, p)" by blast
  then have "pool_fromIPList env items kind s = Some (?s1\<lparr>srv_heap := h, mResolverPool := p\<rparr>)"
    using False w d(1) by (auto simp: pool_fromIPList_def domains_short_def)
  moreover have "loaded (?s1\<lparr>srv_heap := h, mResolverPool := p\<rparr>)" using d by (simp add: system_has_def)
  ultimately show ?thesis by blast
qed (auto simp: pool_fromIPList_def)

lemma shuffle_returns: "draws_fair env \<Longrightarrow> \<exists>k p'. shuffle env p s = Some (s\<lparr>draws_used := k\<rparr>, p')"
proof (cases "length p \<ge> 2")
  case True
  assume "draws_fair env"
  with True have "fair_draws (draws env) (length p)" by (simp add: draws_fair_def)
  then show ?thesis using randomize_returns [of "draws env" p "draws_used s"] by (auto simp: shuffle_def)
next
  case False
  then show ?thesis by (intro exI [of _ "draws_used s"]) (simp add: shuffle_def pool_randomize_def)
qed

lemma shuffle_pool_returns: "draws_fair env \<Longrightarrow> \<exists>t. shuffle_pool env s = Some t \<and> loaded t = loaded s"
  using shuffle_returns [of env "mResolverPool s" s] by (auto simp: shuffle_pool_def)

lemma T1_list_not_blank: "nonblank (getBootstrapT1List env fs) \<noteq> []"
proof -
  have "nonblank xs \<noteq> [] \<Longrightarrow> nonblank (nonblank xs) \<noteq> []" for xs by (induction xs) (auto split: if_splits)
  moreover have "nonblank fallback_T1 \<noteq> []" by (simp add: fallback_T1_def trimmed_def is_space_def)
  ultimately show ?thesis by (auto simp: getBootstrapT1List_def Let_def split: option.splits if_splits)
qed

lemma bootstrap_T1_returns:
  assumes "mSystem s = Some y" "domains_short (snd (getTestDomains (os env) y))" "draws_fair env"
  shows "\<exists>t p. bootstrap_T1 env s = Some (t, p) \<and> loaded t"
proof -
  define items where "items = getBootstrapT1List (os env) (files y)"
  define s0 where "s0 = s\<lparr>mResolversInitialized := False\<rparr>"
  have w: "with_system (\<lambda>y. (y, getBootstrapT1List (os env) (files y))) s0 = Some (s0, items)"
    using assms(1) by (simp add: with_system_def items_def s0_def)
  obtain s1 where s1: "pool_fromIPList env items ''T1'' (s0\<lparr>mResolverPool := pool_clear (mResolverPool s0)\<rparr>) = Some s1" "loaded s1"
    using pool_fromIPList_returns [of "s0\<lparr>mResolverPool := pool_clear (mResolverPool s0)\<rparr>" y env items "''T1''"]
      assms(1,2) T1_list_not_blank by (auto simp: items_def s0_def)
  obtain s2 where s2: "shuffle_pool env s1 = Some s2" "loaded s2" using shuffle_pool_returns [OF assms(3)] s1(2) by blast
  have load: "load_T1 env s0 = Some s2" using w s1(1) s2(1) by (simp add: load_T1_def)
  define s3 where "s3 = found_note env s2"
  have s3: "loaded s3" using s2(2) by (simp add: s3_def found_note_def Let_def)
  obtain s4 p where p: "propose (pick_count s3) s3 = (s4, p)" by (cases "propose (pick_count s3) s3") auto
  obtain s5 p5 where s5: "shuffle env p (log_msg env ''Randomizing T1 list'' s4) = Some (s5, p5)" "loaded s5"
    using shuffle_returns [OF assms(3), of p "log_msg env ''Randomizing T1 list'' s4"] propose_system [OF p] s3 by auto
  then have "mSystem (applying_note env p5 s5) \<noteq> None" "loaded (applying_note env p5 s5)"
    using system_has_present by (simp_all add: applying_note_def)
  then obtain s6 p6 b where "replaceActiveResolvers env p5 (applying_note env p5 s5) = Some (s6, p6, b)" "loaded s6"
    using replace_returns test_domains.replace by metis
  with s5(1) p load show ?thesis
    by (auto simp: bootstrap_T1_def apply_T1_def s0_def [symmetric] s3_def [symmetric])
qed

lemma fetch_T2_returns: "loaded s \<Longrightarrow> \<exists>t r. fetch_T2 n env found s = Some (t, r) \<and> loaded t"
proof (induction n arbitrary: found s)
  case (Suc n)
  show ?case
  proof (cases "found = []")
    case True
    obtain t r where w: "with_system (getBootstrapT2List (os env)) s = Some (t, r)"
      using with_system_returns [OF system_has_present [OF Suc.prems], of "getBootstrapT2List (os env)"] by blast
    have "loaded t" by (rule system_has_step [OF w Suc.prems])
      (auto simp: getBootstrapT2List_def dest: exec_frame split: prod.splits)
    with Suc.IH [of t r] True w show ?thesis by simp
  qed (use Suc.prems in simp)
qed simp

lemma load_T2_returns:
  assumes "loaded s" "draws_fair env" shows "\<exists>t. load_T2 env s = Some t \<and> loaded t"
proof -
  obtain s1 bl where s1: "fetch_T2 5 env [] (log_msg env ''Fetching T2 resolvers'' s) = Some (s1, bl)" "loaded s1"
    using fetch_T2_returns [of "log_msg env ''Fetching T2 resolvers'' s" 5 env "[]"] assms(1) by auto
  then obtain y where y: "mSystem s1 = Some y" "domains_short (mTestDomains y)" by (auto simp: system_has_def)
  then have "snd (getTestDomains (os env) y) = mTestDomains y" by (auto simp: getTestDomains_def domains_short_def)
  with y pool_fromIPList_returns [of s1 y env bl "''T2''"] s1(2) obtain s2 where
    s2: "pool_fromIPList env bl ''T2'' s1 = Some s2" "loaded s2" by auto
  then show ?thesis
    using s1(1) shuffle_pool_returns [OF assms(2), of "log_msg env ''Randomizing T2 Resolvers'' s2"]
    by (auto simp: load_T2_def)
qed

lemma apply_T2_returns:
  assumes "loaded s" shows "\<exists>t p. apply_T2 env s = Some (t, p)"
proof -
  obtain s1 p where p: "propose (pick_count s) s = (s1, p)" by (cases "propose (pick_count s) s") auto
  then have "mSystem (applying_note env p s1) \<noteq> None"
    using propose_system [OF p] assms system_has_present by (simp add: applying_note_def)
  then show ?thesis using replace_returns [of "applying_note env p s1" env p] p by (auto simp: apply_T2_def)
qed

lemma apply_T2_linux:
  assumes "apply_T2 env s = Some (t, p)" "srv_ok [] s" "platform_of (os env) = Linux"
    "can_write (os env) resolve_conf" "mSystem s \<noteq> None" "mResolverPool s \<noteq> []" "1 \<le> mResolverCacheSize s"
  shows "mResolversInitialized t \<and> mResolverCache t = p \<and> p \<noteq> [] \<and> cache_hosts t \<subseteq> pool_hosts t \<and>
    (\<exists>y. mSystem t = Some y \<and> files y resolve_conf = Some (conf_text (map (host_of (srv_heap t)) (mResolverCache t))))"
proof -
  obtain s1 q where q: "propose (pick_count s) s = (s1, q)" by (cases "propose (pick_count s) s") auto
  note P = propose_hosts [OF q assms(2)]
  have "0 < pick_count s" using assms(6,7) by (auto simp: pick_count_def)
  then have "length q \<noteq> 0" using P assms(6) by (simp add: min_def)
  then have ne: "q \<noteq> []" by simp
  obtain y where y: "mSystem s1 = Some y" using propose_scores [OF q] assms(5) by auto
  let ?l = "applying_note env q s1"
  obtain s2 p2 ok where r: "replaceActiveResolvers env q ?l = Some (s2, p2, ok)"
    and t: "t = s2\<lparr>mResolversInitialized := ok\<rparr>" and p: "p = p2"
    using assms(1) q ne by (auto simp: apply_T2_def bind_eq_Some_conv)
  have l: "srv_ok [q] ?l" "mSystem ?l = Some y" using P y by (simp_all add: applying_note_def)
  note L = replace_linux [OF r l(1) assms(3,4) l(2) ne]
  have "host_of (srv_heap ?l) ` set q \<subseteq> pool_hosts ?l" using P by auto
  note R = replace_hosts [OF r l(1) this]
  have "host_of (srv_heap s2) = host_of (srv_heap ?l)" using replace_ok [OF r l(1)] by blast
  moreover have "p2 \<noteq> []" using R ne by auto
  moreover have "cache_hosts t = cache_hosts s2" "pool_hosts t = pool_hosts s2"
    by (simp_all add: t cache_hosts_def pool_hosts_def)
  ultimately show ?thesis using L R by (auto simp: t p)
qed

lemma bootstrap_linux:
  assumes "srv_ok [] s" "mSystem s = Some y" "1 \<le> mResolverCacheSize s"
    "platform_of (os env) = Linux" "can_write (os env) resolve_conf"
    "domains_short (snd (getTestDomains (os env) y))" "draws_fair env"
  shows "\<exists>t rc y'. bootstrapResolvers env s = Some (t, rc) \<and> mResolversInitialized t \<and> srv_ok [] t \<and>
    rc = int (length (mResolverCache t)) \<and> mResolverCache t \<noteq> [] \<and> cache_hosts t \<subseteq> pool_hosts t \<and>
    parse_host (os env) ` set (nonblank (getBootstrapT1List (os env) (files y))) \<subseteq> pool_hosts t \<and>
    mSystem t = Some y' \<and>
    files y' resolve_conf = Some (conf_text (map (host_of (srv_heap t)) (mResolverCache t)))"
proof -
  let ?T1 = "parse_host (os env) ` set (nonblank (getBootstrapT1List (os env) (files y)))"
  obtain s1 pa where a: "bootstrap_T1 env s = Some (s1, pa)" "loaded s1"
    using bootstrap_T1_returns [OF assms(2,6,7)] by blast
  obtain z where z: "load_T2 env s1 = Some z" "loaded z" using load_T2_returns [OF a(2) assms(7)] by blast
  obtain s2 p where p: "apply_T2 env z = Some (s2, p)" using apply_T2_returns [OF z(2)] by blast
  obtain x where x: "load_T1 env (s\<lparr>mResolversInitialized := False\<rparr>) = Some x"
    "apply_T1 env (found_note env x) = Some (s1, pa)"
    using a by (auto simp: bootstrap_T1_def bind_eq_Some_conv)
  have "srv_ok [] (s\<lparr>mResolversInitialized := False\<rparr>)" by (rule srv_ok_cong [OF assms(1)]) simp_all
  note A = load_T1_ok [OF x(1) this]
  note B = apply_T1_ok [OF x(2) found_note_frame(3) [OF conjunct1 [OF A]]]
  note C = load_T2_ok [OF z(1) conjunct1 [OF B]]
  note D = apply_T2_ok [OF p conjunct1 [OF C]]
  have hosts: "?T1 \<subseteq> pool_hosts z" using A B C assms(2) by auto
  have "?T1 \<noteq> {}" using T1_list_not_blank by simp
  then have "mResolverPool z \<noteq> []" using hosts by (auto simp: pool_hosts_def)
  moreover have "config z = config (s\<lparr>mResolversInitialized := False\<rparr>)" using A B C by simp
  then have "mResolverCacheSize z = mResolverCacheSize s" by (simp add: config_def)
  ultimately have L: "mResolversInitialized s2 \<and> mResolverCache s2 = p \<and> p \<noteq> [] \<and> cache_hosts s2 \<subseteq> pool_hosts s2 \<and>
    (\<exists>y. mSystem s2 = Some y \<and> files y resolve_conf = Some (conf_text (map (host_of (srv_heap s2)) (mResolverCache s2))))"
    using apply_T2_linux [OF p conjunct1 [OF C] assms(4,5) system_has_present [OF z(2)]] assms(3)
    by (metis (no_types, lifting))
  define t where "t = dispose p (ready_note env s2)"
  have "srv_ok (p # []) (ready_note env s2)" using D by (simp add: ready_note_def)
  note E = dispose_ok [OF this, folded t_def]
  have T: "mSystem t = mSystem s2" "mResolversInitialized t = mResolversInitialized s2"
    "cache_hosts t = cache_hosts s2" "pool_hosts t = pool_hosts s2"
    using E by (simp_all add: t_def dispose_def ready_note_def cache_hosts_def pool_hosts_def)
  have "bootstrapResolvers env s = Some (t, int (length p))"
    using a(1) z(1) p L by (simp add: bootstrapResolvers_def bootstrap_T2_def t_def)
  moreover have "?T1 \<subseteq> pool_hosts t" using hosts D T by simp
  ultimately show ?thesis using L E T by (auto simp: ready_note_def)
qed

section \<open>Properties\<close>

text \<open>A service on a Linux machine with two resolvers in its pool, for the witnesses.\<close>

definition sample_senv :: server_env where
  "sample_senv = \<lparr>os = sample_os, launches = (\<lambda>a. sample_launch), picks = (\<lambda>a. 0), draws = (\<lambda>k. k),
     score_rounding = (\<lambda>x. x), score_evaluate = (\<lambda>r g. NaN), fmt_double = (\<lambda>d. ''0''), fmt_time = (\<lambda>t. []),
     version = ''1'', settings_file = ''OpenNICService.ini'', save_status = NoError, can_listen = True,
     put_map = sample_put, get_map = sample_get\<rparr>"

definition sample_server :: server where
  "sample_server =
     \<lparr>srv_heap = sample_heap, mResolverPool = [1, 3], mResolverCache = [], mSystem = Some sample_sys,
      mRefreshTimerPeriod = 1, mResolverCacheSize = 2, mEnabled = True, mNetworkInterface = ''eth1'',
      mRefreshTimer = 1, mFastTimer = 2, mSecondTimer = 4, mBootstrapTimer = 3, mBootstrapTicks = 0,
      mSeconds = 0, mResolversInitialized = True, mTcpListenPort = 19803, mUpdatingDNS = False,
      mInColdBoot = False, mAsyncMessage = [], mSessions = [], mListening = True, mLog = [],
      mScoreRules = ''0'', mScoreInternal = True, settings = (\<lambda>_. None),
      timers = [(1, 60000), (2, 5000), (3, 5000), (4, 1000)], next_timer = 5, draws_used = 0,
      inbox = [], GlobalShutdown = False\<rparr>"

lemma sample_senv_simps [simp]: "os sample_senv = sample_os" "save_status sample_senv = NoError"
  "put_map sample_senv = sample_put" "get_map sample_senv = sample_get" "draws sample_senv = (\<lambda>k. k)"
  by (simp_all add: sample_senv_def)

lemma sample_server_ok: "srv_ok [] sample_server"
proof -
  have "pools_ok sample_heap [[1, 3], []]"
    by (rule pools_ok_sub [OF sample_heap_ok]) (auto simp: held_def sample_heap_def host_of_def of_char_of)
  then show ?thesis
    by (simp add: srv_ok_def sample_server_def sys_ok_def sample_sys_def pool_ok_def pool_toStringList_def)
qed

text \<open>The log keeps the newest 100 lines: a new message is stamped and put last, and only the
  oldest lines beyond the bound go.\<close>

theorem log_keeps_newest:
  "mLog (log_msg env m s) = drop (length (mLog s) + 1 - 100) (mLog s @ [stamp (os env) @ ''|'' @ m]) \<and>
   length (mLog (log_msg env m s)) \<le> 100 \<and> last (mLog (log_msg env m s)) = stamp (os env) @ ''|'' @ m"
  using log_last [of env m s] log_msg_length [of env m s]
  by (simp add: log_msg_def trim_log_eq max_log_lines_def)

text \<open>changing the refresh period replaces the refresh timer: the old one is gone, exactly one new
  one runs, at the new period, and the others are untouched. A period above 35791 minutes
  overflows the int of milliseconds.\<close>

theorem refresh_timer_replaced:
  assumes "\<forall>x \<in> set (timers s). fst x < next_timer s" "period \<noteq> mRefreshTimerPeriod s" "0 \<le> period"
  shows "(setRefreshPeriod env period s = None \<longleftrightarrow> 35791 < period) \<and>
    (\<forall>t. setRefreshPeriod env period s = Some t \<longrightarrow>
       mRefreshTimerPeriod t = period \<and>
       filter (\<lambda>x. fst x = mRefreshTimer t) (timers t) = [(mRefreshTimer t, period * 60000)] \<and>
       filter (\<lambda>x. fst x \<noteq> mRefreshTimer t) (timers t) =
         (if 0 \<le> mRefreshTimer s then filter (\<lambda>x. fst x \<noteq> mRefreshTimer s) (timers s) else timers s))"
proof -
  have fits: "int_ok (period * 60 * 1000) \<longleftrightarrow> \<not> 35791 < period"
    using assms(3) by (auto simp: int_ok_def)
  have old: "filter (\<lambda>x. fst x = next_timer s) xs = []" "filter (\<lambda>x. fst x \<noteq> next_timer s) xs = xs"
    if "set xs \<subseteq> set (timers s)" for xs
    using that assms(1) by (fastforce simp: filter_empty_conv filter_id_conv)+
  show ?thesis
    using assms(2,3) fits old [of "timers s"] old [of "filter (\<lambda>x. fst x \<noteq> mRefreshTimer s) (timers s)"]
    by (auto simp: setRefreshPeriod_def Let_def stop_refresh_def start_refresh_def start_timer_msecs_def
        kill_timer_def)
qed

lemma refresh_timer_replaced_witness:
  "setRefreshPeriod sample_senv 35792 sample_server = None \<and>
   (\<exists>t. setRefreshPeriod sample_senv 30 sample_server = Some t \<and>
     filter (\<lambda>x. fst x = mRefreshTimer t) (timers t) = [(mRefreshTimer t, 1800000)])"
proof -
  have s: "\<forall>x \<in> set (timers sample_server). fst x < next_timer sample_server" "mRefreshTimerPeriod sample_server = 1"
    by (simp_all add: sample_server_def)
  show ?thesis
    using refresh_timer_replaced [OF s(1), of 35792 sample_senv] refresh_timer_replaced [OF s(1), of 30 sample_senv] s(2)
    by auto
qed

text \<open>when the active resolvers are replaced by proposed ones: two lists of the same length of
  at least two are compared by address, and half of the length, rounded down, must be new; a
  single proposed resolver replaces a single active one only when it is the same; in every
  other case the proposal is taken. Nothing but the log changes.\<close>

theorem replacement_decision:
  "snd (shouldReplaceWithProposed env proposed s) =
     (let fresh = filter (\<lambda>r. host_of (srv_heap s) r \<notin> host_of (srv_heap s) ` set (mResolverCache s)) proposed
      in if 2 \<le> length proposed \<and> length proposed = length (mResolverCache s)
         then length (mResolverCache s) div 2 \<le> length fresh
         else if length proposed = 1 \<and> length (mResolverCache s) = 1 then proposed = mResolverCache s
         else True) \<and>
   (\<exists>ms. fst (shouldReplaceWithProposed env proposed s) = log_all env ms s)"
proof
  show "snd (shouldReplaceWithProposed env proposed s) =
     (let fresh = filter (\<lambda>r. host_of (srv_heap s) r \<notin> host_of (srv_heap s) ` set (mResolverCache s)) proposed
      in if 2 \<le> length proposed \<and> length proposed = length (mResolverCache s)
         then length (mResolverCache s) div 2 \<le> length fresh
         else if length proposed = 1 \<and> length (mResolverCache s) = 1 then proposed = mResolverCache s
         else True)"
    by (simp add: should_decides worth_replacing_def Let_def)
  have app: "log_all env xs (log_all env ys u) = log_all env (ys @ xs) u" for xs ys u
    by (induction ys arbitrary: u) auto
  obtain m where "fst (shouldReplaceWithProposed env proposed s) =
      log_all env [m] (logResolverPool env ''**ACTIVE**'' (mResolverCache s) (logResolverPool env ''**PROPOSED**'' proposed s))"
    using should_state [of env proposed s] by (cases "shouldReplaceWithProposed env proposed s") auto
  moreover have "\<exists>ms. logResolverPool env x p u = log_all env ms u" for x p u
    by (intro exI [of _ "x # pool_toStrings (fmt_double env) (srv_heap u) p"]) (simp add: logResolverPool_def)
  ultimately show "\<exists>ms. fst (shouldReplaceWithProposed env proposed s) = log_all env ms s"
    using app by metis
qed

text \<open>The cache test passes exactly when every active resolver is alive; it then changes
  nothing.\<close>

theorem cache_test:
  "(snd (testResolverCache env s) \<longleftrightarrow> (\<forall>a \<in> set (mResolverCache s). alive (objs (srv_heap s) a))) \<and>
   (snd (testResolverCache env s) \<longrightarrow> fst (testResolverCache env s) = s)"
  by (auto simp: testResolverCache_def find_None_iff find_Some_iff split: option.splits)

lemma cache_test_witness: "fst (testResolverCache sample_senv sample_server) = sample_server"
  using cache_test [of sample_senv sample_server] by (simp add: sample_server_def)

lemma sample_domains_in:
  assumes "mTestDomains y = []" "bootstrapDomainsPath sample_os (files y) = ''/etc/bootstrap.domains''"
    "files y ''/etc/bootstrap.domains'' = Some (''icann;a.b'' @ [nl])"
  shows "domains_short (snd (getTestDomains sample_os y))"
proof -
  have "nonblank (read_lines (''icann;a.b'' @ [nl])) = [''icann;a.b'']"
    by (simp add: nonblank_read_lines trimmed_def is_space_def nl_def)
  then have "snd (getTestDomains sample_os y) = append_all [] [fromString ''icann;a.b'']"
    using assms by (simp add: getTestDomains_def open_read_def)
  then show ?thesis
    by (simp add: append_all_def pool_append_def domains_short_def fromString_def
        bytes_of_def trimmed_def is_space_def)
qed

lemma sample_domains: "domains_short (snd (getTestDomains sample_os sample_sys))"
  by (rule sample_domains_in) (simp_all add: sample_domains_path)

lemma sample_draws_fair: "draws_fair sample_senv"
proof -
  have "k mod n \<noteq> (k + 1) mod n" if "2 \<le> n" for k n :: nat
    using that by (simp add: mod_Suc)
  then show ?thesis by (auto simp: draws_fair_def fair_draws_def intro: exI [of _ 0])
qed

lemma sample_T1_list: "nonblank (getBootstrapT1List sample_os sample_files) = [''1.2.3.4'']"
proof -
  have "nonblank (read_lines (''1.2.3.4'' @ [nl])) = [''1.2.3.4'']"
    by (simp add: nonblank_read_lines trimmed_def is_space_def nl_def)
  then show ?thesis
    by (simp add: getBootstrapT1List_def sample_T1_path open_read_def trimmed_def is_space_def)
qed

end
