(* ===== verification/Server.thy ===== *)
theory Server
  imports ServerCore
begin

text \<open>
  \<open>server/opennicserver.cpp\<close>, second part, and \<open>server/main.cpp\<close>: the settings file, the
  sessions with the clients, the cold boot and the timers. A handler may wait inside a nested
  event loop (\<open>delay\<close>), where the other handlers run: the loops take fuel, and \<open>Stuck\<close> is a
  call that never returns or is undefined.
\<close>

section \<open>Settings\<close>

definition setting :: "server \<Rightarrow> string \<Rightarrow> variant \<Rightarrow> variant" where
  "setting s key fallback = (case settings s key of None \<Rightarrow> fallback | Some v \<Rightarrow> v)"

definition default_score_rules :: string where
  "default_score_rules =
     ''var score = maxPoolLatency - resolverAverageLatency;'' @ [nl] @
     ''if (resolverKind == \"T1\")    score *= 0.6666;'' @ [nl] @
     ''if (resolverKind == \"T2\")    score *= 1.5;'' @ [nl] @
     ''if (resolverStatus == \"R\")   score *= 0.5;'' @ [nl] @
     ''if (resolverStatus == \"Y\")   score *= 0.75;'' @ [nl] @
     ''if (resolvesNIC == true)       score *= 1.75;'' @ [nl] @
     ''score;'' @ [nl]"

definition load_options :: "server \<Rightarrow> server" where
  "load_options s =
     s\<lparr>mScoreRules := to_str (setting s ''score_rules'' (VStr default_score_rules)),
       mScoreInternal := to_bool (setting s ''score_internal'' (VBool True)),
       mEnabled := to_bool (setting s ''enabled'' (VBool True)),
       mNetworkInterface := to_str (setting s ''network_interface'' (VStr []))\<rparr>"

definition apply_options :: "server_env \<Rightarrow> server \<Rightarrow> server" where
  "apply_options env s =
     (case mSystem s of
        None \<Rightarrow> s
      | Some y \<Rightarrow>
          (let (y1, msgs) = OsSystem.setEnabled (os env) (mEnabled s) y
           in (log_all env msgs s)\<lparr>mSystem := Some (setInterfaceName (mNetworkInterface s) y1)\<rparr>))"

definition readSettings :: "server_env \<Rightarrow> server \<Rightarrow> server option" where
  "readSettings env s =
     do {
       s1 \<leftarrow> setRefreshPeriod env (to_int (setting s ''refresh_timer_period'' (VInt 1)))
              (s\<lparr>mTcpListenPort := to_int (setting s ''tcp_listen_port'' (VInt 19803))\<rparr>);
       s2 \<leftarrow> setResolverCacheSize env (to_int (setting s ''resolver_cache_size'' (VInt 3))) s1;
       Some (apply_options env (load_options s2)) }"

definition settings_reason :: "settings_status \<Rightarrow> string" where
  "settings_reason st =
     (case st of
        AccessError \<Rightarrow> ''An access error occurred (e.g. trying to write to a read-only file)''
      | FormatError \<Rightarrow> ''A format error occurred (e.g. loading a malformed INI file)''
      | _ \<Rightarrow> ''Unknown failure'')"

definition store_settings :: "bool \<Rightarrow> string \<Rightarrow> server \<Rightarrow> server" where
  "store_settings enabled iface s =
     s\<lparr>settings := (settings s)
         (''tcp_listen_port'' \<mapsto> VInt (mTcpListenPort s),
          ''refresh_timer_period'' \<mapsto> VInt (mRefreshTimerPeriod s),
          ''resolver_cache_size'' \<mapsto> VInt (mResolverCacheSize s),
          ''score_rules'' \<mapsto> VStr (mScoreRules s),
          ''score_internal'' \<mapsto> VBool (mScoreInternal s),
          ''enabled'' \<mapsto> VBool enabled,
          ''network_interface'' \<mapsto> VStr iface)\<rparr>"

definition writeSettings :: "server_env \<Rightarrow> server \<Rightarrow> server option" where
  \<comment> \<open>the file keeps its contents when the status is an error\<close>
  "writeSettings env s =
     do {
       (s1, iface) \<leftarrow> with_system (interfaceName (os env)) (log_msg env (''>> '' @ settings_file env) s);
       (s2, enabled) \<leftarrow> with_system (\<lambda>y. (y, sys_enabled y)) s1;
       Some (if save_status env = NoError then store_settings enabled iface s2
             else log_msg env (''** SETTINGS '' @ settings_file env @ '' -'' @ settings_reason (save_status env)) s2) }"

section \<open>Sessions\<close>

fun newConnection :: "server_env \<Rightarrow> net list \<Rightarrow> server \<Rightarrow> server" where
  "newConnection env [] s = s"
| "newConnection env (n # waiting) s =
     newConnection env waiting (log_msg env ''** client session created **'' (s\<lparr>mSessions := mSessions s @ [n]\<rparr>))"

definition pollKeyValue :: "server_env \<Rightarrow> string \<Rightarrow> server \<Rightarrow> (server \<times> variant option) option" where
  "pollKeyValue env key s =
     (if key = ''tcp_listen_port'' then Some (s, Some (VInt (mTcpListenPort s)))
      else if key = ''refresh_timer_period'' then Some (s, Some (VInt (mRefreshTimerPeriod s)))
      else if key = ''resolver_cache_size'' then Some (s, Some (VInt (mResolverCacheSize s)))
      else if key = ''resolver_pool'' then
        Some (s, Some (VList (pool_toStrings (fmt_double env) (srv_heap s) (mResolverPool s))))
      else if key = ''resolver_cache'' then
        Some (s, Some (VList (pool_toStrings (fmt_double env) (srv_heap s) (mResolverCache s))))
      else if key = ''bootstrap_t1_list'' then
        with_system (\<lambda>y. (y, Some (VList (getBootstrapT1List (os env) (files y))))) s
      else if key = ''bootstrap_domains'' then
        with_system (\<lambda>y. let (y1, d) = getTestDomains (os env) y in (y1, Some (VList (pool_toStringList d)))) s
      else if key = ''system_text'' then
        with_system (\<lambda>y. let (y1, l) = getSystemResolverList (os env) y in (y1, Some (VList l))) s
      else if key = ''journal_text'' then Some (s, Some (VList (mLog s)))
      else if key = ''async_message'' then Some (s, Some (VStr (mAsyncMessage s)))
      else if key = ''score_rules'' then Some (s, Some (VStr (mScoreRules s)))
      else if key = ''score_internal'' then Some (s, Some (VBool (mScoreInternal s)))
      else if key = ''opennic_enabled'' then with_system (\<lambda>y. (y, Some (VBool (sys_enabled y)))) s
      else if key = ''interface_list'' then with_system (\<lambda>y. (y, Some (VList (interface_names (os env))))) s
      else if key = ''interface'' then
        with_system (\<lambda>y. let (y1, i) = interfaceName (os env) y in (y1, Some (VStr i))) s
      else Some (s, None))"

definition note_change :: "bool \<Rightarrow> string \<Rightarrow> server \<Rightarrow> server" where
  "note_change changed msg s = (if changed then s\<lparr>mAsyncMessage := msg\<rparr> else s)"

definition save_list ::
  "(sys_env \<Rightarrow> string list \<Rightarrow> file_map \<Rightarrow> file_map \<times> bool) \<Rightarrow> server_env \<Rightarrow> string list \<Rightarrow>
   string \<Rightarrow> string \<Rightarrow> server \<Rightarrow> server option" where
  "save_list save env lines good bad s =
     do { (s1, ok) \<leftarrow> with_system (\<lambda>y. let (fs, ok) = save (os env) lines (files y) in (y\<lparr>files := fs\<rparr>, ok)) s;
          Some (s1\<lparr>mAsyncMessage := (if ok then good else bad)\<rparr>) }"

definition enable_system :: "server_env \<Rightarrow> bool \<Rightarrow> server \<Rightarrow> server option" where
  "enable_system env b s =
     do { (s1, old) \<leftarrow> with_system (\<lambda>y. (y, sys_enabled y)) s;
          let s2 = note_change (b \<noteq> old) (if old then ''OpenNIC Disabled'' else ''OpenNIC Enabled'') s1;
          (s3, msgs) \<leftarrow> with_system (OsSystem.setEnabled (os env) b) s2;
          Some (log_all env msgs s3) }"

text \<open>One entry of a client's packet.\<close>

definition data_entry :: "server_env \<Rightarrow> string \<Rightarrow> variant \<Rightarrow> server \<times> net \<Rightarrow> (server \<times> net) option" where
  "data_entry env key value sn =
     (let s = fst sn; n = snd sn; keep = map_option (\<lambda>t. (t, n))
      in if key = ''resolver_cache_size'' then
           keep (setResolverCacheSize env (to_int value)
             (note_change (mResolverCacheSize s \<noteq> to_int value) ''Settings Applied'' s))
         else if key = ''refresh_timer_period'' then
           keep (setRefreshPeriod env (to_int value)
             (note_change (mRefreshTimerPeriod s \<noteq> to_int value) ''Settings Applied'' s))
         else if key = ''bootstrap_t1_list'' then
           keep (save_list saveBootstrapT1List env (to_strs value) ''Bootstrap T1 List Saved''
             ''There was a problem saving the T1 bootstrap list'' s)
         else if key = ''bootstrap_domains'' then
           keep (save_list saveTestDomains env (to_strs value) ''Domain List Saved''
             ''There was a problem saving the domains list'' s)
         else if key = ''update_dns'' then keep (map_option fst (updateDNS env (mResolverCacheSize s) s))
         else if key = ''score_rules'' then Some (s\<lparr>mScoreRules := to_str value\<rparr>, n)
         else if key = ''score_internal'' then Some (s\<lparr>mScoreInternal := to_bool value\<rparr>, n)
         else if key = ''resolver_history'' then
           Some (s, net_send (put_map env) True (tx_set ''resolver_history''
             (VList (pool_history (parse_host (os env)) (fmt_time env) (srv_heap s) (mResolverPool s) (to_str value))) n))
         else if key = ''interface'' then
           keep (map_option fst (with_system (\<lambda>y. (setInterfaceName (to_str value) y, ())) s))
         else if key = ''opennic_enabled'' then keep (enable_system env (to_bool value) s)
         else Some (s, n))"

fun data_entries :: "server_env \<Rightarrow> data_map \<Rightarrow> server \<times> net \<Rightarrow> (server \<times> net) option" where
  "data_entries env [] sn = Some sn"
| "data_entries env ((key, value) # rest) sn = do { sn1 \<leftarrow> data_entry env key value sn; data_entries env rest sn1 }"

definition dataReady :: "server_env \<Rightarrow> server \<times> net \<Rightarrow> (server \<times> net) option" where
  "dataReady env sn =
     do {
       (s1, n1) \<leftarrow> (if isLive (snd sn) then data_entries env (mData (mRXPacket (snd sn))) sn else Some sn);
       s2 \<leftarrow> writeSettings env s1;
       Some (s2, if mAsyncMessage s2 \<noteq> []
                 then net_send (put_map env) True (tx_set ''async_message'' (VStr (mAsyncMessage s2)) n1)
                 else n1) }"

text \<open>The handlers as the slots of a net; a handler that is undefined makes everything None.\<close>

definition poll_slot :: "server_env \<Rightarrow> string \<Rightarrow> server option \<Rightarrow> server option \<times> variant option" where
  "poll_slot env key so =
     (case so of None \<Rightarrow> (None, None)
      | Some s \<Rightarrow> (case pollKeyValue env key s of None \<Rightarrow> (None, None) | Some (s1, v) \<Rightarrow> (Some s1, v)))"

definition ready_slot :: "server_env \<Rightarrow> server option \<times> net \<Rightarrow> server option \<times> net" where
  "ready_slot env sn =
     (case fst sn of None \<Rightarrow> sn
      | Some s \<Rightarrow> (case dataReady env (s, snd sn) of None \<Rightarrow> (None, snd sn) | Some (s1, n1) \<Rightarrow> (Some s1, n1)))"

definition session_readable :: "server_env \<Rightarrow> nat \<Rightarrow> byte list \<Rightarrow> server \<Rightarrow> server option" where
  "session_readable env i bytes s =
     (if i < length (mSessions s) then
        (let n = mSessions s ! i;
             (so, n1) = readyRead (put_map env) (get_map env) (poll_slot env) (ready_slot env)
                          (Some s, n\<lparr>sock_in := sock_in n @ bytes\<rparr>)
         in map_option (\<lambda>t. t\<lparr>mSessions := (mSessions t)[i := n1]\<rparr>) so)
      else Some s)"

definition initializeServer :: "server_env \<Rightarrow> server \<Rightarrow> server" where
  "initializeServer env s =
     (if \<not> mListening s \<and> can_listen env
      then log_msg env (''listening on port '' @ number (mTcpListenPort s)) (s\<lparr>mListening := True\<rparr>)
      else s)"

function purge_loop :: "server_env \<Rightarrow> nat \<Rightarrow> net list \<Rightarrow> net list \<times> nat" where
  \<comment> \<open>the sessions kept and the number disposed of\<close>
  "purge_loop env n sessions =
     (if n < length sessions then
        (if \<not> isLive (sessions ! n)
         then (let (kept, k) = purge_loop env (Suc n) (take_at n sessions) in (kept, Suc k))
         else purge_loop env (Suc n) sessions)
      else (sessions, 0))"
  by pat_completeness auto
termination by (relation "measure (\<lambda>(env, n, xs). length xs - n)") auto

declare purge_loop.simps [simp del]

definition purgeDeadSesssions :: "server_env \<Rightarrow> server \<Rightarrow> server" where
  "purgeDeadSesssions env s =
     (let (kept, k) = purge_loop env 0 (mSessions s)
      in log_all env (replicate k ''** CLIENT SESSION DISPOSED **'') (s\<lparr>mSessions := kept\<rparr>))"

section \<open>Handlers that wait\<close>

datatype run_result = Runs server | Exits server | Stuck

fun after :: "run_result \<Rightarrow> (server \<Rightarrow> run_result) \<Rightarrow> run_result" where
  "after (Runs s) f = f s"
| "after (Exits s) f = Exits s"
| "after Stuck f = Stuck"

definition returned :: "server option \<Rightarrow> run_result" where
  "returned so = (case so of None \<Rightarrow> Stuck | Some s \<Rightarrow> Runs s)"

type_synonym handler = "event \<Rightarrow> server \<Rightarrow> run_result"

text \<open>
  \<open>delay\<close>: the event loop runs until the seconds timer has counted far enough. It is stuck
  when no event is left to come.
\<close>

fun delay_loop :: "nat \<Rightarrow> handler \<Rightarrow> nat \<Rightarrow> server \<Rightarrow> run_result" where
  "delay_loop 0 handle seconds s = (if seconds > mSeconds s then Stuck else Runs s)"
| "delay_loop (Suc k) handle seconds s =
     (if seconds > mSeconds s then
        (case inbox s of
           [] \<Rightarrow> Stuck
         | e # rest \<Rightarrow> after (handle e (s\<lparr>inbox := rest\<rparr>)) (delay_loop k handle seconds))
      else Runs s)"

definition delay :: "nat \<Rightarrow> handler \<Rightarrow> nat \<Rightarrow> server \<Rightarrow> run_result" where
  "delay k handle seconds s = delay_loop k handle seconds (s\<lparr>mSeconds := 0\<rparr>)"

fun cold_loop :: "nat \<Rightarrow> server_env \<Rightarrow> handler \<Rightarrow> server \<Rightarrow> run_result" where
  "cold_loop 0 env handle s = (if mResolversInitialized s then Runs s else Stuck)"
| "cold_loop (Suc k) env handle s =
     (if mResolversInitialized s then Runs s
      else
        (case bootstrapResolvers env s of
           None \<Rightarrow> Stuck
         | Some (s1, _) \<Rightarrow>
             after (if mResolversInitialized s1 then Runs (initializeServer env s1)
                    else delay k handle 5 (log_msg env ''** COLD BOOT FAILED - RETRY IN 5 SECONDS **'' s1))
               (cold_loop k env handle)))"

definition copyright :: "server_env \<Rightarrow> string" where
  "copyright env = ''OpenNICServer V'' @ version env @ '' Copywrong (c) 2012-2022 Mike Sharkey <mike@8bitgeek.net>''"

definition license :: string where
  "license = lines_text
     [''----------------------------------------------------------------------------'',
      ''\"THE BEER-WARE LICENSE\" (Revision 1776):'',
      ''<mike@8bitgeek.net> wrote this file.'',
      ''As long as you retain this notice you can do whatever you want with this stuff.'',
      ''If we meet some day, and you think this stuff is worth it,'',
      ''you can buy me a beer in return. ~ Mike Sharkey'',
      ''----------------------------------------------------------------------------'']"

definition coldBoot :: "nat \<Rightarrow> server_env \<Rightarrow> handler \<Rightarrow> server \<Rightarrow> run_result" where
  "coldBoot k env handle s =
     (if \<not> mInColdBoot s then
        after (returned (readSettings env
                 (log_all env [''** COLD BOOT **'', copyright env, license] (s\<lparr>mInColdBoot := True\<rparr>))))
          (\<lambda>s1. after (cold_loop k env handle s1) (\<lambda>s2. Runs (s2\<lparr>mInColdBoot := False\<rparr>)))
      else Runs s)"

definition refresh_active :: "server_env \<Rightarrow> bool \<Rightarrow> server \<Rightarrow> server option" where
  "refresh_active env force s =
     (if force \<or> length (mResolverCache s) = 0 \<or> int (length (mResolverCache s)) < mResolverCacheSize s
      then map_option fst (updateDNS env (mResolverCacheSize s) s)
      else
        (let (s1, good) = testResolverCache env s
         in if \<not> good then map_option fst (updateDNS env (mResolverCacheSize s1) s1) else Some s1))"

definition refreshResolvers :: "nat \<Rightarrow> server_env \<Rightarrow> handler \<Rightarrow> bool \<Rightarrow> server \<Rightarrow> run_result" where
  "refreshResolvers k env handle force s =
     after (if \<not> mResolversInitialized s then coldBoot k env handle s else Runs s)
       (\<lambda>s1. returned (refresh_active env force s1))"

definition runOnce :: "nat \<Rightarrow> server_env \<Rightarrow> handler \<Rightarrow> server \<Rightarrow> run_result" where
  "runOnce k env handle s =
     after (returned (readSettings env s)) (\<lambda>s1.
       after (refreshResolvers k env handle False s1) (\<lambda>s2.
         Runs (if length (mSessions s2) > 0 then pruneLog (purgeDeadSesssions env s2) else s2)))"

definition shut_down :: "server_env \<Rightarrow> server \<Rightarrow> run_result" where
  "shut_down env s =
     (case with_system (shutdown (os env)) s of
        None \<Rightarrow> Stuck
      | Some (s1, msgs) \<Rightarrow> Exits (log_msg env ''** SHUTDOWN **'' (log_all env msgs s1)))"

definition bootstrap_tick :: "server \<Rightarrow> server" where
  \<comment> \<open>\<open>if (mBootstrapTicks++ > BOOTSTRAP_TICKS)\<close> compares the old value\<close>
  "bootstrap_tick s =
     (let s1 = s\<lparr>mBootstrapTicks := mBootstrapTicks s + 1\<rparr>
      in if mBootstrapTicks s > 24 then (kill_timer (mBootstrapTimer s1) s1)\<lparr>mBootstrapTimer := - 1\<rparr> else s1)"

definition server_timerEvent :: "nat \<Rightarrow> server_env \<Rightarrow> handler \<Rightarrow> int \<Rightarrow> server \<Rightarrow> run_result" where
  "server_timerEvent k env handle timerId s =
     (let enabled = (case mSystem s of None \<Rightarrow> True | Some y \<Rightarrow> sys_enabled y)
      in if GlobalShutdown s then shut_down env s
         else if timerId = mFastTimer s then
           (if enabled then runOnce k env handle s else returned (readSettings env s))
         else if timerId = mBootstrapTimer s then
           after (if enabled then refreshResolvers k env handle True s else Runs s)
             (\<lambda>s1. Runs (bootstrap_tick s1))
         else if timerId = mRefreshTimer s then
           (if enabled then refreshResolvers k env handle True s else Runs s)
         else if timerId = mSecondTimer s then Runs (s\<lparr>mSeconds := (mSeconds s + 1) mod 2 ^ 64\<rparr>)
         else Runs s)"

section \<open>Events of the resolvers\<close>

definition resolver_event :: "server_env \<Rightarrow> nat \<Rightarrow> int \<Rightarrow> launch \<Rightarrow> nat \<Rightarrow> server \<Rightarrow> server option" where
  \<comment> \<open>a test asks the system for a random domain first\<close>
  "resolver_event env a timerId l pick s =
     (if live (srv_heap s) a \<and> timerId = mQueryIntervalTimer (objs (srv_heap s) a) then
        do {
          (s1, d) \<leftarrow> with_system (randomDomain (os env) pick) s;
          domain \<leftarrow> d;
          (st, r) \<leftarrow> resolver_timerEvent (l\<lparr>l_domain := domain\<rparr>) a timerId (q_statics (srv_heap s1)) (objs (srv_heap s1) a);
          Some (s1\<lparr>srv_heap := (update_obj a (\<lambda>_. r) (srv_heap s1))\<lparr>q_statics := st\<rparr>\<rparr>) }
      else Some s)"

definition query_event :: "(dns_query \<Rightarrow> dns_query option) \<Rightarrow> nat \<Rightarrow> nat \<Rightarrow> server \<Rightarrow> server option" where
  "query_event f a k s =
     (if live (srv_heap s) a \<and> k < length (mQueries (objs (srv_heap s) a)) then
        do { q \<leftarrow> f (mQueries (objs (srv_heap s) a) ! k);
             Some (s\<lparr>srv_heap := update_obj a (\<lambda>r. r\<lparr>mQueries := (mQueries r)[k := q]\<rparr>) (srv_heap s)\<rparr>) }
      else Some s)"

section \<open>The event loop\<close>

fun handle_event :: "nat \<Rightarrow> server_env \<Rightarrow> handler" where
  "handle_event 0 env e s = Stuck"
| "handle_event (Suc n) env e s =
     (case e of
        Timer timerId \<Rightarrow> server_timerEvent n env (handle_event n env) timerId s
      | Connection waiting \<Rightarrow> Runs (newConnection env waiting s)
      | Readable i bytes \<Rightarrow> returned (session_readable env i bytes s)
      | ResolverTimer a timerId l pick \<Rightarrow> returned (resolver_event env a timerId l pick s)
      | QueryReadable a k t pkts \<Rightarrow>
          returned (query_event (readPendingDatagrams (parse_host (os env)) t pkts) a k s)
      | QueryTimer a k t timerId \<Rightarrow>
          returned (query_event (\<lambda>q. Some (DnsQuery.timerEvent t timerId q)) a k s))"

fun run_events :: "nat \<Rightarrow> server_env \<Rightarrow> server \<Rightarrow> run_result" where
  \<comment> \<open>the event loop of the application, until no event is left\<close>
  "run_events 0 env s = (if inbox s = [] then Runs s else Stuck)"
| "run_events (Suc n) env s =
     (case inbox s of
        [] \<Rightarrow> Runs s
      | e # rest \<Rightarrow> after (handle_event n env e (s\<lparr>inbox := rest\<rparr>)) (run_events n env))"

section \<open>The service\<close>

text \<open>
  The constructor. \<open>mSystem\<close> is read by \<open>readSettings\<close> before it is set: \<open>garbage\<close> says
  whether the bits found there are a null pointer. \<open>junk\<close> is what the timers without an
  initialiser hold.
\<close>

definition blank_server :: "int \<Rightarrow> query_statics \<Rightarrow> (string \<Rightarrow> variant option) \<Rightarrow> event list \<Rightarrow> server" where
  "blank_server junk st stored events =
     \<lparr>srv_heap = \<lparr>objs = (\<lambda>_. blank_resolver), next_addr = 0, doomed = [], q_statics = st\<rparr>,
      mResolverPool = [], mResolverCache = [], mSystem = None, mRefreshTimerPeriod = 0,
      mResolverCacheSize = 0, mEnabled = True, mNetworkInterface = [], mRefreshTimer = - 1,
      mFastTimer = - 1, mSecondTimer = junk, mBootstrapTimer = junk, mBootstrapTicks = 0,
      mSeconds = 0, mResolversInitialized = False, mTcpListenPort = 19803, mUpdatingDNS = False,
      mInColdBoot = False, mAsyncMessage = [], mSessions = [], mListening = False, mLog = [],
      mScoreRules = [], mScoreInternal = True, settings = stored, timers = [], next_timer = 1,
      draws_used = 0, inbox = events, GlobalShutdown = False\<rparr>"

definition start_timers :: "server \<Rightarrow> server" where
  "start_timers s =
     (let (s1, fast) = start_timer_msecs (1000 * 5) s;
          (s2, boot) = start_timer_msecs (5 * 1000) s1;
          (s3, second) = start_timer_msecs 1000 s2
      in s3\<lparr>mFastTimer := fast, mBootstrapTimer := boot, mSecondTimer := second\<rparr>)"

definition install_system :: "server_env \<Rightarrow> sys \<Rightarrow> server \<Rightarrow> server" where
  "install_system env y s =
     (let (y1, msgs) = startup (os env) y
      in start_timers (initializeServer env (log_all env msgs (s\<lparr>mSystem := Some y1\<rparr>))))"

definition new_server :: "bool \<Rightarrow> server_env \<Rightarrow> file_map \<Rightarrow> server \<Rightarrow> server option" where
  "new_server garbage_is_null env fs s =
     (if \<not> garbage_is_null then None
      else do {
        s1 \<leftarrow> readSettings env s;
        y \<leftarrow> new_system (os env) False fs (mEnabled s1) (mNetworkInterface s1);
        Some (install_system env y s1) })"

definition service_start :: "nat \<Rightarrow> bool \<Rightarrow> server_env \<Rightarrow> file_map \<Rightarrow> server \<Rightarrow> run_result" where
  "service_start n garbage_is_null env fs s =
     after (returned (new_server garbage_is_null env fs s)) (runOnce n env (handle_event n env))"

definition service_pause :: "server \<Rightarrow> server" where
  "service_pause s = s\<lparr>mEnabled := False\<rparr>"

definition service_resume :: "server \<Rightarrow> server" where
  "service_resume s = s\<lparr>mEnabled := True\<rparr>"

definition signal_handler :: "server \<Rightarrow> server" where
  \<comment> \<open>\<open>hupSignalHandler\<close> and \<open>termSignalHandler\<close>\<close>
  "signal_handler s = s\<lparr>GlobalShutdown := True\<rparr>"

section \<open>Every handler keeps the invariant\<close>

definition server_inv :: "server \<Rightarrow> bool" where
  \<comment> \<open>and every active resolver has its address in the pool\<close>
  "server_inv s = (srv_ok [] s \<and> cache_hosts s \<subseteq> pool_hosts s)"

lemma server_inv_log [simp, intro]:
  "server_inv s \<Longrightarrow> server_inv (log_msg env m s)" "server_inv s \<Longrightarrow> server_inv (log_all env ms s)"
  by (simp_all add: server_inv_def)

lemma server_inv_cong:
  "server_inv s \<Longrightarrow> srv_heap t = srv_heap s \<Longrightarrow> mResolverPool t = mResolverPool s \<Longrightarrow>
   mResolverCache t = mResolverCache s \<Longrightarrow> mLog t = mLog s \<Longrightarrow> mSystem t = mSystem s \<Longrightarrow> server_inv t"
  using srv_ok_cong [of "[]" s t] by (simp add: server_inv_def cache_hosts_def pool_hosts_def)

lemma server_inv_system:
  assumes "with_system f s = Some (t, r)" "server_inv s"
    "\<And>y y1 r. f y = (y1, r) \<Longrightarrow> pool_ok (mTestDomains y) \<Longrightarrow> pool_ok (mTestDomains y1)"
  shows "server_inv t"
proof -
  have "srv_ok [] t" using srv_ok_system [OF assms(1)] assms(2,3) unfolding server_inv_def by metis
  moreover have "cache_hosts t = cache_hosts s" "pool_hosts t = pool_hosts s"
    using assms(1) by (auto elim!: with_system_upd simp: cache_hosts_def pool_hosts_def)
  ultimately show ?thesis using assms(2) by (simp add: server_inv_def)
qed

lemma server_inv_sys:
  "server_inv s \<Longrightarrow> pool_ok (mTestDomains y) \<Longrightarrow> server_inv (s\<lparr>mSystem := Some y\<rparr>)"
  by (simp add: server_inv_def srv_ok_def sys_ok_def cache_hosts_def pool_hosts_def)

lemma server_inv_heap:
  "server_inv s \<Longrightarrow> pools_ok h [mResolverPool s, mResolverCache s] \<Longrightarrow> host_of h = host_of (srv_heap s) \<Longrightarrow>
   server_inv (s\<lparr>srv_heap := h\<rparr>)"
  by (simp add: server_inv_def srv_ok_def sys_ok_def cache_hosts_def pool_hosts_def)

lemma server_inv_updateDNS: "updateDNS env n s = Some (t, rc) \<Longrightarrow> server_inv s \<Longrightarrow> server_inv t"
  unfolding server_inv_def using updateDNS_ok updateDNS_hosts by blast

lemma server_inv_cacheSize: "setResolverCacheSize env n s = Some t \<Longrightarrow> server_inv s \<Longrightarrow> server_inv t"
proof -
  assume r: "setResolverCacheSize env n s = Some t" and inv: "server_inv s"
  have "server_inv (s\<lparr>mResolverCacheSize := n\<rparr>)" by (rule server_inv_cong [OF inv]) simp_all
  then have "server_inv (log_msg env m (s\<lparr>mResolverCacheSize := n\<rparr>))" for m by (rule server_inv_log)
  then show "server_inv t"
    using r inv by (auto simp: setResolverCacheSize_def Let_def split: if_splits dest: server_inv_updateDNS)
qed

lemma server_inv_refresh:
  assumes "setRefreshPeriod env n s = Some t" "server_inv s" shows "server_inv t"
proof -
  have "srv_ok [] t" using setRefreshPeriod_ok [OF assms(1)] assms(2) unfolding server_inv_def by blast
  moreover have "srv_heap t = srv_heap s \<and> mResolverPool t = mResolverPool s \<and> mResolverCache t = mResolverCache s"
    using assms(1) by (auto simp: setRefreshPeriod_def Let_def stop_refresh_def start_refresh_def
        start_timer_msecs_def kill_timer_def split: if_splits)
  ultimately show ?thesis using assms(2) by (simp add: server_inv_def cache_hosts_def pool_hosts_def)
qed

lemma server_inv_apply: "server_inv s \<Longrightarrow> server_inv (apply_options env s)"
proof (cases "mSystem s")
  case (Some y)
  assume inv: "server_inv s"
  obtain y1 msgs where e: "OsSystem.setEnabled (os env) (mEnabled s) y = (y1, msgs)"
    by (cases "OsSystem.setEnabled (os env) (mEnabled s) y") auto
  have "pool_ok (mTestDomains y)" using inv Some by (simp add: server_inv_def srv_ok_def sys_ok_def)
  then have "pool_ok (mTestDomains (setInterfaceName (mNetworkInterface s) y1))"
    using setEnabled_frame [OF e] by (simp add: setInterfaceName_def)
  then show ?thesis using Some e inv server_inv_sys by (simp add: apply_options_def)
qed (simp add: apply_options_def)

lemma server_inv_readSettings: "readSettings env s = Some t \<Longrightarrow> server_inv s \<Longrightarrow> server_inv t"
proof -
  assume r: "readSettings env s = Some t" and inv: "server_inv s"
  define s0 where "s0 = s\<lparr>mTcpListenPort := to_int (setting s ''tcp_listen_port'' (VInt 19803))\<rparr>"
  obtain s1 s2 p n where s1: "setRefreshPeriod env p s0 = Some s1"
    and s2: "setResolverCacheSize env n s1 = Some s2" and t: "t = apply_options env (load_options s2)"
    using r by (auto simp: readSettings_def bind_eq_Some_conv s0_def)
  have "server_inv s0" by (rule server_inv_cong [OF inv]) (simp_all add: s0_def)
  then have "server_inv s2" using s1 s2 server_inv_refresh server_inv_cacheSize by blast
  then have "server_inv (load_options s2)" by (rule server_inv_cong) (simp_all add: load_options_def)
  then show "server_inv t" unfolding t by (rule server_inv_apply)
qed

lemma interfaceName_domains:
  "interfaceName env y = (y1, r) \<Longrightarrow> pool_ok (mTestDomains y) \<Longrightarrow> pool_ok (mTestDomains y1)"
  using interfaceName_frame by metis

lemma server_inv_writeSettings: "writeSettings env s = Some t \<Longrightarrow> server_inv s \<Longrightarrow> server_inv t"
proof -
  assume w: "writeSettings env s = Some t" and inv: "server_inv s"
  obtain m where m: "m = ''>> '' @ settings_file env" by blast
  obtain s1 iface s2 e where a: "with_system (interfaceName (os env)) (log_msg env m s) = Some (s1, iface)"
    and b: "with_system (\<lambda>y. (y, sys_enabled y)) s1 = Some (s2, e)"
    and t: "t = (if save_status env = NoError then store_settings e iface s2
      else log_msg env (''** SETTINGS '' @ settings_file env @ '' -'' @ settings_reason (save_status env)) s2)"
    using w by (auto simp: writeSettings_def bind_eq_Some_conv m simp del: append.simps)
  have "server_inv s1" using server_inv_system [OF a] inv interfaceName_domains by blast
  then have s2: "server_inv s2" using server_inv_system [OF b] by blast
  have "server_inv (store_settings e iface s2)"
    by (rule server_inv_cong [OF s2]) (simp_all add: store_settings_def)
  with s2 show "server_inv t" by (simp add: t)
qed

lemma server_inv_newConnection: "server_inv s \<Longrightarrow> server_inv (newConnection env ns s)"
proof (induction env ns s rule: newConnection.induct)
  case (2 env n waiting s)
  have "server_inv (s\<lparr>mSessions := mSessions s @ [n]\<rparr>)" by (rule server_inv_cong [OF 2(2)]) simp_all
  with 2(1) show ?case by simp
qed simp

lemma getSystemResolverList_domains:
  "getSystemResolverList env y = (y1, r) \<Longrightarrow> pool_ok (mTestDomains y) \<Longrightarrow> pool_ok (mTestDomains y1)"
  by (auto simp: getSystemResolverList_def linux_getSystemResolverList_def dest: win_get_frame split: platform.splits)

lemma server_inv_poll:
  "pollKeyValue env key s = Some (t, v) \<Longrightarrow> server_inv s \<Longrightarrow> server_inv t"
  unfolding pollKeyValue_def
  by (auto split: if_splits elim!: server_inv_system
      dest: getSystemResolverList_domains getTestDomains_ok interfaceName_domains split: prod.splits)

lemma server_inv_note [simp, intro]: "server_inv s \<Longrightarrow> server_inv (note_change b m s)"
  by (erule server_inv_cong) (simp_all add: note_change_def)

lemma server_inv_async: "server_inv s \<Longrightarrow> server_inv (s\<lparr>mAsyncMessage := m\<rparr>)"
  by (erule server_inv_cong) simp_all

lemma server_inv_save: "save_list save env ls a b s = Some t \<Longrightarrow> server_inv s \<Longrightarrow> server_inv t"
  by (auto simp: save_list_def bind_eq_Some_conv intro!: server_inv_async elim!: server_inv_system split: prod.splits)

lemma setEnabled_domains:
  "OsSystem.setEnabled env b y = (y1, r) \<Longrightarrow> pool_ok (mTestDomains y) \<Longrightarrow> pool_ok (mTestDomains y1)"
  using setEnabled_frame by metis

lemma server_inv_enable: "enable_system env b s = Some t \<Longrightarrow> server_inv s \<Longrightarrow> server_inv t"
proof -
  assume e: "enable_system env b s = Some t" and inv: "server_inv s"
  obtain s1 old m s3 msgs where a: "with_system (\<lambda>y. (y, sys_enabled y)) s = Some (s1, old)"
    and c: "with_system (OsSystem.setEnabled (os env) b) (note_change (b \<noteq> old) m s1) = Some (s3, msgs)"
    and t: "t = log_all env msgs s3"
    using e by (auto simp: enable_system_def bind_eq_Some_conv Let_def)
  have "server_inv s1" using server_inv_system [OF a inv] by blast
  then have "server_inv s3" using server_inv_system [OF c] setEnabled_domains by blast
  then show "server_inv t" by (simp add: t)
qed

lemma map_fst_conv: "map_option (\<lambda>t. (t, n)) x = Some (t', n') \<longleftrightarrow> x = Some t' \<and> n' = n"
  by auto

lemma server_inv_entry:
  assumes "data_entry env key value (s, n) = Some (t, n')" "server_inv s" shows "server_inv t"
proof -
  have opts: "server_inv (s\<lparr>mScoreRules := x\<rparr>)" "server_inv (s\<lparr>mScoreInternal := b\<rparr>)" for x b
    by (rule server_inv_cong [OF assms(2)], simp_all)+
  have iface: "server_inv u" if "with_system (\<lambda>y. (setInterfaceName x y, ())) s = Some (u, r)" for x u r
    by (rule server_inv_system [OF that assms(2)]) (auto simp: setInterfaceName_def)
  show ?thesis
    using assms opts
    by (auto simp: data_entry_def Let_def map_fst_conv split: if_splits
        dest!: server_inv_cacheSize server_inv_refresh server_inv_save server_inv_updateDNS
          server_inv_enable iface)
qed

lemma server_inv_entries:
  "data_entries env es (s, n) = Some (t, n') \<Longrightarrow> server_inv s \<Longrightarrow> server_inv t"
proof (induction es arbitrary: s n)
  case (Cons e es)
  obtain key val where e: "e = (key, val)" by (cases e)
  with Cons.prems(1) obtain s1 n1 where "data_entry env key val (s, n) = Some (s1, n1)"
    "data_entries env es (s1, n1) = Some (t, n')"
    by (auto simp: bind_eq_Some_conv)
  with Cons server_inv_entry show ?case by blast
qed simp

lemma server_inv_dataReady: "dataReady env (s, n) = Some (t, n') \<Longrightarrow> server_inv s \<Longrightarrow> server_inv t"
proof -
  assume d: "dataReady env (s, n) = Some (t, n')" and inv: "server_inv s"
  obtain s1 n1 where e: "(if isLive (snd (s, n)) then data_entries env (mData (mRXPacket (snd (s, n)))) (s, n)
        else Some (s, n)) = Some (s1, n1)"
    and w: "writeSettings env s1 = Some t"
    using d unfolding dataReady_def by (auto simp only: bind_eq_Some_conv split_paired_all prod.case option.inject prod.inject)
  from e have "server_inv s1" using inv server_inv_entries by (auto split: if_splits)
  then show "server_inv t" using w server_inv_writeSettings by blast
qed

text \<open>The slots of a session, whose state is undefined once a handler was.\<close>

definition slot_inv :: "server option \<Rightarrow> bool" where
  "slot_inv so = (\<forall>s. so = Some s \<longrightarrow> server_inv s)"

lemma slot_poll: "poll_slot env key so = (so', v) \<Longrightarrow> slot_inv so \<Longrightarrow> slot_inv so'"
  by (auto simp: poll_slot_def slot_inv_def split: option.splits dest: server_inv_poll)

lemma slot_ready: "ready_slot env (so, n) = (so', n') \<Longrightarrow> slot_inv so \<Longrightarrow> slot_inv so'"
  by (auto simp: ready_slot_def slot_inv_def split: option.splits dest: server_inv_dataReady)

lemma slot_values: "poll_values (poll_slot env) keys (so, n) = (so', n') \<Longrightarrow> slot_inv so \<Longrightarrow> slot_inv so'"
proof (induction keys arbitrary: so n)
  case (Cons k ks)
  obtain s1 v where p: "poll_slot env k so = (s1, v)" by (cases "poll_slot env k so") auto
  with Cons.prems have "poll_values (poll_slot env) ks (s1, case v of Some x \<Rightarrow> tx_set k x n | None \<Rightarrow> n) = (so', n')"
    by simp
  then show ?case using Cons.IH slot_poll [OF p Cons.prems(2)] by blast
qed simp

lemma slot_entries: "poll_entries (poll_slot env) es (so, n) = (so', n') \<Longrightarrow> slot_inv so \<Longrightarrow> slot_inv so'"
proof (induction es arbitrary: so n)
  case (Cons e es)
  obtain key val where e: "e = (key, val)" by (cases e)
  obtain s1 n1 where x: "(if key = ''poll_keys'' then poll_values (poll_slot env) (to_strs val) (so, n) else (so, n)) = (s1, n1)"
    by (cases "if key = ''poll_keys'' then poll_values (poll_slot env) (to_strs val) (so, n) else (so, n)") auto
  have "slot_inv s1" using x Cons.prems(2) slot_values by (auto split: if_splits)
  moreover have "poll_entries (poll_slot env) es (s1, n1) = (so', n')" using Cons.prems(1) x by (simp add: e)
  ultimately show ?case using Cons.IH by blast
qed simp

lemma slot_net_ready:
  assumes "net_dataReady put (poll_slot env) (ready_slot env) (so, n) = (so', n')" "slot_inv so"
  shows "slot_inv so'"
proof -
  obtain s1 n1 where p: "poll_entries (poll_slot env) (mData (mRXPacket n)) (so, n) = (s1, n1)"
    by (cases "poll_entries (poll_slot env) (mData (mRXPacket n)) (so, n)") auto
  have "slot_inv s1" using slot_entries [OF p assms(2)] .
  then show ?thesis using assms(1) p slot_ready
    by (auto simp: net_dataReady_def Let_def split: if_splits)
qed

lemma server_inv_session: "session_readable env i bytes s = Some t \<Longrightarrow> server_inv s \<Longrightarrow> server_inv t"
proof (cases "i < length (mSessions s)")
  case True
  assume r: "session_readable env i bytes s = Some t" and inv: "server_inv s"
  define n where "n = (mSessions s ! i)\<lparr>sock_in := sock_in (mSessions s ! i) @ bytes\<rparr>"
  obtain so n1 where rr: "readyRead (put_map env) (get_map env) (poll_slot env) (ready_slot env) (Some s, n) = (so, n1)"
    by (cases "readyRead (put_map env) (get_map env) (poll_slot env) (ready_slot env) (Some s, n)") auto
  have "slot_inv (Some s)" using inv by (simp add: slot_inv_def)
  then have "slot_inv so"
    using rr slot_net_ready by (auto simp: readyRead_def Let_def split: if_splits prod.splits)
  moreover obtain u where "so = Some u" "t = u\<lparr>mSessions := (mSessions u)[i := n1]\<rparr>"
    using r rr True by (auto simp: session_readable_def n_def)
  ultimately have "server_inv u" by (simp add: slot_inv_def)
  then show "server_inv t" by (rule server_inv_cong) (simp_all add: \<open>t = _\<close>)
qed (auto simp: session_readable_def)

lemma server_inv_purge: "server_inv s \<Longrightarrow> server_inv (purgeDeadSesssions env s)"
  by (auto simp: purgeDeadSesssions_def intro!: server_inv_log intro: server_inv_cong split: prod.splits)

lemma server_inv_prune: "server_inv s \<Longrightarrow> server_inv (pruneLog s)"
  by (simp add: server_inv_def srv_ok_def pruneLog_def sys_ok_def cache_hosts_def pool_hosts_def)

lemma server_inv_initialize: "server_inv s \<Longrightarrow> server_inv (initializeServer env s)"
proof -
  assume "server_inv s"
  then have "server_inv (s\<lparr>mListening := True\<rparr>)" by (rule server_inv_cong) simp_all
  with \<open>server_inv s\<close> show ?thesis by (simp add: initializeServer_def)
qed

lemma server_inv_test: "server_inv s \<Longrightarrow> server_inv (fst (testResolverCache env s))"
  by (auto simp: testResolverCache_def split: option.splits)

lemma server_inv_active: "refresh_active env force s = Some t \<Longrightarrow> server_inv s \<Longrightarrow> server_inv t"
  using server_inv_test [of s env]
  by (auto simp: refresh_active_def split: if_splits prod.splits dest: server_inv_updateDNS)

lemma server_inv_resolver_event: "resolver_event env a i l p s = Some t \<Longrightarrow> server_inv s \<Longrightarrow> server_inv t"
proof (cases "live (srv_heap s) a \<and> i = mQueryIntervalTimer (objs (srv_heap s) a)")
  case True
  assume e: "resolver_event env a i l p s = Some t" and inv: "server_inv s"
  obtain s1 domain st r where w: "with_system (randomDomain (os env) p) s = Some (s1, Some domain)"
    and r: "resolver_timerEvent (l\<lparr>l_domain := domain\<rparr>) a i (q_statics (srv_heap s1)) (objs (srv_heap s1) a) = Some (st, r)"
    and t: "t = s1\<lparr>srv_heap := (update_obj a (\<lambda>_. r) (srv_heap s1))\<lparr>q_statics := st\<rparr>\<rparr>"
    using e True by (auto simp: resolver_event_def bind_eq_Some_conv)
  have "pool_ok (mTestDomains y1)" if "randomDomain (os env) p y = (y1, q)" "pool_ok (mTestDomains y)" for y y1 q
    using that getTestDomains_ok by (auto simp: randomDomain_def split: prod.splits)
  then have "server_inv s1" using server_inv_system [OF w inv] by blast
  moreover from this have "pools_ok ((update_obj a (\<lambda>_. r) (srv_heap s1))\<lparr>q_statics := st\<rparr>) [mResolverPool s1, mResolverCache s1]"
    using pools_ok_set resolver_timerEvent_frame [OF r] by (simp add: server_inv_def srv_ok_def)
  moreover have "host_of ((update_obj a (\<lambda>_. r) (srv_heap s1))\<lparr>q_statics := st\<rparr>) = host_of (srv_heap s1)"
    using resolver_timerEvent_frame [OF r] by (simp add: fun_eq_iff host_of_def)
  ultimately show "server_inv t" using server_inv_heap unfolding t by blast
qed (auto simp: resolver_event_def)

lemma server_inv_query_event: "query_event f a k s = Some t \<Longrightarrow> server_inv s \<Longrightarrow> server_inv t"
proof -
  assume e: "query_event f a k s = Some t" and inv: "server_inv s"
  have "pools_ok (update_obj a (\<lambda>r. r\<lparr>mQueries := (mQueries r)[k := q]\<rparr>) (srv_heap s)) [mResolverPool s, mResolverCache s]" for q
    using pools_ok_update inv by (simp add: server_inv_def srv_ok_def)
  moreover have "host_of (update_obj a (\<lambda>r. r\<lparr>mQueries := (mQueries r)[k := q]\<rparr>) (srv_heap s)) = host_of (srv_heap s)" for q
    by (simp add: fun_eq_iff host_of_def)
  ultimately have "server_inv (s\<lparr>srv_heap := update_obj a (\<lambda>r. r\<lparr>mQueries := (mQueries r)[k := q]\<rparr>) (srv_heap s)\<rparr>)" for q
    using server_inv_heap [OF inv] by blast
  then show "server_inv t" using e inv by (auto simp: query_event_def bind_eq_Some_conv split: if_splits)
qed

section \<open>The loops and the event loop\<close>

definition all_ok :: "(server \<Rightarrow> bool) \<Rightarrow> run_result \<Rightarrow> bool" where
  "all_ok P r = (case r of Runs s \<Rightarrow> P s | Exits s \<Rightarrow> P s | Stuck \<Rightarrow> True)"

lemma all_ok_simps [simp]: "all_ok P (Runs s) = P s" "all_ok P (Exits s) = P s" "all_ok P Stuck"
  by (simp_all add: all_ok_def)

lemma all_ok_after: "all_ok P r \<Longrightarrow> (\<And>t. P t \<Longrightarrow> all_ok P (f t)) \<Longrightarrow> all_ok P (after r f)"
  by (cases r) simp_all

lemma all_ok_returned: "(\<And>t. so = Some t \<Longrightarrow> P t) \<Longrightarrow> all_ok P (returned so)"
  by (auto simp: returned_def split: option.splits)

definition handler_ok :: "handler \<Rightarrow> bool" where
  "handler_ok handle = (\<forall>e s. server_inv s \<longrightarrow> all_ok server_inv (handle e s))"

lemma server_inv_inbox: "server_inv s \<Longrightarrow> server_inv (s\<lparr>inbox := es\<rparr>)"
  by (erule server_inv_cong) simp_all

lemma delay_loop_inv:
  "handler_ok handle \<Longrightarrow> server_inv s \<Longrightarrow> all_ok server_inv (delay_loop k handle n s)"
proof (induction k arbitrary: s)
  case (Suc k)
  show ?case
  proof (cases "inbox s")
    case (Cons e es)
    have "all_ok server_inv (handle e (s\<lparr>inbox := es\<rparr>))"
      using Suc.prems server_inv_inbox unfolding handler_ok_def by blast
    then have "all_ok server_inv (after (handle e (s\<lparr>inbox := es\<rparr>)) (delay_loop k handle n))"
      by (rule all_ok_after) (use Suc in blast)
    with Cons Suc.prems show ?thesis by simp
  qed (use Suc.prems in simp)
qed simp

lemma delay_inv: "handler_ok handle \<Longrightarrow> server_inv s \<Longrightarrow> all_ok server_inv (delay k handle n s)"
  unfolding delay_def by (rule delay_loop_inv) (auto intro: server_inv_cong)

lemma server_inv_bootstrap: "bootstrapResolvers env s = Some (t, rc) \<Longrightarrow> server_inv s \<Longrightarrow> server_inv t"
  unfolding server_inv_def using bootstrap_ok [of env s t rc "[]"] by blast

lemma cold_loop_inv:
  "handler_ok handle \<Longrightarrow> server_inv s \<Longrightarrow> all_ok server_inv (cold_loop k env handle s)"
proof (induction k arbitrary: s)
  case (Suc k)
  show ?case
  proof (cases "mResolversInitialized s \<or> bootstrapResolvers env s = None")
    case False
    then obtain s1 rc where b: "bootstrapResolvers env s = Some (s1, rc)" by auto
    have s1: "server_inv s1" using server_inv_bootstrap [OF b] Suc.prems by blast
    have "all_ok server_inv (if mResolversInitialized s1 then Runs (initializeServer env s1)
        else delay k handle 5 (log_msg env ''** COLD BOOT FAILED - RETRY IN 5 SECONDS **'' s1))"
      using s1 server_inv_initialize delay_inv [OF Suc.prems(1)] by simp
    then have "all_ok server_inv (after (if mResolversInitialized s1 then Runs (initializeServer env s1)
        else delay k handle 5 (log_msg env ''** COLD BOOT FAILED - RETRY IN 5 SECONDS **'' s1)) (cold_loop k env handle))"
      by (rule all_ok_after) (use Suc in blast)
    with False b show ?thesis by simp
  qed (use Suc.prems in auto)
qed simp

lemma coldBoot_inv:
  assumes "handler_ok handle" "server_inv s" shows "all_ok server_inv (coldBoot k env handle s)"
proof (cases "mInColdBoot s")
  case False
  have "server_inv (s\<lparr>mInColdBoot := True\<rparr>)" by (rule server_inv_cong [OF assms(2)]) simp_all
  then have "server_inv (log_all env [''** COLD BOOT **'', copyright env, license] (s\<lparr>mInColdBoot := True\<rparr>))"
    by (rule server_inv_log)
  then have "all_ok server_inv (returned (readSettings env (log_all env [''** COLD BOOT **'', copyright env, license] (s\<lparr>mInColdBoot := True\<rparr>))))"
    using server_inv_readSettings by (blast intro: all_ok_returned)
  then show ?thesis unfolding coldBoot_def using False
  proof (simp only: if_True not_False_eq_True, intro all_ok_after)
    fix t assume "server_inv t"
    then show "all_ok server_inv (cold_loop k env handle t)" using cold_loop_inv assms(1) by blast
  next
    fix u assume "server_inv u"
    then have "server_inv (u\<lparr>mInColdBoot := False\<rparr>)" by (rule server_inv_cong) simp_all
    then show "all_ok server_inv (Runs (u\<lparr>mInColdBoot := False\<rparr>))" by simp
  qed
qed (use assms in \<open>simp add: coldBoot_def\<close>)

lemma refreshResolvers_inv:
  assumes "handler_ok handle" "server_inv s" shows "all_ok server_inv (refreshResolvers k env handle force s)"
  unfolding refreshResolvers_def
  by (intro all_ok_after all_ok_returned)
    (use assms coldBoot_inv server_inv_active in \<open>auto\<close>)

lemma runOnce_inv:
  assumes "handler_ok handle" "server_inv s" shows "all_ok server_inv (runOnce k env handle s)"
  unfolding runOnce_def
proof (intro all_ok_after all_ok_returned)
  show "server_inv t" if "readSettings env s = Some t" for t
    using server_inv_readSettings [OF that assms(2)] .
  show "all_ok server_inv (refreshResolvers k env handle False t)" if "server_inv t" for t
    using refreshResolvers_inv [OF assms(1) that] .
qed (auto intro: server_inv_prune server_inv_purge)

lemma shutdown_domains:
  "OsSystem.shutdown env y = (y1, r) \<Longrightarrow> pool_ok (mTestDomains y) \<Longrightarrow> pool_ok (mTestDomains y1)"
  using shutdown_frame by metis

lemma shut_down_inv: "server_inv s \<Longrightarrow> all_ok server_inv (shut_down env s)"
  by (auto simp: shut_down_def split: option.splits dest: server_inv_system shutdown_domains)

lemma bootstrap_tick_inv: "server_inv s \<Longrightarrow> server_inv (bootstrap_tick s)"
  by (erule server_inv_cong) (simp_all add: bootstrap_tick_def kill_timer_def Let_def)

lemma server_timerEvent_inv:
  assumes "handler_ok handle" "server_inv s" shows "all_ok server_inv (server_timerEvent k env handle i s)"
proof -
  have second: "server_inv (s\<lparr>mSeconds := n\<rparr>)" for n by (rule server_inv_cong [OF assms(2)]) simp_all
  have boot: "all_ok server_inv (after (if b then refreshResolvers k env handle True s else Runs s) (\<lambda>s1. Runs (bootstrap_tick s1)))" for b
    by (rule all_ok_after) (use assms refreshResolvers_inv bootstrap_tick_inv in auto)
  have "all_ok server_inv (returned (readSettings env s))"
    using server_inv_readSettings assms(2) by (blast intro: all_ok_returned)
  then show ?thesis
    using second boot assms runOnce_inv refreshResolvers_inv shut_down_inv
    by (auto simp: server_timerEvent_def Let_def)
qed

lemma handle_event_ok: "handler_ok (handle_event n env)"
proof (induction n)
  case (Suc n)
  show ?case unfolding handler_ok_def
  proof (intro allI impI)
    fix e s assume inv: "server_inv s"
    show "all_ok server_inv (handle_event (Suc n) env e s)"
      using inv server_timerEvent_inv [OF Suc inv] server_inv_newConnection
      by (cases e) (auto intro!: all_ok_returned dest: server_inv_session server_inv_resolver_event server_inv_query_event)
  qed
qed (simp add: handler_ok_def)

text \<open>What happens to the server: events, signals, and the service manager's requests.\<close>

inductive server_step :: "server_env \<Rightarrow> server \<Rightarrow> server \<Rightarrow> bool" for env where
  handled: "handle_event n env e s = Runs t \<Longrightarrow> server_step env s t"
| signalled: "server_step env s (signal_handler s)"
| paused: "server_step env s (service_pause s)"
| resumed: "server_step env s (service_resume s)"

inductive_cases server_stepE: "server_step env s t"

definition server_init :: "server_env \<Rightarrow> server \<Rightarrow> bool" where
  "server_init env t =
     (\<exists>null fs junk st stored events. new_server null env fs (blank_server junk st stored events) = Some t)"

lemma blank_server_inv: "server_inv (blank_server junk st stored events)"
  by (auto simp: server_inv_def srv_ok_def pools_ok_def heap_inv_def blank_server_def sys_ok_def cache_hosts_def
      held_def live_def max_log_lines_def)

lemma new_server_inv: "new_server null env fs s = Some t \<Longrightarrow> server_inv s \<Longrightarrow> server_inv t"
proof -
  assume t: "new_server null env fs s = Some t" and inv: "server_inv s"
  obtain s1 y where r: "readSettings env s = Some s1"
    and y: "new_system (os env) False fs (mEnabled s1) (mNetworkInterface s1) = Some y"
    and t0: "t = install_system env y s1"
    using t by (auto simp: new_server_def bind_eq_Some_conv split: if_splits)
  obtain y1 msgs where u: "startup (os env) y = (y1, msgs)" by (cases "startup (os env) y") auto
  have t': "t = start_timers (initializeServer env (log_all env msgs (s1\<lparr>mSystem := Some y1\<rparr>)))"
    using t0 u by (simp add: install_system_def)
  have "mTestDomains y1 = []" using y startup_frame [OF u] by (auto simp: new_system_def split: if_splits)
  then have "server_inv (s1\<lparr>mSystem := Some y1\<rparr>)"
    using server_inv_readSettings [OF r inv] server_inv_sys by (simp add: pool_ok_def pool_toStringList_def)
  then have "server_inv (initializeServer env (log_all env msgs (s1\<lparr>mSystem := Some y1\<rparr>)))"
    by (intro server_inv_initialize server_inv_log)
  then show "server_inv t" unfolding t'
    by (rule server_inv_cong) (simp_all add: start_timers_def start_timer_msecs_def Let_def)
qed

interpretation server_life: invariant_system "server_init env" "server_step env" server_inv for env
proof (unfold_locales, goal_cases)
  case (1 s)
  then show ?case using new_server_inv blank_server_inv by (auto simp: server_init_def)
next
  case (2 s t)
  from 2(2,1) show ?case
  proof cases
    case (handled n e)
    with 2(1) handle_event_ok [of n env] show ?thesis unfolding handler_ok_def by (metis all_ok_simps(1))
  qed (auto simp: signal_handler_def service_pause_def service_resume_def elim: server_inv_cong)
qed

section \<open>Properties\<close>

lemma sample_server_inv: "server_inv sample_server"
  using sample_server_ok by (simp add: server_inv_def cache_hosts_def sample_server_def)

text \<open>C2: in every state the service can reach, through any sequence of events, signals and requests
  of the service manager, each resolver the pool or the active list points to is allocated and
  counts at least those references, no address occurs twice in the pool or in the active list,
  every active resolver has its address in the pool, and the log has at most 100 lines.\<close>

theorem service_invariant:
  assumes "reachable (server_init env) (server_step env) s"
  shows "(\<forall>a \<in> set (mResolverPool s) \<union> set (mResolverCache s). live (srv_heap s) a \<and>
      int (count_list (mResolverPool s) a + count_list (mResolverCache s) a) \<le> mRefCount (objs (srv_heap s) a)) \<and>
    distinct (map (host_of (srv_heap s)) (mResolverPool s)) \<and>
    distinct (map (host_of (srv_heap s)) (mResolverCache s)) \<and>
    cache_hosts s \<subseteq> pool_hosts s \<and> length (mLog s) \<le> 100"
proof -
  have ok: "pools_ok (srv_heap s) [mResolverPool s, mResolverCache s]" "length (mLog s) \<le> 100"
    "cache_hosts s \<subseteq> pool_hosts s"
    using server_life.reach_inv [OF assms] by (simp_all add: server_inv_def srv_ok_def max_log_lines_def)
  have "live (srv_heap s) a" if "a \<in> set (mResolverPool s) \<union> set (mResolverCache s)" for a
    using that pools_ok_live [OF ok(1)] by auto
  then show ?thesis
    using ok pools_okD [OF ok(1)] heap_invD(1) [OF pools_okD(1) [OF ok(1)]] by (fastforce simp: held_def)
qed

lemma sample_start: "\<exists>t. new_server True sample_senv sample_files (blank_server 0 st (\<lambda>_. None) es) = Some t"
proof -
  have "\<exists>t. readSettings sample_senv (blank_server 0 st (\<lambda>_. None) es) = Some t"
    by (simp add: readSettings_def setting_def blank_server_def setRefreshPeriod_def Let_def stop_refresh_def
        start_refresh_def start_timer_msecs_def int_ok_def setResolverCacheSize_def updateDNS_def run_update_def)
  then show ?thesis by (auto simp: new_server_def new_system_def)
qed

lemma service_invariant_witness:
  "\<exists>s. reachable (server_init sample_senv) (server_step sample_senv) s \<and> GlobalShutdown s \<and>
     length (mLog s) \<le> 100 \<and> distinct (map (host_of (srv_heap s)) (mResolverPool s))"
proof -
  obtain t where "new_server True sample_senv sample_files (blank_server 0 \<lparr>mQueryCount = 0, mMasterTid = 0\<rparr> (\<lambda>_. None) []) = Some t"
    using sample_start by blast
  then have "reachable (server_init sample_senv) (server_step sample_senv) t"
    unfolding server_init_def by (intro reachable.initial) blast
  then have r: "reachable (server_init sample_senv) (server_step sample_senv) (signal_handler t)"
    by (rule reachable.stepped) (rule signalled)
  moreover have "GlobalShutdown (signal_handler t)" by (simp add: signal_handler_def)
  ultimately show ?thesis using service_invariant [OF r] by blast
qed

text \<open>C1: an update of the DNS ranks the resolvers: on a Linux machine whose resolv.conf can be
  written, with the built-in score, it returns; the pool is then sorted by falling score and has
  the same members. When the first \<open>n\<close> of it are worth taking they become the active resolvers
  and resolv.conf holds exactly their addresses, in order; otherwise the active resolvers and
  the system stay as they were.\<close>

theorem update_ranks:
  assumes "srv_ok [] s" "\<not> mUpdatingDNS s" "mResolverPool s \<noteq> []" "mScoreInternal s" "0 < n"
    "platform_of (os env) = Linux" "can_write (os env) resolve_conf" "mSystem s = Some y"
  shows "\<exists>t rc. updateDNS env n s = Some (t, rc) \<and> \<not> mUpdatingDNS t \<and>
    sorted_desc dlt (score_of (srv_heap t)) (mResolverPool t) \<and> mset (mResolverPool t) = mset (mResolverPool s) \<and>
    (let best = take (nat n) (mResolverPool t)
     in if worth_replacing (host_of (srv_heap t)) best (mResolverCache s)
        then mResolverCache t = best \<and> rc = int (length best) \<and>
          (\<exists>y'. mSystem t = Some y' \<and>
            files y' = (files y)(resolve_conf \<mapsto> conf_text (map (host_of (srv_heap t)) best)))
        else mResolverCache t = mResolverCache s \<and> rc = 0 \<and> mSystem t = Some y)"
proof -
  have "mSystem s \<noteq> None" using assms(8) by simp
  then obtain t rc where u: "updateDNS env n s = Some (t, rc)" using updateDNS_returns by blast
  moreover have "\<not> mUpdatingDNS t" using u assms(2) by (auto simp: updateDNS_def bind_eq_Some_conv)
  ultimately show ?thesis using updateDNS_linux [OF u assms] by blast
qed

lemma sample_pool_size: "size (mset (mResolverPool sample_server)) = 2"
  by (simp add: sample_server_def)

lemma update_ranks_witness:
  "\<exists>t y'. updateDNS sample_senv 1 sample_server = Some (t, 1) \<and> mSystem t = Some y' \<and>
     files y' resolve_conf = Some (conf_text (map (host_of (srv_heap t)) (take 1 (mResolverPool t))))"
proof -
  have s: "\<not> mUpdatingDNS sample_server" "mResolverPool sample_server \<noteq> []" "mScoreInternal sample_server"
    "(0 :: int) < 1" "mSystem sample_server = Some sample_sys"
    by (simp_all add: sample_server_def)
  have e: "platform_of (os sample_senv) = Linux" "can_write (os sample_senv) resolve_conf" by simp_all
  obtain t rc where t: "updateDNS sample_senv 1 sample_server = Some (t, rc)"
    and m: "mset (mResolverPool t) = mset (mResolverPool sample_server)"
    and b: "let best = take (nat 1) (mResolverPool t)
      in if worth_replacing (host_of (srv_heap t)) best (mResolverCache sample_server)
         then mResolverCache t = best \<and> rc = int (length best) \<and>
           (\<exists>y'. mSystem t = Some y' \<and>
             files y' = (files sample_sys)(resolve_conf \<mapsto> conf_text (map (host_of (srv_heap t)) best)))
         else mResolverCache t = mResolverCache sample_server \<and> rc = 0 \<and> mSystem t = Some sample_sys"
    using update_ranks [OF sample_server_ok s(1-4) e s(5)] by blast
  have "length (mResolverPool t) = 2" using m by (metis size_mset sample_pool_size)
  moreover have "worth_replacing h (take 1 p) (mResolverCache sample_server)" for h p
    by (simp add: worth_replacing_def sample_server_def)
  ultimately show ?thesis using t b by (auto simp: Let_def)
qed

text \<open>The sessions \<open>purgeDeadSesssions\<close> keeps: after taking one out it skips the next.\<close>

fun skip_dead :: "net list \<Rightarrow> net list" where
  "skip_dead [] = []"
| "skip_dead (x # xs) =
     (if isLive x then x # skip_dead xs else (case xs of [] \<Rightarrow> [] | y # ys \<Rightarrow> y # skip_dead ys))"

lemma purge_loop_skip: "n \<le> length xs \<Longrightarrow> \<exists>k. purge_loop env n xs = (take n xs @ skip_dead (drop n xs), k) \<and>
    k + length (skip_dead (drop n xs)) = length (drop n xs)"
proof (induction env n xs rule: purge_loop.induct)
  case (1 env n xs)
  show ?case
  proof (cases "n < length xs")
    case True
    then have d: "drop n xs = xs ! n # drop (Suc n) xs" "take (Suc n) xs = take n xs @ [xs ! n]"
      by (simp_all add: Cons_nth_drop_Suc take_Suc_conv_app_nth)
    show ?thesis
    proof (cases "isLive (xs ! n)")
      case live: True
      then show ?thesis using 1(2) True d by (auto simp: purge_loop.simps [of env n xs])
    next
      case dead: False
      show ?thesis
      proof (cases "drop (Suc n) xs")
        case Nil
        then show ?thesis using True dead d by (simp add: purge_loop.simps take_at_def)
      next
        case (Cons y ys)
        then have len: "Suc n \<le> length (take_at n xs)" using True by (simp add: take_at_def)
        have t: "take (Suc n) (take_at n xs) = take n xs @ [y]" "drop (Suc n) (take_at n xs) = ys"
          using True Cons by (simp_all add: take_at_def)
        show ?thesis
          using 1(1) [OF True _ len] dead True Cons d t by (auto simp: purge_loop.simps [of env n xs])
      qed
    qed
  qed (simp add: purge_loop.simps)
qed

lemma skip_dead_live: "filter isLive (skip_dead xs) = filter isLive xs"
  by (induction xs rule: skip_dead.induct) (auto split: list.splits)

lemma skip_dead_apart:
  "successively (\<lambda>a b. isLive a \<or> isLive b) xs \<Longrightarrow> skip_dead xs = filter isLive xs"
proof (induction xs rule: skip_dead.induct)
  case (2 x xs)
  then show ?case by (cases xs) (auto simp: successively_Cons split: list.splits)
qed simp

text \<open>C40: clearing out dead sessions never drops a live one and keeps their order; it removes every
  dead session when no two of them are neighbours, but keeps the second of each pair that are.\<close>

theorem purge_outcome:
  "filter isLive (mSessions (purgeDeadSesssions env s)) = filter isLive (mSessions s) \<and>
   mSessions (purgeDeadSesssions env s) = skip_dead (mSessions s) \<and>
   (successively (\<lambda>a b. isLive a \<or> isLive b) (mSessions s) \<longrightarrow>
      mSessions (purgeDeadSesssions env s) = filter isLive (mSessions s))"
proof -
  have "mSessions (purgeDeadSesssions env s) = skip_dead (mSessions s)"
    using purge_loop_skip [of 0 "mSessions s" env] by (auto simp: purgeDeadSesssions_def)
  then show ?thesis using skip_dead_live skip_dead_apart by simp
qed

lemma purge_outcome_witness:
  "mSessions (purgeDeadSesssions sample_senv (sample_server\<lparr>mSessions := [new_net False, new_net True, new_net False]\<rparr>))
     = [new_net True]"
  using purge_outcome [of sample_senv "sample_server\<lparr>mSessions := [new_net False, new_net True, new_net False]\<rparr>"]
  by (simp add: new_net_def isLive_def)

text \<open>The bootstrap timer fires 26 times: it is left alone by the first 25 ticks, and the next
  one stops it and frees its id.\<close>

theorem bootstrap_ticks:
  assumes "mBootstrapTicks s = 0" "mBootstrapTimer s = i" "0 \<le> i"
  shows "(n \<le> 25 \<longrightarrow> timers ((bootstrap_tick ^^ n) s) = timers s \<and> mBootstrapTimer ((bootstrap_tick ^^ n) s) = i) \<and>
    timers ((bootstrap_tick ^^ 26) s) = filter (\<lambda>x. fst x \<noteq> i) (timers s) \<and>
    mBootstrapTimer ((bootstrap_tick ^^ 26) s) = -1"
proof -
  have run: "n \<le> 25 \<Longrightarrow> (bootstrap_tick ^^ n) s = s\<lparr>mBootstrapTicks := int n\<rparr>" for n
    using assms(1) by (induction n) (simp_all add: bootstrap_tick_def)
  have "(bootstrap_tick ^^ Suc 25) s = bootstrap_tick (s\<lparr>mBootstrapTicks := 25\<rparr>)"
    using run [of 25] by (simp only: funpow.simps comp_apply) simp
  then have last: "(bootstrap_tick ^^ 26) s = bootstrap_tick (s\<lparr>mBootstrapTicks := 25\<rparr>)" by (simp only: Suc_numeral add_num_simps)
  show ?thesis unfolding last using run assms(2,3) by (simp add: bootstrap_tick_def kill_timer_def Let_def)
qed

lemma bootstrap_ticks_witness: "mBootstrapTimer ((bootstrap_tick ^^ 26) sample_server) = -1"
  using bootstrap_ticks [of sample_server 3 0] by (simp add: sample_server_def)

section \<open>The cold boot\<close>

text \<open>What reading the settings leaves alone while the pool is empty.\<close>

definition core :: "server \<Rightarrow> heap \<times> pool \<times> pool \<times> bool \<times> bool \<times> (string \<Rightarrow> variant option)" where
  "core s = (srv_heap s, mResolverPool s, mResolverCache s, mResolversInitialized s, mListening s, settings s)"

lemma core_log [simp]: "core (log_msg env m s) = core s" "core (log_all env ms s) = core s"
  by (simp_all add: core_def)

lemma updateDNS_empty:
  assumes "mResolverPool s = []"
  shows "\<exists>t. updateDNS env n s = Some (t, 0) \<and> core t = core s \<and> mSystem t = mSystem s \<and>
    mResolverCacheSize t = mResolverCacheSize s"
proof -
  have "core (u\<lparr>mUpdatingDNS := b\<rparr>) = core u" for u b by (simp add: core_def)
  then show ?thesis using assms by (simp add: updateDNS_def run_update_def)
qed

lemma setResolverCacheSize_empty:
  assumes "mResolverPool s = []"
  shows "\<exists>t. setResolverCacheSize env n s = Some t \<and> core t = core s \<and> mSystem t = mSystem s \<and>
    (0 \<le> n \<longrightarrow> mResolverCacheSize t = n)"
proof (cases "mResolverCacheSize s \<noteq> n \<and> 0 \<le> n")
  case True
  define u where "u = log_msg env (''** ACTIVE CACHE SET TO '' @ number n @ '' RESOLVERS **'') (s\<lparr>mResolverCacheSize := n\<rparr>)"
  have u: "core u = core s" "mSystem u = mSystem s" "mResolverCacheSize u = n" "mResolverPool u = []"
    using assms by (simp_all add: u_def core_def)
  obtain t where "updateDNS env n u = Some (t, 0)" "core t = core u" "mSystem t = mSystem u" "mResolverCacheSize t = mResolverCacheSize u"
    using updateDNS_empty [OF u(4)] by blast
  moreover have "setResolverCacheSize env n s = map_option fst (updateDNS env n u)"
    using True unfolding setResolverCacheSize_def u_def Let_def by simp
  ultimately show ?thesis using u by simp
qed (auto simp: setResolverCacheSize_def)

lemma setRefreshPeriod_returns:
  "int_ok (n * 60 * 1000) \<Longrightarrow> \<exists>t. setRefreshPeriod env n s = Some t \<and> core t = core s \<and> mSystem t = mSystem s \<and>
    (0 \<le> n \<longrightarrow> mRefreshTimerPeriod t = n)"
  by (simp add: setRefreshPeriod_def Let_def core_def stop_refresh_def start_refresh_def start_timer_msecs_def kill_timer_def)

lemma readSettings_empty:
  assumes "mResolverPool s = []" "mSystem s = Some y" "to_bool (setting s ''enabled'' (VBool True)) = sys_enabled y"
    "0 \<le> to_int (setting s ''resolver_cache_size'' (VInt 3))"
    "int_ok (to_int (setting s ''refresh_timer_period'' (VInt 1)) * 60 * 1000)"
  shows "\<exists>t i. readSettings env s = Some t \<and> core t = core s \<and> mSystem t = Some (setInterfaceName i y) \<and>
    mResolverCacheSize t = to_int (setting s ''resolver_cache_size'' (VInt 3))"
proof -
  let ?n = "to_int (setting s ''resolver_cache_size'' (VInt 3))" and ?p = "to_int (setting s ''refresh_timer_period'' (VInt 1))"
  define s0 where "s0 = s\<lparr>mTcpListenPort := to_int (setting s ''tcp_listen_port'' (VInt 19803))\<rparr>"
  have s0: "core s0 = core s" "mSystem s0 = Some y" using assms(2) by (simp_all add: s0_def core_def)
  obtain s1 where s1: "setRefreshPeriod env ?p s0 = Some s1" "core s1 = core s0" "mSystem s1 = mSystem s0"
    using setRefreshPeriod_returns [OF assms(5)] by blast
  have "mResolverPool s1 = []" using s1(2) s0(1) assms(1) by (simp add: core_def)
  then obtain s2 where s2: "setResolverCacheSize env ?n s1 = Some s2" "core s2 = core s1" "mSystem s2 = mSystem s1"
    "mResolverCacheSize s2 = ?n"
    using setResolverCacheSize_empty [of s1 env ?n] assms(4) by auto
  define t where "t = apply_options env (load_options s2)"
  have "settings s2 = settings s" using s2(2) s1(2) s0(1) by (simp add: core_def)
  then have "mEnabled (load_options s2) = sys_enabled y" using assms(3) by (simp add: load_options_def setting_def)
  then have t: "t = (load_options s2)\<lparr>mSystem := Some (setInterfaceName (mNetworkInterface (load_options s2)) y)\<rparr>"
    using s2(3) s1(3) s0(2) by (simp add: t_def apply_options_def load_options_def OsSystem.setEnabled_def)
  have "core t = core s" using s2(2) s1(2) s0(1) by (simp add: t core_def load_options_def)
  moreover have "readSettings env s = Some t" using s1(1) s2(1) by (simp add: readSettings_def s0_def t_def)
  moreover have "mResolverCacheSize t = ?n" using s2(4) by (simp add: t load_options_def)
  ultimately show ?thesis by (auto simp: t)
qed

lemma cold_loop_done: "mResolversInitialized s \<Longrightarrow> cold_loop k env handle s = Runs s"
  by (cases k) simp_all

lemma initialize_frame [simp]:
  "srv_heap (initializeServer env s) = srv_heap s" "mResolverPool (initializeServer env s) = mResolverPool s"
  "mResolverCache (initializeServer env s) = mResolverCache s" "mSystem (initializeServer env s) = mSystem s"
  "mResolversInitialized (initializeServer env s) = mResolversInitialized s"
  "settings (initializeServer env s) = settings s" "can_listen env \<Longrightarrow> mListening (initializeServer env s)"
  by (auto simp: initializeServer_def)

lemma domains_interface: "snd (getTestDomains env (setInterfaceName i y)) = snd (getTestDomains env y)"
  by (simp add: getTestDomains_def setInterfaceName_def)

text \<open>A cold boot on Linux, with the port free or not.\<close>

lemma cold_boot_outcome:
  assumes "server_inv s" "mSystem s = Some y" "mResolverPool s = []" "\<not> mResolversInitialized s" "\<not> mInColdBoot s"
    "to_bool (setting s ''enabled'' (VBool True)) = sys_enabled y"
    "1 \<le> to_int (setting s ''resolver_cache_size'' (VInt 3))"
    "int_ok (to_int (setting s ''refresh_timer_period'' (VInt 1)) * 60 * 1000)"
    "platform_of (os env) = Linux" "can_write (os env) resolve_conf"
    "domains_short (snd (getTestDomains (os env) y))" "draws_fair env"
  shows "\<exists>t y'. coldBoot (Suc k) env handle s = Runs t \<and> mResolversInitialized t \<and> (can_listen env \<longrightarrow> mListening t) \<and> \<not> mInColdBoot t \<and>
    server_inv t \<and> mResolverCache t \<noteq> [] \<and>
    parse_host (os env) ` set (nonblank (getBootstrapT1List (os env) (files y))) \<subseteq> pool_hosts t \<and>
    settings t = settings s \<and> mSystem t = Some y' \<and> files y' resolve_conf = Some (conf_text (map (host_of (srv_heap t)) (mResolverCache t)))"
proof -
  define s0 where "s0 = log_all env [''** COLD BOOT **'', copyright env, license] (s\<lparr>mInColdBoot := True\<rparr>)"
  have c0: "core s0 = core s" "mSystem s0 = Some y" using assms(2) by (simp_all add: s0_def core_def del: log_all.simps)
  have sets: "settings s0 = settings s" "mResolverPool s0 = []" using c0(1) assms(3) by (simp_all add: core_def)
  have "server_inv (s\<lparr>mInColdBoot := True\<rparr>)"
    by (rule server_inv_cong [of s]) (use assms(1) in \<open>simp_all\<close>)
  then have inv0: "server_inv s0" unfolding s0_def by (rule server_inv_log)
  obtain u i where u: "readSettings env s0 = Some u" "core u = core s0" "mSystem u = Some (setInterfaceName i y)"
    "mResolverCacheSize u = to_int (setting s ''resolver_cache_size'' (VInt 3))"
    using readSettings_empty [OF sets(2) c0(2), of env] assms(6,7,8) sets(1) by (auto simp: setting_def)
  have "srv_ok [] u" using server_inv_readSettings [OF u(1) inv0] by (simp add: server_inv_def)
  moreover have "files (setInterfaceName i y) = files y" by (simp add: setInterfaceName_def)
  moreover have "1 \<le> mResolverCacheSize u" using u(4) assms(7) by simp
  ultimately obtain v rc y' where b: "bootstrapResolvers env u = Some (v, rc)" "mResolversInitialized v" "srv_ok [] v"
      "mResolverCache v \<noteq> []" "cache_hosts v \<subseteq> pool_hosts v"
      "parse_host (os env) ` set (nonblank (getBootstrapT1List (os env) (files y))) \<subseteq> pool_hosts v"
      "mSystem v = Some y'" "files y' resolve_conf = Some (conf_text (map (host_of (srv_heap v)) (mResolverCache v)))"
    using bootstrap_linux [of u "setInterfaceName i y" env] u(3) assms(9-12) domains_interface by auto
  have "settings v = settings u"
    using bootstrap_ok [OF b(1) \<open>srv_ok [] u\<close>] by (simp add: config_def)
  then have kept: "settings v = settings s" using u(2) c0(1) by (simp add: core_def)
  define t where "t = (initializeServer env v)\<lparr>mInColdBoot := False\<rparr>"
  have "\<not> mResolversInitialized u" using u(2) c0(1) assms(4) by (simp add: core_def)
  then have "coldBoot (Suc k) env handle s = Runs t"
    using u(1) b(1,2) assms(5) cold_loop_done [of "initializeServer env v"]
    by (simp add: coldBoot_def s0_def t_def returned_def)
  moreover have "server_inv t" unfolding t_def
    by (rule server_inv_cong [OF server_inv_initialize]) (use b(3,5) in \<open>simp_all add: server_inv_def\<close>)
  moreover have "pool_hosts t = pool_hosts v" by (simp add: t_def pool_hosts_def)
  ultimately show ?thesis using b kept by (auto simp: t_def)
qed

text \<open>C5: A cold boot completes on a Linux machine whose resolv.conf can be written and whose port is
  free, within one pass of its loop: the service then listens, every T1 host of the bootstrap file is
  in the pool, and the active resolvers, at least one and all of the pool, are the name servers of
  resolv.conf, in order.\<close>

theorem cold_boot_serves:
  assumes "server_inv s" "mSystem s = Some y" "mResolverPool s = []" "\<not> mResolversInitialized s" "\<not> mInColdBoot s"
    "to_bool (setting s ''enabled'' (VBool True)) = sys_enabled y"
    "1 \<le> to_int (setting s ''resolver_cache_size'' (VInt 3))"
    "int_ok (to_int (setting s ''refresh_timer_period'' (VInt 1)) * 60 * 1000)"
    "platform_of (os env) = Linux" "can_write (os env) resolve_conf" "can_listen env"
    "domains_short (snd (getTestDomains (os env) y))" "draws_fair env"
  shows "\<exists>t y'. coldBoot (Suc k) env handle s = Runs t \<and> mResolversInitialized t \<and> mListening t \<and> \<not> mInColdBoot t \<and>
    server_inv t \<and> mResolverCache t \<noteq> [] \<and> cache_hosts t \<subseteq> pool_hosts t \<and>
    parse_host (os env) ` set (nonblank (getBootstrapT1List (os env) (files y))) \<subseteq> pool_hosts t \<and>
    mSystem t = Some y' \<and> files y' resolve_conf = Some (conf_text (map (host_of (srv_heap t)) (mResolverCache t)))"
  using cold_boot_outcome [OF assms(1-10,12,13), of k handle] assms(11) by (auto simp: server_inv_def)

lemma cold_boot_serves_witness:
  "\<exists>s t. coldBoot (Suc 0) sample_senv (handle_event 0 sample_senv) s = Runs t \<and> mListening t \<and> ''1.2.3.4'' \<in> pool_hosts t"
proof -
  define s where "s = sample_server\<lparr>mResolverPool := [], mResolversInitialized := False\<rparr>"
  have "srv_ok [] (sample_server\<lparr>mResolverPool := pool_clear (mResolverPool sample_server)\<rparr>)"
    by (rule srv_ok_clear_pool [OF sample_server_ok])
  then have "srv_ok [] s" by (rule srv_ok_cong) (simp_all add: s_def pool_clear_def)
  then have ok: "server_inv s" by (simp add: server_inv_def s_def cache_hosts_def sample_server_def)
  have s: "mSystem s = Some sample_sys" "mResolverPool s = []" "\<not> mResolversInitialized s" "\<not> mInColdBoot s"
    "to_bool (setting s ''enabled'' (VBool True)) = sys_enabled sample_sys"
    "1 \<le> to_int (setting s ''resolver_cache_size'' (VInt 3))"
    "int_ok (to_int (setting s ''refresh_timer_period'' (VInt 1)) * 60 * 1000)"
    by (simp_all add: s_def sample_server_def setting_def sample_sys_def int_ok_def)
  have e: "platform_of (os sample_senv) = Linux" "can_write (os sample_senv) resolve_conf"
    "domains_short (snd (getTestDomains (os sample_senv) sample_sys))"
    using sample_domains by (simp_all add: sample_senv_def)
  have l: "can_listen sample_senv" by (simp add: sample_senv_def)
  have "''1.2.3.4'' \<in> parse_host (os sample_senv) ` set (nonblank (getBootstrapT1List (os sample_senv) (files sample_sys)))"
    by (simp add: sample_T1_list) (simp add: sample_os_def)
  then show ?thesis
    using cold_boot_serves [OF ok s e(1,2) l e(3) sample_draws_fair, of 0 "handle_event 0 sample_senv"] by blast
qed

lemma writeSettings_returns: "mSystem s \<noteq> None \<Longrightarrow> \<exists>t. writeSettings env s = Some t \<and> mSystem t \<noteq> None"
  by (auto simp: writeSettings_def with_system_def store_settings_def split: prod.splits)

text \<open>C27: the settings survive the file: read back right after they were saved, they change nothing but
  the two fields that mirror the system, its enabled flag and its interface; no timer is
  restarted, no update runs, nothing is logged.\<close>

theorem settings_roundtrip:
  assumes "writeSettings env s = Some t" "save_status env = NoError"
  shows "\<exists>y. mSystem t = Some y \<and>
    readSettings env t = Some (t\<lparr>mEnabled := sys_enabled y, mNetworkInterface := mInterfaceName y\<rparr>)"
proof -
  define l where "l = log_msg env (''>> '' @ settings_file env) s"
  obtain s1 iface s2 b where a: "with_system (interfaceName (os env)) l = Some (s1, iface)"
    and c: "with_system (\<lambda>y. (y, sys_enabled y)) s1 = Some (s2, b)" and t: "t = store_settings b iface s2"
    using assms unfolding writeSettings_def l_def [symmetric] by (auto simp: bind_eq_Some_conv)
  from c obtain y where y: "mSystem s1 = Some y" "b = sys_enabled y" "s2 = s1\<lparr>mSystem := Some y\<rparr>"
    by (rule with_system_upd) auto
  have iface: "iface = mInterfaceName y" using a by (rule with_system_upd) (use y(1) in \<open>auto simp: interfaceName_def Let_def split: if_splits\<close>)
  have ty: "mSystem t = Some y" by (simp add: t store_settings_def y(3))
  have stored: "setting t ''tcp_listen_port'' d = VInt (mTcpListenPort t)"
    "setting t ''refresh_timer_period'' d = VInt (mRefreshTimerPeriod t)"
    "setting t ''resolver_cache_size'' d = VInt (mResolverCacheSize t)"
    "setting t ''score_rules'' d = VStr (mScoreRules t)" "setting t ''score_internal'' d = VBool (mScoreInternal t)"
    "setting t ''enabled'' d = VBool (sys_enabled y)" "setting t ''network_interface'' d = VStr (mInterfaceName y)" for d
    by (simp_all add: setting_def t store_settings_def y(2) iface)
  have "readSettings env t = Some (apply_options env (load_options t))"
    by (simp add: readSettings_def stored setRefreshPeriod_def setResolverCacheSize_def)
  moreover have "apply_options env (load_options t) = t\<lparr>mEnabled := sys_enabled y, mNetworkInterface := mInterfaceName y\<rparr>"
    by (simp add: apply_options_def load_options_def stored ty OsSystem.setEnabled_def setInterfaceName_def)
  ultimately have "readSettings env t = Some (t\<lparr>mEnabled := sys_enabled y, mNetworkInterface := mInterfaceName y\<rparr>)"
    by simp
  with ty show ?thesis by simp
qed

lemma settings_roundtrip_witness:
  "\<exists>t y. writeSettings sample_senv sample_server = Some t \<and> mSystem t = Some y \<and>
     readSettings sample_senv t = Some (t\<lparr>mEnabled := sys_enabled y, mNetworkInterface := mInterfaceName y\<rparr>)"
proof -
  have y: "mSystem sample_server = Some sample_sys" by (simp add: sample_server_def)
  then obtain t where "writeSettings sample_senv sample_server = Some t"
    using writeSettings_returns [of sample_server sample_senv] by auto
  with settings_roundtrip [OF this] show ?thesis by auto
qed

section \<open>The timers always return\<close>

definition in_service :: "server \<Rightarrow> bool" where
  \<comment> \<open>what a running service needs: its system, its first boot done, a refresh period in range\<close>
  "in_service s =
     (mSystem s \<noteq> None \<and> mResolversInitialized s \<and>
      int_ok (to_int (setting s ''refresh_timer_period'' (VInt 1)) * 60 * 1000))"

lemma masked_fields:
  assumes "masked t = masked s"
  shows "mResolversInitialized t = mResolversInitialized s" "settings t = settings s"
  using arg_cong [OF assms, of mResolversInitialized] arg_cong [OF assms, of settings] by (simp_all add: masked_def)

lemma in_service_cong:
  "in_service s \<Longrightarrow> mSystem t \<noteq> None \<Longrightarrow> mResolversInitialized t = mResolversInitialized s \<Longrightarrow> settings t = settings s \<Longrightarrow>
   in_service t"
  by (simp add: in_service_def setting_def)

lemma in_service_log [simp]: "in_service s \<Longrightarrow> in_service (log_msg env m s)"
  "in_service s \<Longrightarrow> in_service (log_all env ms s)"
  by (simp_all add: in_service_def setting_def)

lemma updateDNS_runs:
  assumes "in_service s" shows "\<exists>t rc. updateDNS env n s = Some (t, rc) \<and> in_service t"
proof -
  have "system_has (\<lambda>y. True) s" using assms by (auto simp: in_service_def system_has_def)
  moreover obtain t rc where t: "updateDNS env n s = Some (t, rc)"
    using updateDNS_returns assms unfolding in_service_def by blast
  moreover have "mSystem t \<noteq> None" if "updateDNS env n s = Some (t, rc)" for t rc
    using any_system.updateDNS [OF that] calculation(1) system_has_present by blast
  ultimately show ?thesis
    using in_service_cong [OF assms] masked_fields [OF updateDNS_masked [OF t]] by blast
qed

lemma setRefreshPeriod_runs:
  assumes "in_service s" "int_ok (n * 60 * 1000)"
  shows "\<exists>t. setRefreshPeriod env n s = Some t \<and> in_service t"
proof -
  obtain t where t: "setRefreshPeriod env n s = Some t" "core t = core s" "mSystem t = mSystem s"
    using setRefreshPeriod_returns [OF assms(2)] by blast
  then have "in_service t"
    by (intro in_service_cong [OF assms(1)]) (use assms(1) in \<open>simp_all add: core_def in_service_def\<close>)
  with t(1) show ?thesis by blast
qed

lemma setResolverCacheSize_runs:
  assumes "in_service s" shows "\<exists>t. setResolverCacheSize env n s = Some t \<and> in_service t"
proof (cases "mResolverCacheSize s \<noteq> n \<and> 0 \<le> n")
  case True
  define l where "l = log_msg env (''** ACTIVE CACHE SET TO '' @ number n @ '' RESOLVERS **'') (s\<lparr>mResolverCacheSize := n\<rparr>)"
  have "in_service l" using assms by (simp add: l_def in_service_def setting_def)
  then obtain t rc where "updateDNS env (mResolverCacheSize l) l = Some (t, rc)" "in_service t"
    using updateDNS_runs by blast
  moreover have "setResolverCacheSize env n s = map_option fst (updateDNS env (mResolverCacheSize l) l)"
    using True unfolding setResolverCacheSize_def Let_def l_def by simp
  ultimately show ?thesis by simp
qed (use assms in \<open>auto simp: setResolverCacheSize_def\<close>)

lemma apply_options_runs: "in_service s \<Longrightarrow> in_service (apply_options env (load_options s))"
  by (auto simp: in_service_def apply_options_def load_options_def setting_def Let_def split: option.splits prod.splits)

lemma readSettings_runs:
  assumes "in_service s" shows "\<exists>t. readSettings env s = Some t \<and> in_service t"
proof -
  define s0 where "s0 = s\<lparr>mTcpListenPort := to_int (setting s ''tcp_listen_port'' (VInt 19803))\<rparr>"
  have s0: "in_service s0" using assms by (simp add: s0_def in_service_def setting_def)
  have fits: "int_ok (to_int (setting s ''refresh_timer_period'' (VInt 1)) * 60 * 1000)"
    using assms unfolding in_service_def by blast
  obtain s1 where s1: "setRefreshPeriod env (to_int (setting s ''refresh_timer_period'' (VInt 1))) s0 = Some s1" "in_service s1"
    using setRefreshPeriod_runs [OF s0 fits] by blast
  obtain s2 where s2: "setResolverCacheSize env (to_int (setting s ''resolver_cache_size'' (VInt 3))) s1 = Some s2" "in_service s2"
    using setResolverCacheSize_runs [OF s1(2)] by blast
  show ?thesis using s1(1) s2 apply_options_runs [OF s2(2)] by (simp add: readSettings_def s0_def)
qed

lemma refreshResolvers_runs:
  assumes "in_service s" shows "\<exists>t. refreshResolvers k env handle force s = Runs t \<and> in_service t"
proof -
  obtain s1 good where te: "testResolverCache env s = (s1, good)" by (cases "testResolverCache env s") auto
  then have s1: "in_service s1" using assms by (auto simp: testResolverCache_def split: option.splits)
  obtain t rc where t: "updateDNS env (mResolverCacheSize s) s = Some (t, rc)" "in_service t"
    using updateDNS_runs [OF assms] by blast
  obtain u rc' where u: "updateDNS env (mResolverCacheSize s1) s1 = Some (u, rc')" "in_service u"
    using updateDNS_runs [OF s1] by blast
  have "\<exists>v. refresh_active env force s = Some v \<and> in_service v"
    using te t u s1 by (auto simp: refresh_active_def)
  moreover have "mResolversInitialized s" using assms by (simp add: in_service_def)
  ultimately show ?thesis by (auto simp: refreshResolvers_def returned_def)
qed

lemma runOnce_runs:
  assumes "in_service s" shows "\<exists>t. runOnce k env handle s = Runs t \<and> in_service t"
proof -
  obtain s1 where s1: "readSettings env s = Some s1" "in_service s1" using readSettings_runs [OF assms] by blast
  obtain s2 where s2: "refreshResolvers k env handle False s1 = Runs s2" "in_service s2"
    using refreshResolvers_runs [OF s1(2)] by blast
  have "in_service (pruneLog (purgeDeadSesssions env s2))"
    using s2(2) by (auto simp: pruneLog_def purgeDeadSesssions_def in_service_def setting_def split: prod.splits)
  then show ?thesis using s1(1) s2 by (simp add: runOnce_def returned_def)
qed

text \<open>C3: no timer of a running service gets stuck: with its first boot done and a refresh period in
  range, the handler of every timer returns and leaves the service running and in that state,
  or, once a shutdown was signalled, ends it.\<close>

theorem timers_return:
  assumes "in_service s"
  shows "if GlobalShutdown s then \<exists>t. server_timerEvent k env handle i s = Exits t
    else \<exists>t. server_timerEvent k env handle i s = Runs t \<and> in_service t"
proof (cases "GlobalShutdown s")
  case True
  obtain t msgs where "with_system (shutdown (os env)) s = Some (t, msgs)"
    using with_system_returns [of s "shutdown (os env)"] assms by (auto simp: in_service_def)
  then show ?thesis using True by (simp add: server_timerEvent_def Let_def shut_down_def)
next
  case False
  obtain a where a: "runOnce k env handle s = Runs a" "in_service a" using runOnce_runs [OF assms] by blast
  obtain b where b: "readSettings env s = Some b" "in_service b" using readSettings_runs [OF assms] by blast
  obtain c where c: "refreshResolvers k env handle True s = Runs c" "in_service c"
    using refreshResolvers_runs [OF assms] by blast
  have tick: "in_service (bootstrap_tick x)" "in_service (x\<lparr>mSeconds := n\<rparr>)" if "in_service x" for x n
    using that by (simp_all add: bootstrap_tick_def kill_timer_def in_service_def setting_def Let_def)
  show ?thesis using False a b c tick assms by (auto simp: server_timerEvent_def Let_def returned_def)
qed

lemma timers_return_witness:
  "\<exists>t. server_timerEvent 0 sample_senv (handle_event 0 sample_senv) 2 sample_server = Runs t \<and> mResolversInitialized t"
proof -
  have "in_service sample_server" by (simp add: in_service_def sample_server_def setting_def int_ok_def)
  moreover have "\<not> GlobalShutdown sample_server" by (simp add: sample_server_def)
  ultimately show ?thesis
    using timers_return [of sample_server 0 sample_senv "handle_event 0 sample_senv" 2] by (auto simp: in_service_def)
qed

end
