(* ===== verification/Client.thy ===== *)
theory Client
  imports Net DnsQuery
begin

text \<open>
  \<open>client/opennic.cpp\<close> and \<open>client/opennicqueryhistorydialog.cpp\<close>: the tray applet. The
  widgets of the settings dialog are fields of the state, with the value each shows; a slot
  that a widget's signal calls is called by the model where the code changes the widget.
  None is an index out of range.
\<close>

section \<open>State\<close>

text \<open>A row of the table of resolvers; None: the cell has not been set.\<close>

record table_row =
  row_status :: "(string \<times> string) option"       \<comment> \<open>text and icon\<close>
  row_bar :: "((int \<times> int) \<times> int) option"        \<comment> \<open>range of the score bar, and the value it is given\<close>
  row_kind :: "string option"
  row_ip :: "string option"

text \<open>A column of the table to sort by, and whether in descending order.\<close>

type_synonym sort_key = "nat \<times> bool"

record client =
  mLocalNet :: net
  cl_port :: int
  mBalloonStatus :: string
  mActiveState :: bool
  mScoreRulesTextChanged :: bool
  refresh_interval :: int          \<comment> \<open>of the running refresh timer, in milliseconds\<close>
  connect_requests :: nat          \<comment> \<open>calls of \<open>connectToHost\<close>\<close>
  w_cache :: string
  w_refresh :: int
  w_count :: int
  w_t1 :: string
  w_domains :: string
  w_table :: "table_row list"      \<comment> \<open>the rows as they are shown\<close>
  w_sorting :: bool                \<comment> \<open>\<open>isSortingEnabled\<close> of the table\<close>
  w_sort :: sort_key               \<comment> \<open>its current sort section\<close>
  w_system :: string
  w_journal :: "string list"
  w_rules :: string
  w_builtin :: bool
  w_ifaces :: "string list"
  w_iface :: string
  w_enabled :: bool
  w_messages :: "string list"      \<comment> \<open>the message boxes shown\<close>
  w_active :: bool                 \<comment> \<open>\<open>refreshNow\<close>, \<open>buttonBox\<close>, \<open>resolverPool\<close>, \<open>scoreRuleEditor\<close> enabled\<close>
  w_apply :: bool                  \<comment> \<open>the Apply and OK buttons enabled\<close>
  w_visible :: bool                \<comment> \<open>the dialog is shown\<close>
  balloons :: "(bool \<times> string \<times> string) list"  \<comment> \<open>warning icon, title, body\<close>
  quits :: nat                     \<comment> \<open>\<open>quit\<close> signals\<close>

record client_env =
  cl_put_map :: "data_map \<Rightarrow> byte list"
  to_double :: "string \<Rightarrow> double"
  mean :: "double list \<Rightarrow> double"
  times1000 :: "double \<Rightarrow> double"    \<comment> \<open>\<open>x*1000.0\<close>, rounded\<close>
  sort_rows :: "sort_key \<Rightarrow> table_row list \<Rightarrow> table_row list"
    \<comment> \<open>\<open>sortByColumn\<close>\<close>
  sorted_place :: "sort_key \<Rightarrow> table_row list \<Rightarrow> nat \<Rightarrow> nat"
    \<comment> \<open>where a sorted table moves a row whose cell in the sort section has been set\<close>
  check_radio :: "bool \<Rightarrow> bool \<Rightarrow> bool"  \<comment> \<open>the state of a radio button after \<open>setChecked\<close>\<close>

definition spin :: "int \<Rightarrow> int \<Rightarrow> int \<Rightarrow> int" where
  \<comment> \<open>a spin box keeps its value within its range\<close>
  "spin lo hi v = max lo (min hi v)"

text \<open>The dialog as \<open>settings.ui\<close> sets it up.\<close>

definition new_client :: "net \<Rightarrow> client" where
  "new_client n =
     \<lparr>mLocalNet = n, cl_port = 0, mBalloonStatus = ''Initializing...'', mActiveState = False,
      mScoreRulesTextChanged = False, refresh_interval = 15 * 1000, connect_requests = 0,
      w_cache = [], w_refresh = 5, w_count = 3, w_t1 = [], w_domains = [], w_table = [],
      w_sorting = False, w_sort = (0, True),
      w_system = [], w_journal = [], w_rules = [], w_builtin = True, w_ifaces = [], w_iface = [],
      w_enabled = True, w_messages = [], w_active = False, w_apply = True, w_visible = False,
      balloons = [], quits = 0\<rparr>"

section \<open>The resolver pool table\<close>

fun nth_part :: "'a list \<Rightarrow> nat \<Rightarrow> 'a option" where
  "nth_part [] n = None"
| "nth_part (x # xs) 0 = Some x"
| "nth_part (x # xs) (Suc n) = nth_part xs n"

definition part :: "nat \<Rightarrow> string \<Rightarrow> string option" where
  "part n line = nth_part (split_on (CHR '';'') line) n"

fun min_max :: "double list \<Rightarrow> double \<Rightarrow> double \<Rightarrow> double \<times> double" where
  "min_max [] mn mx = (mn, mx)"
| "min_max (x # xs) mn mx =
     min_max xs (if dlt x mn then x else mn) (if dlt mx x then x else mx)"

fun parts_at :: "nat \<Rightarrow> string list \<Rightarrow> string list option" where
  "parts_at n [] = Some []"
| "parts_at n (l # ls) = do { p \<leftarrow> part n l; ps \<leftarrow> parts_at n ls; Some (p # ps) }"

definition scoreMinMax ::
  "client_env \<Rightarrow> string list \<Rightarrow> double \<Rightarrow> double \<Rightarrow> (double \<times> double \<times> double) option" where
  \<comment> \<open>the mean, and \<open>min\<close> and \<open>max\<close> as they were if the pool is empty\<close>
  "scoreMinMax env pool mn mx =
     (if length pool > 0 then
        do { ps \<leftarrow> parts_at 1 pool;
             let scores = map (to_double env) ps;
             let (a, b) = min_max (tl scores) (hd scores) (hd scores);
             Some (mean env scores, a, b) }
      else Some (Fin 0, mn, mx))"

definition status_text :: "string \<Rightarrow> string \<times> string" where
  "status_text st =
     (if st = ''R'' then (''FAIL'', '':/images/status-red.png'')
      else if st = ''G'' then (''OK'', '':/images/status-green.png'')
      else if st = ''Y'' then (''WARN'', '':/images/status-yellow.png'')
      else (st, []))"

text \<open>\<open>(int)x\<close> of a double: towards zero; outside the range of an int it is undefined.\<close>

definition toward_zero :: "rat \<Rightarrow> int" where
  "toward_zero q = (if q < 0 then - \<lfloor>- q\<rfloor> else \<lfloor>q\<rfloor>)"

fun to_int32 :: "double \<Rightarrow> int option" where
  "to_int32 (Fin q) =
     (if - (2 ^ 31) \<le> toward_zero q \<and> toward_zero q < 2 ^ 31 then Some (toward_zero q) else None)"
| "to_int32 _ = None"

definition blank_row :: table_row where
  "blank_row = \<lparr>row_status = None, row_bar = None, row_kind = None, row_ip = None\<rparr>"

definition setRowCount :: "nat \<Rightarrow> table_row list \<Rightarrow> table_row list" where
  "setRowCount n rows = take n rows @ replicate (n - length rows) blank_row"

definition move_row :: "nat \<Rightarrow> nat \<Rightarrow> 'r list \<Rightarrow> 'r list" where
  "move_row i j rows =
     (let others = take i rows @ drop (Suc i) rows in take j others @ [rows ! i] @ drop j others)"

text \<open>
  \<open>setItem\<close>: in a table that is sorted by this very column, the row moves to its sorted place at
  once. The state of the sorting is a pair of switch and key.
\<close>

definition set_item ::
  "client_env \<Rightarrow> bool \<times> sort_key \<Rightarrow> nat \<Rightarrow> nat \<Rightarrow> (table_row \<Rightarrow> table_row) \<Rightarrow> table_row list \<Rightarrow> table_row list" where
  "set_item env sorting row col f rows =
     (let rows1 = rows[row := f (rows ! row)]
      in if fst sorting \<and> fst (snd sorting) = col
         then move_row row (sorted_place env (snd sorting) rows1 row) rows1 else rows1)"

text \<open>One round of the loop of \<open>updateResolverPool\<close>. None: an element that is not there, or a score
  whose thousandfold is no int.\<close>

definition fill_row ::
  "client_env \<Rightarrow> bool \<times> sort_key \<Rightarrow> double \<Rightarrow> double \<Rightarrow> nat \<Rightarrow> string \<Rightarrow> table_row list \<Rightarrow> table_row list option" where
  "fill_row env sorting mn mx row line rows =
     do { ip \<leftarrow> part 3 line; kind \<leftarrow> part 2 line; score \<leftarrow> part 1 line; st \<leftarrow> part 0 line;
          let rows = set_item env sorting row 3 (\<lambda>r. r\<lparr>row_ip := Some ip\<rparr>) rows;
          let rows = set_item env sorting row 2 (\<lambda>r. r\<lparr>row_kind := Some kind\<rparr>) rows;
          lo \<leftarrow> to_int32 (times1000 env mn);
          hi \<leftarrow> to_int32 (times1000 env mx);
          v \<leftarrow> to_int32 (times1000 env (to_double env score));
          let rows = rows[row := (rows ! row)\<lparr>row_bar := Some ((lo, hi), v)\<rparr>];
          Some (set_item env sorting row 0 (\<lambda>r. r\<lparr>row_status := Some (status_text st)\<rparr>) rows) }"

fun fill_rows ::
  "client_env \<Rightarrow> bool \<times> sort_key \<Rightarrow> double \<Rightarrow> double \<Rightarrow> nat \<Rightarrow> string list \<Rightarrow> table_row list \<Rightarrow> table_row list option" where
  "fill_rows env sorting mn mx row [] rows = Some rows"
| "fill_rows env sorting mn mx row (l # ls) rows =
     do { rows \<leftarrow> fill_row env sorting mn mx row l rows; fill_rows env sorting mn mx (Suc row) ls rows }"

text \<open>
  \<open>sortByColumn\<close>, by the program or through a click on a header, which only a table with sorting
  enabled takes; \<open>setSortingEnabled\<close> sorts by the current section.
\<close>

definition sortByColumn :: "client_env \<Rightarrow> sort_key \<Rightarrow> client \<Rightarrow> client" where
  "sortByColumn env key c = c\<lparr>w_table := sort_rows env key (w_table c), w_sort := key\<rparr>"

definition header_clicked :: "client_env \<Rightarrow> sort_key \<Rightarrow> client \<Rightarrow> client" where
  "header_clicked env key c = (if w_sorting c then sortByColumn env key c else c)"

definition enable_sorting :: "client_env \<Rightarrow> client \<Rightarrow> client" where
  "enable_sorting env c = (sortByColumn env (w_sort c) c)\<lparr>w_sorting := True\<rparr>"

definition updateResolverPool :: "client_env \<Rightarrow> string list \<Rightarrow> client \<Rightarrow> client option" where
  "updateResolverPool env pool c =
     do { (_, mn, mx) \<leftarrow> scoreMinMax env pool (Fin 0) (Fin 0);
          rows \<leftarrow> fill_rows env (w_sorting c, w_sort c) mn mx 0 pool (setRowCount (length pool) (w_table c));
          Some (sortByColumn env (1, True) (enable_sorting env (c\<lparr>w_table := rows\<rparr>))) }"

section \<open>Requests to the service\<close>

definition cl_set :: "string \<Rightarrow> variant \<Rightarrow> client \<Rightarrow> client" where
  "cl_set key value c = c\<lparr>mLocalNet := tx_set key value (mLocalNet c)\<rparr>"

definition cl_send :: "client_env \<Rightarrow> client \<Rightarrow> client" where
  "cl_send env c = c\<lparr>mLocalNet := net_send (cl_put_map env) True (mLocalNet c)\<rparr>"

definition all_keys :: "string list" where
  "all_keys =
     [''tcp_listen_port'', ''refresh_timer_period'', ''resolver_cache_size'', ''resolver_cache'',
      ''resolver_pool'', ''bootstrap_t1_list'', ''bootstrap_domains'', ''system_text'',
      ''journal_text'', ''score_rules'', ''score_internal'', ''interface_list'', ''interface'',
      ''opennic_enabled'']"

definition periodic_keys :: "string list" where
  "periodic_keys =
     [''resolver_pool'', ''resolver_cache'', ''system_text'', ''journal_text'', ''interface_list'',
      ''interface'', ''opennic_enabled'']"

definition poll_for :: "client_env \<Rightarrow> string list \<Rightarrow> client \<Rightarrow> client" where
  "poll_for env keys c =
     (if isLive (mLocalNet c) then cl_send env (cl_set ''poll_keys'' (VList keys) c) else c)"

definition pollAllKeys :: "client_env \<Rightarrow> client \<Rightarrow> client" where
  "pollAllKeys env c = poll_for env all_keys c"

definition pollPeriodicKeys :: "client_env \<Rightarrow> client \<Rightarrow> client" where
  "pollPeriodicKeys env c = poll_for env periodic_keys c"

definition update_settings :: "client_env \<Rightarrow> client \<Rightarrow> client" where
  \<comment> \<open>\<open>update\<close>\<close>
  "update_settings env c =
     (let c1 = cl_set ''refresh_timer_period'' (VInt (w_refresh c)) c;
          c2 = cl_set ''resolver_cache_size'' (VInt (w_count c)) c1;
          c3 = cl_set ''score_rules'' (VStr (w_rules c)) c2;
          c4 = cl_set ''score_internal'' (VBool (w_builtin c)) c3;
          c5 = (if w_iface c \<noteq> [] then cl_set ''interface'' (VStr (w_iface c)) c4 else c4);
          c6 = cl_set ''opennic_enabled'' (VBool (w_enabled c)) c5
      in cl_send env c6)"

definition updateT1List :: "client_env \<Rightarrow> bool \<Rightarrow> client \<Rightarrow> client" where
  "updateT1List env confirmed c =
     (if confirmed
      then cl_send env (cl_set ''bootstrap_t1_list'' (VList (split_on nl (w_t1 c))) c) else c)"

definition updateDomains :: "client_env \<Rightarrow> bool \<Rightarrow> client \<Rightarrow> client" where
  "updateDomains env confirmed c =
     (if confirmed
      then cl_send env (cl_set ''bootstrap_domains'' (VList (split_on nl (w_domains c))) c) else c)"

definition client_updateDNS :: "client_env \<Rightarrow> client \<Rightarrow> client" where
  \<comment> \<open>the map is streamed without the length that \<open>OpenNICPacket::recv\<close> expects\<close>
  "client_updateDNS env c =
     c\<lparr>mLocalNet := (mLocalNet c)\<lparr>sock_out := sock_out (mLocalNet c) @
         cl_put_map env (qinsert ''update_dns'' (VStr []) [])\<rparr>\<rparr>"

section \<open>Data from the service\<close>

definition set_enabled_box :: "client_env \<Rightarrow> bool \<Rightarrow> client \<Rightarrow> client" where
  \<comment> \<open>\<open>stateChanged\<close> calls \<open>enabledChanged\<close>, which calls \<open>update\<close>\<close>
  "set_enabled_box env b c =
     (if w_enabled c \<noteq> b then update_settings env (c\<lparr>w_enabled := b\<rparr>) else c)"

definition set_interface_box :: "client_env \<Rightarrow> string \<Rightarrow> client \<Rightarrow> client" where
  \<comment> \<open>a combo box selects only what it lists; \<open>currentTextChanged\<close> calls \<open>update\<close>\<close>
  "set_interface_box env text c =
     (if text \<in> set (w_ifaces c) \<and> w_iface c \<noteq> text
      then update_settings env (c\<lparr>w_iface := text\<rparr>) else c)"

definition set_interface_list :: "string list \<Rightarrow> client \<Rightarrow> client" where
  \<comment> \<open>with the signals blocked\<close>
  "set_interface_list items c =
     c\<lparr>w_ifaces := items,
       w_iface := (if w_iface c \<noteq> [] \<and> w_iface c \<in> set items then w_iface c
                   else (case items of [] \<Rightarrow> [] | i # _ \<Rightarrow> i))\<rparr>"

definition show_journal :: "string list \<Rightarrow> string list \<Rightarrow> string list" where
  \<comment> \<open>all but the last 200 lines are taken out, then the new ones are added\<close>
  "show_journal old new = drop (length old - 200) old @ new"

definition client_entry :: "client_env \<Rightarrow> string \<Rightarrow> variant \<Rightarrow> client \<Rightarrow> client option" where
  "client_entry env key value c =
     (if key = ''tcp_listen_port'' then Some (c\<lparr>cl_port := to_int value\<rparr>)
      else if key = ''resolver_cache'' then
        do { ips \<leftarrow> parts_at 3 (to_strs value); Some (c\<lparr>w_cache := join_with [nl] ips\<rparr>) }
      else if key = ''refresh_timer_period'' then
        Some (if w_refresh c \<noteq> to_int value then c\<lparr>w_refresh := spin 1 9999 (to_int value)\<rparr> else c)
      else if key = ''resolver_cache_size'' then
        Some (if w_count c \<noteq> to_int value then c\<lparr>w_count := spin 1 100 (to_int value)\<rparr> else c)
      else if key = ''bootstrap_t1_list'' then Some (c\<lparr>w_t1 := join_with [nl] (to_strs value)\<rparr>)
      else if key = ''bootstrap_domains'' then Some (c\<lparr>w_domains := join_with [nl] (to_strs value)\<rparr>)
      else if key = ''resolver_pool'' then updateResolverPool env (to_strs value) c
      else if key = ''system_text'' then Some (c\<lparr>w_system := join_with [nl] (to_strs value)\<rparr>)
      else if key = ''journal_text'' then Some (c\<lparr>w_journal := show_journal (w_journal c) (to_strs value)\<rparr>)
      else if key = ''async_message'' \<and> to_str value \<noteq> [] then
        Some (c\<lparr>w_messages := w_messages c @ [to_str value]\<rparr>)
      else if key = ''score_rules'' \<and> to_str value \<noteq> [] then
        Some (c\<lparr>w_rules := to_str value, mScoreRulesTextChanged := True\<rparr>)
      else if key = ''score_internal'' then
        Some (c\<lparr>w_builtin := check_radio env (w_builtin c) (to_bool value)\<rparr>)
      else if key = ''interface_list'' then Some (set_interface_list (to_strs value) c)
      else if key = ''interface'' then Some (set_interface_box env (to_str value) c)
      else if key = ''opennic_enabled'' then Some (set_enabled_box env (to_bool value) c)
      else Some c)"

fun client_entries :: "client_env \<Rightarrow> data_map \<Rightarrow> client \<Rightarrow> client option" where
  "client_entries env [] c = Some c"
| "client_entries env ((key, value) # rest) c =
     do { c1 \<leftarrow> client_entry env key value c; client_entries env rest c1 }"

definition client_dataReady :: "client_env \<Rightarrow> client \<Rightarrow> client option" where
  "client_dataReady env c =
     client_entries env (mData (mRXPacket (mLocalNet c))) (c\<lparr>mBalloonStatus := []\<rparr>)"

section \<open>The connection\<close>

definition slowRefresh :: "client \<Rightarrow> client" where
  "slowRefresh c = c\<lparr>refresh_interval := 15 * 1000\<rparr>"

definition fastRefresh :: "client \<Rightarrow> client" where
  "fastRefresh c = c\<lparr>refresh_interval := 5 * 1000\<rparr>"

definition connectToService :: "client \<Rightarrow> client" where
  "connectToService c =
     (if \<not> isLive (mLocalNet c) then c\<lparr>connect_requests := connect_requests c + 1\<rparr> else c)"

definition setEnabledState :: "client \<Rightarrow> client" where
  "setEnabledState c = c\<lparr>mActiveState := True, w_active := True\<rparr>"

definition setDisabledState :: "client \<Rightarrow> client" where
  "setDisabledState c = c\<lparr>mActiveState := False, w_active := False\<rparr>"

definition tcpConnected :: "client_env \<Rightarrow> client \<Rightarrow> client" where
  "tcpConnected env c = pollAllKeys env (setEnabledState (c\<lparr>mBalloonStatus := ''Connecting...''\<rparr>))"

definition tcpDisconnected :: "client \<Rightarrow> client" where
  "tcpDisconnected c = c\<lparr>mBalloonStatus := ''OpenNIC Service closed the connection''\<rparr>"

definition close_socket :: "client \<Rightarrow> client" where
  "close_socket c = c\<lparr>mLocalNet := (mLocalNet c)\<lparr>sock_connected := False, sock_valid := False\<rparr>\<rparr>"

definition tcpError :: "bool \<Rightarrow> int \<Rightarrow> string \<Rightarrow> client \<Rightarrow> client" where
  "tcpError remote_closed code text c =
     (if \<not> remote_closed then
        slowRefresh (close_socket ((setDisabledState c)\<lparr>
          mBalloonStatus := ''Failed to connect to OpenNIC service. ['' @ number code @ ''] '' @ text\<rparr>))
      else c)"

datatype socket_state =
  UnconnectedState | HostLookupState | ConnectingState | ConnectedState | BoundState | ClosingState | ListeningState

definition tcpStateChanged :: "socket_state \<Rightarrow> client \<Rightarrow> client" where
  "tcpStateChanged st c = (if st = UnconnectedState \<or> st = ClosingState then close_socket c else c)"

definition client_timerEvent :: "client_env \<Rightarrow> bool \<Rightarrow> client \<Rightarrow> client" where
  "client_timerEvent env is_refresh c =
     (if is_refresh then pollPeriodicKeys env (connectToService c) else c)"

section \<open>The user\<close>

definition settings_dialog :: "client \<Rightarrow> client" where
  \<comment> \<open>\<open>settings\<close>\<close>
  "settings_dialog c = fastRefresh (c\<lparr>w_visible := True\<rparr>)"

definition closeEvent :: "client \<Rightarrow> client" where
  "closeEvent c = slowRefresh (c\<lparr>w_visible := False\<rparr>)"

datatype activation_reason = MiddleClick | Trigger | DoubleClick | OtherReason

definition showBalloonMessage :: "bool \<Rightarrow> string \<Rightarrow> string \<Rightarrow> client \<Rightarrow> client" where
  "showBalloonMessage warning title body c = c\<lparr>balloons := balloons c @ [(warning, title, body)]\<rparr>"

definition iconActivated :: "activation_reason \<Rightarrow> client \<Rightarrow> client" where
  "iconActivated reason c =
     (case reason of
        DoubleClick \<Rightarrow> settings_dialog c
      | OtherReason \<Rightarrow> c
      | _ \<Rightarrow>
          if mBalloonStatus c = [] then showBalloonMessage False ''OpenNIC Resolvers'' (w_cache c) c
          else showBalloonMessage True ''Status'' (mBalloonStatus c) c)"

definition maybeQuit :: "bool \<Rightarrow> client \<Rightarrow> client" where
  "maybeQuit yes c = (if yes then c\<lparr>quits := quits c + 1\<rparr> else c)"

datatype button_role = ApplyRole | AcceptRole | OtherRole

definition clicked :: "client_env \<Rightarrow> button_role \<Rightarrow> client \<Rightarrow> client" where
  "clicked env role c = (if role = ApplyRole then update_settings env c else c)"

definition tabChanged :: "int \<Rightarrow> client \<Rightarrow> client" where
  "tabChanged tab c = c\<lparr>w_apply := (tab = 1 \<or> tab = 2 \<or> tab = 5)\<rparr>"

definition scoreRuleEditorTextChanged :: "client \<Rightarrow> client" where
  "scoreRuleEditorTextChanged c = c\<lparr>mScoreRulesTextChanged := True\<rparr>"

definition cellClickToAddress :: "table_row list \<Rightarrow> nat \<Rightarrow> string option" where
  \<comment> \<open>None: there is no such item\<close>
  "cellClickToAddress rows row = do { r \<leftarrow> nth_part rows row; row_ip r }"

section \<open>OpenNICQueryHistoryDialog\<close>

record history_dialog =
  mAddress :: string
  busy :: bool
  history_rows :: "string list list"

definition history_poll :: "client_env \<Rightarrow> history_dialog \<times> net \<Rightarrow> history_dialog \<times> net" where
  "history_poll env dn =
     (let (d, n) = dn
      in if isLive n
         then (d\<lparr>busy := True\<rparr>,
               net_send (cl_put_map env) True (tx_set ''resolver_history'' (VStr (mAddress d)) n))
         else (d, n))"

definition new_history_dialog :: "client_env \<Rightarrow> string \<Rightarrow> net \<Rightarrow> history_dialog \<times> net" where
  "new_history_dialog env address n =
     history_poll env (\<lparr>mAddress = address, busy = False, history_rows = []\<rparr>, n)"

definition isMine :: "history_dialog \<Rightarrow> string list \<Rightarrow> bool" where
  "isMine d data = (length data > 0 \<and> hd (split_on (CHR '';'') (data ! 0)) = mAddress d)"

definition show_history :: "string list \<Rightarrow> history_dialog \<Rightarrow> history_dialog" where
  \<comment> \<open>\<open>history\<close>\<close>
  "show_history queries d = d\<lparr>history_rows := map (split_on (CHR '';'')) queries\<rparr>"

fun history_entries :: "data_map \<Rightarrow> history_dialog \<Rightarrow> history_dialog" where
  "history_entries [] d = d"
| "history_entries ((key, value) # rest) d =
     history_entries rest
       (if key = ''resolver_history'' \<and> isMine d (to_strs value)
        then show_history (to_strs value) (d\<lparr>busy := False\<rparr>) else d)"

definition history_dataReady :: "net \<Rightarrow> history_dialog \<Rightarrow> history_dialog" where
  "history_dataReady n d = history_entries (mData (mRXPacket n)) d"

definition history_timerEvent :: "client_env \<Rightarrow> bool \<Rightarrow> history_dialog \<times> net \<Rightarrow> history_dialog \<times> net" where
  "history_timerEvent env is_mine dn = (if is_mine then history_poll env dn else dn)"

text \<open>The dialogs the applet keeps: a click opens one, \<open>closing\<close> drops it.\<close>

definition cellClicked ::
  "client_env \<Rightarrow> table_row list \<Rightarrow> nat \<Rightarrow> history_dialog list \<times> net \<Rightarrow> (history_dialog list \<times> net) option" where
  "cellClicked env shown row dsn =
     do { address \<leftarrow> cellClickToAddress shown row;
          let (d, n) = new_history_dialog env address (snd dsn);
          Some (fst dsn @ [d], n) }"

definition cellDoubleClicked ::
  "client_env \<Rightarrow> table_row list \<Rightarrow> nat \<Rightarrow> history_dialog list \<times> net \<Rightarrow> (history_dialog list \<times> net) option" where
  "cellDoubleClicked env shown row dsn = cellClicked env shown row dsn"

definition closing :: "nat \<Rightarrow> 'd list \<Rightarrow> 'd list" where
  "closing idx ds = (if idx < length ds then take_at idx ds else ds)"

end
