(* ===== verification/Protocol.thy ===== *)
theory Protocol
  imports Server Client
begin

text \<open>
  What the service and the applet agree on: the kind of value that goes with each key, in the
  applet's packets (\<open>client/opennic.cpp\<close>, \<open>update\<close> and its neighbours) and in the service's answers
  (\<open>server/opennicserver.cpp\<close>, \<open>pollKeyValue\<close>). A QVariant carries its kind, but both sides convert
  whatever they get (\<open>toInt\<close>, \<open>toBool\<close>, ...), so a disagreement would go unnoticed and give 0,
  false or an empty text.
\<close>

section \<open>The kinds of the values\<close>

datatype kind = KInt | KBool | KText | KList

fun as_kind :: "kind option \<Rightarrow> variant \<Rightarrow> variant" where
  \<comment> \<open>what is left of a value that is read as a value of that kind\<close>
  "as_kind (Some KInt) v = VInt (to_int v)"
| "as_kind (Some KBool) v = VBool (to_bool v)"
| "as_kind (Some KText) v = VStr (to_str v)"
| "as_kind (Some KList) v = VList (to_strs v)"
| "as_kind None v = VInvalid"

text \<open>The history of a resolver is asked for by its address and answered by a list.\<close>

definition request_kind :: "string \<Rightarrow> kind option" where
  "request_kind = map_of
     [(''refresh_timer_period'', KInt), (''resolver_cache_size'', KInt), (''score_rules'', KText),
      (''score_internal'', KBool), (''interface'', KText), (''opennic_enabled'', KBool),
      (''bootstrap_t1_list'', KList), (''bootstrap_domains'', KList), (''update_dns'', KText),
      (''resolver_history'', KText), (''poll_keys'', KList)]"

definition answer_kind :: "string \<Rightarrow> kind option" where
  "answer_kind = map_of
     [(''tcp_listen_port'', KInt), (''refresh_timer_period'', KInt), (''resolver_cache_size'', KInt),
      (''resolver_pool'', KList), (''resolver_cache'', KList), (''bootstrap_t1_list'', KList),
      (''bootstrap_domains'', KList), (''system_text'', KList), (''journal_text'', KList),
      (''async_message'', KText), (''score_rules'', KText), (''score_internal'', KBool),
      (''opennic_enabled'', KBool), (''interface_list'', KList), (''interface'', KText),
      (''resolver_history'', KList)]"

section \<open>The applet's packets\<close>

text \<open>What \<open>update\<close> puts into its packet, in the order of a QMap.\<close>

definition settings_map :: "client \<Rightarrow> data_map" where
  "settings_map c =
     (if w_iface c \<noteq> [] then [(''interface'', VStr (w_iface c))] else []) @
     [(''opennic_enabled'', VBool (w_enabled c)), (''refresh_timer_period'', VInt (w_refresh c)),
      (''resolver_cache_size'', VInt (w_count c)), (''score_internal'', VBool (w_builtin c)),
      (''score_rules'', VStr (w_rules c))]"

lemma update_settings_sends:
  assumes "isLive (mLocalNet c)" "sock_valid (mLocalNet c)" "mData (mTXPacket (mLocalNet c)) = []"
  shows "sock_out (mLocalNet (update_settings env c)) = sock_out (mLocalNet c) @ frame (cl_put_map env) (settings_map c)"
  using assms
  by (simp add: update_settings_def Let_def cl_set_def cl_send_def net_send_def packet_send_def net_clear_def
      isLive_def settings_map_def)

section \<open>Writers and readers agree\<close>

lemma to_kind_simps [simp]:
  "to_int (as_kind (Some KInt) v) = to_int v" "to_bool (as_kind (Some KBool) v) = to_bool v"
  "to_str (as_kind (Some KText) v) = to_str v" "to_strs (as_kind (Some KList) v) = to_strs v"
  by simp_all

lemma poll_keys_only:
  "pollKeyValue env k s = Some (t, Some v) \<Longrightarrow> k \<in>
     {''tcp_listen_port'', ''refresh_timer_period'', ''resolver_cache_size'', ''resolver_pool'', ''resolver_cache'',
      ''bootstrap_t1_list'', ''bootstrap_domains'', ''system_text'', ''journal_text'', ''async_message'', ''score_rules'',
      ''score_internal'', ''opennic_enabled'', ''interface_list'', ''interface''}"
  by (rule ccontr) (simp add: pollKeyValue_def)

lemma with_system_answer: "with_system f s = Some (t, r) \<Longrightarrow> \<exists>y. r = snd (f y)"
  by (auto simp: with_system_def split_def Let_def split: option.splits)

lemma poll_writes:
  assumes "pollKeyValue env k s = Some (t, Some v)"
  shows "as_kind (answer_kind k) v = v"
  using assms poll_keys_only [OF assms]
  by (elim insertE; simp add: pollKeyValue_def answer_kind_def;
      auto dest!: with_system_answer simp: Let_def split_def)

lemma as_kind_valid: "as_kind (Some q) v \<noteq> VInvalid"
  by (cases q) simp_all

lemma poll_valid:
  assumes "pollKeyValue env k s = Some (t, Some v)"
  shows "v \<noteq> VInvalid"
proof -
  have "answer_kind k \<noteq> None"
    using poll_keys_only [OF assms] by (elim insertE; simp add: answer_kind_def)
  then show ?thesis using poll_writes [OF assms] as_kind_valid by (metis option.exhaust)
qed

lemma client_reads: "client_entry env k (as_kind (answer_kind k) w) c = client_entry env k w c"
proof (cases "k \<in> {''tcp_listen_port'', ''refresh_timer_period'', ''resolver_cache_size'', ''resolver_pool'', ''resolver_cache'',
    ''bootstrap_t1_list'', ''bootstrap_domains'', ''system_text'', ''journal_text'', ''async_message'', ''score_rules'',
    ''score_internal'', ''opennic_enabled'', ''interface_list'', ''interface''}")
  case True
  then show ?thesis by (elim insertE; simp add: client_entry_def answer_kind_def)
next
  case False
  then show ?thesis by (simp add: client_entry_def)
qed

lemma history_reads: "history_entries ((k, as_kind (answer_kind k) w) # es) d = history_entries ((k, w) # es) d"
  by (simp add: answer_kind_def)

lemma server_reads: "data_entry env k (as_kind (request_kind k) w) sn = data_entry env k w sn"
  by (simp add: data_entry_def request_kind_def Let_def cong: if_cong)

lemma applet_writes:
  assumes "(k, v) \<in> set (settings_map c)"
  shows "as_kind (request_kind k) v = v" "v \<noteq> VInvalid"
proof -
  have "(k, v) \<in> {(''interface'', VStr (w_iface c)), (''opennic_enabled'', VBool (w_enabled c)),
      (''refresh_timer_period'', VInt (w_refresh c)), (''resolver_cache_size'', VInt (w_count c)),
      (''score_internal'', VBool (w_builtin c)), (''score_rules'', VStr (w_rules c))}"
    using assms by (cases "w_iface c = []") (simp_all add: settings_map_def)
  then show "as_kind (request_kind k) v = v" "v \<noteq> VInvalid"
    by (elim insertE; simp add: request_kind_def)+
qed

text \<open>C25: The two programs agree on the types of what they send each other. Every value with which the
  service answers a poll has the kind that belongs to its key, and every value in the settings
  packet of the applet too; and the other side looks at a value only as one of that kind: the
  applet and its history dialog do the same with any value as with that value converted to the
  kind of its key, and so does the service. A key without a kind is neither sent nor looked at.\<close>

theorem protocol_types:
  assumes "pollKeyValue env k s = Some (t, Some v)" "(k', v') \<in> set (settings_map c)"
  shows "as_kind (answer_kind k) v = v \<and> v \<noteq> VInvalid \<and> as_kind (request_kind k') v' = v' \<and> v' \<noteq> VInvalid \<and>
    client_entry cenv key (as_kind (answer_kind key) w) c = client_entry cenv key w c \<and>
    history_entries ((key, as_kind (answer_kind key) w) # es) d = history_entries ((key, w) # es) d \<and>
    data_entry env key (as_kind (request_kind key) w) sn = data_entry env key w sn"
  using poll_writes [OF assms(1)] poll_valid [OF assms(1)] applet_writes [OF assms(2)] client_reads history_reads server_reads
  by blast

lemma protocol_types_witness:
  "as_kind (answer_kind ''journal_text'') (VList [''hello'']) = VList [''hello''] \<and>
   as_kind (request_kind ''opennic_enabled'') (VBool True) = VBool True"
proof -
  have "pollKeyValue sample_senv ''journal_text'' (sample_server\<lparr>mLog := [''hello'']\<rparr>) =
      Some (sample_server\<lparr>mLog := [''hello'']\<rparr>, Some (VList [''hello'']))"
    by (simp add: pollKeyValue_def)
  moreover have "(''opennic_enabled'', VBool True) \<in> set (settings_map ((new_client (new_net True))\<lparr>w_enabled := True\<rparr>))"
    by (simp add: settings_map_def)
  ultimately show ?thesis using protocol_types by blast
qed

end
