(* ===== verification/Applet.thy ===== *)
theory Applet
  imports Protocol
begin

text \<open>
  \<open>client/main.cpp\<close> and the applet as a process: the window of \<open>client/opennic.cpp\<close> with its menu,
  its tray icon and the history dialogs it has open, and the events that reach it. One step handles
  one event, with every slot its signals call; \<open>client_main\<close> runs the steps until the user quits.
  None is an index out of range, as in \<open>Client\<close>.
\<close>

section \<open>The menu and the box about the program\<close>

datatype menu_slot = SettingsSlot | AboutSlot | QuitSlot

datatype menu_entry = MenuAction string menu_slot | MenuSeparator

definition actionSettings :: menu_entry where
  "actionSettings = MenuAction ''&Settings...'' SettingsSlot"

definition actionAbout :: menu_entry where
  "actionAbout = MenuAction ''&About...'' AboutSlot"

definition actionQuit :: menu_entry where
  "actionQuit = MenuAction ''&Quit'' QuitSlot"

definition tray_menu :: "menu_entry list" where
  "tray_menu = [actionSettings, actionAbout, MenuSeparator, actionQuit]"

definition rule_line :: string where
  "rule_line = replicate 76 (CHR ''-'')"

definition about_text :: "string \<Rightarrow> string" where
  "about_text v =
     ''OpenNIC Wizard Version '' @ v @ [nl] @
     ''This file is a part of OpenNIC Wizard'' @ [nl] @
     ''Copywrong (c) 2012-2022 Mike Sharkey'' @ [nl] @
     rule_line @ [nl] @
     [CHR 0x22] @ ''THE BEER-WARE LICENSE'' @ [CHR 0x22] @ '' (Revision 1776):'' @ [nl] @
     ''<mike@8bitgeek.net> wrote this file.'' @ [nl] @
     ''As long as you retain this notice you can do whatever you want with this stuff.'' @ [nl] @
     ''If we meet some day, and you think this stuff is worth it,'' @ [nl] @
     ''you can buy me a beer in return. ~ Mike Sharkey'' @ [nl] @
     rule_line @ [nl]"

section \<open>The state and the events\<close>

record applet =
  window :: client
  dialogs :: "history_dialog list"   \<comment> \<open>\<open>mHistoryDialogs\<close>\<close>
  tray_shown :: bool
  about_boxes :: "string list"       \<comment> \<open>the boxes \<open>about\<close> has shown\<close>

record applet_env =
  a_env :: client_env
  a_get :: "byte list \<Rightarrow> data_map"
  a_version :: string
  a_valid :: "string \<Rightarrow> bool"  \<comment> \<open>\<open>valid\<close> in \<open>OpenNICNet::dataReady\<close>, which no slot of the applet sets\<close>

datatype applet_event =
    RefreshTimer
  | OtherTimer
  | DialogTimer nat
  | Incoming "byte list"
  | SocketState socket_state
  | SocketConnected
  | SocketDisconnected
  | SocketError bool int string   \<comment> \<open>closed by the remote host, code, text\<close>
  | HostFound
  | Menu menu_slot bool           \<comment> \<open>and the answer to the question of \<open>maybeQuit\<close>\<close>
  | Icon activation_reason
  | Press button_role
  | SaveT1 bool
  | SaveDomains bool
  | RefreshNow
  | Tab int
  | Cell nat
  | CellTwice nat
  | SortBy sort_key               \<comment> \<open>a click on a header of the table of resolvers\<close>
  | CloseDialog nat
  | CloseWindow
  | EditRules string
  | EditT1 string
  | EditDomains string
  | SetRefresh int
  | SetCount int
  | SetBuiltin bool
  | SetEnabled bool
  | SetInterface string

section \<open>The slots\<close>

definition writeClientSettings :: "client \<Rightarrow> client" where
  \<comment> \<open>opens the settings file and stores nothing\<close>
  "writeClientSettings c = c"

definition dialog_accepted :: "client_env \<Rightarrow> client \<Rightarrow> client" where
  \<comment> \<open>the OK button: \<open>accept\<close> hides the dialog and emits \<open>accepted\<close>\<close>
  "dialog_accepted env c = update_settings env (writeClientSettings (c\<lparr>w_visible := False\<rparr>))"

fun press :: "client_env \<Rightarrow> button_role \<Rightarrow> client \<Rightarrow> client" where
  \<comment> \<open>the box emits \<open>clicked\<close> and then, for OK and Cancel, \<open>accepted\<close> or \<open>rejected\<close>\<close>
  "press env ApplyRole c = clicked env ApplyRole c"
| "press env AcceptRole c = dialog_accepted env (clicked env AcceptRole c)"
| "press env OtherRole c = (clicked env OtherRole c)\<lparr>w_visible := False\<rparr>"

definition socket_enters :: "socket_state \<Rightarrow> net \<Rightarrow> net" where
  \<comment> \<open>what \<open>state()\<close>, \<open>isOpen()\<close> and \<open>isValid()\<close> then say\<close>
  "socket_enters st n = n\<lparr>sock_connected := (st = ConnectedState), sock_valid := (st = ConnectedState)\<rparr>"

definition on_window :: "(client \<Rightarrow> client) \<Rightarrow> applet \<Rightarrow> applet" where
  "on_window f a = a\<lparr>window := f (window a)\<rparr>"

text \<open>Data from the service: the applet and then its dialogs, in the order they were connected, get
  the same packet, as far as the ones before have left it.\<close>

definition applet_ready :: "applet_env \<Rightarrow> applet option \<times> net \<Rightarrow> applet option \<times> net" where
  "applet_ready env an =
     (case fst an of
        None \<Rightarrow> an
      | Some a \<Rightarrow>
          (case client_dataReady (a_env env) ((window a)\<lparr>mLocalNet := snd an\<rparr>) of
             None \<Rightarrow> (None, snd an)
           | Some c \<Rightarrow>
               (Some (a\<lparr>window := c, dialogs := map (history_dataReady (mLocalNet c)) (dialogs a)\<rparr>), mLocalNet c)))"

definition applet_poll_slot :: "applet_env \<Rightarrow> string \<Rightarrow> applet option \<Rightarrow> applet option \<times> variant option" where
  "applet_poll_slot env key ao = (ao, if a_valid env key then Some VInvalid else None)"

definition incoming :: "applet_env \<Rightarrow> byte list \<Rightarrow> applet \<Rightarrow> applet option" where
  "incoming env bytes a =
     (let n = mLocalNet (window a);
          (ao, n1) = readyRead (cl_put_map (a_env env)) (a_get env) (applet_poll_slot env) (applet_ready env)
                       (Some a, n\<lparr>sock_in := sock_in n @ bytes\<rparr>)
      in map_option (on_window (\<lambda>c. c\<lparr>mLocalNet := n1\<rparr>)) ao)"

definition on_dialogs ::
  "(history_dialog list \<times> net \<Rightarrow> (history_dialog list \<times> net) option) \<Rightarrow> applet \<Rightarrow> applet option" where
  "on_dialogs f a =
     map_option (\<lambda>(ds, n). a\<lparr>dialogs := ds, window := (window a)\<lparr>mLocalNet := n\<rparr>\<rparr>)
       (f (dialogs a, mLocalNet (window a)))"

definition dialog_timer :: "client_env \<Rightarrow> nat \<Rightarrow> history_dialog list \<times> net \<Rightarrow> (history_dialog list \<times> net) option" where
  "dialog_timer env i dsn =
     (if i < length (fst dsn)
      then (let (d, n) = history_timerEvent env True (fst dsn ! i, snd dsn) in Some ((fst dsn)[i := d], n))
      else Some dsn)"

fun menu_step :: "applet_env \<Rightarrow> menu_slot \<Rightarrow> bool \<Rightarrow> applet \<Rightarrow> applet" where
  "menu_step env SettingsSlot yes a = on_window settings_dialog a"
| "menu_step env AboutSlot yes a = a\<lparr>about_boxes := about_boxes a @ [about_text (a_version env)]\<rparr>"
| "menu_step env QuitSlot yes a = on_window (maybeQuit yes) a"

fun applet_step :: "applet_env \<Rightarrow> applet_event \<Rightarrow> applet \<Rightarrow> applet option" where
  "applet_step env RefreshTimer a = Some ((on_window (client_timerEvent (a_env env) True) a)\<lparr>tray_shown := True\<rparr>)"
| "applet_step env OtherTimer a = Some (on_window (client_timerEvent (a_env env) False) a)"
| "applet_step env (DialogTimer i) a = on_dialogs (dialog_timer (a_env env) i) a"
| "applet_step env (Incoming bytes) a = incoming env bytes a"
| "applet_step env (SocketState st) a =
     Some (on_window (\<lambda>c. tcpStateChanged st (c\<lparr>mLocalNet := socket_enters st (mLocalNet c)\<rparr>)) a)"
| "applet_step env SocketConnected a = Some (on_window (tcpConnected (a_env env)) a)"
| "applet_step env SocketDisconnected a = Some (on_window tcpDisconnected a)"
| "applet_step env (SocketError remote_closed code text) a = Some (on_window (tcpError remote_closed code text) a)"
| "applet_step env HostFound a = Some a"
| "applet_step env (Menu slot yes) a = Some (menu_step env slot yes a)"
| "applet_step env (Icon reason) a = Some (on_window (iconActivated reason) a)"
| "applet_step env (Press role) a = Some (on_window (press (a_env env) role) a)"
| "applet_step env (SaveT1 yes) a = Some (on_window (updateT1List (a_env env) yes) a)"
| "applet_step env (SaveDomains yes) a = Some (on_window (updateDomains (a_env env) yes) a)"
| "applet_step env RefreshNow a = Some (on_window (client_updateDNS (a_env env)) a)"
| "applet_step env (Tab i) a = Some (on_window (tabChanged i) a)"
| "applet_step env (Cell row) a = on_dialogs (cellClicked (a_env env) (w_table (window a)) row) a"
| "applet_step env (CellTwice row) a =
     on_dialogs (cellDoubleClicked (a_env env) (w_table (window a)) row) a"
| "applet_step env (SortBy key) a = Some (on_window (header_clicked (a_env env) key) a)"
| "applet_step env (CloseDialog i) a = Some (a\<lparr>dialogs := closing i (dialogs a)\<rparr>)"
| "applet_step env CloseWindow a = Some (on_window closeEvent a)"
| "applet_step env (EditRules text) a = Some (on_window (\<lambda>c. scoreRuleEditorTextChanged (c\<lparr>w_rules := text\<rparr>)) a)"
| "applet_step env (EditT1 text) a = Some (on_window (\<lambda>c. c\<lparr>w_t1 := text\<rparr>) a)"
| "applet_step env (EditDomains text) a = Some (on_window (\<lambda>c. c\<lparr>w_domains := text\<rparr>) a)"
| "applet_step env (SetRefresh v) a = Some (on_window (\<lambda>c. c\<lparr>w_refresh := spin 1 9999 v\<rparr>) a)"
| "applet_step env (SetCount v) a = Some (on_window (\<lambda>c. c\<lparr>w_count := spin 1 100 v\<rparr>) a)"
| "applet_step env (SetBuiltin b) a = Some (on_window (\<lambda>c. c\<lparr>w_builtin := b\<rparr>) a)"
| "applet_step env (SetEnabled b) a = Some (on_window (set_enabled_box (a_env env) b) a)"
| "applet_step env (SetInterface text) a = Some (on_window (set_interface_box (a_env env) text) a)"

section \<open>The program\<close>

definition new_applet :: applet where
  \<comment> \<open>\<open>createActions\<close>, \<open>createTrayIcon\<close>, and a socket that is not connected\<close>
  "new_applet =
     \<lparr>window = setDisabledState (new_client (new_net False)), dialogs = [], tray_shown = True, about_boxes = []\<rparr>"

definition delete_applet :: "applet \<Rightarrow> applet" where
  "delete_applet a = a\<lparr>dialogs := []\<rparr>"

fun exec_loop :: "applet_env \<Rightarrow> applet_event list \<Rightarrow> applet \<Rightarrow> (int option \<times> applet) option" where
  \<comment> \<open>the code is None while the loop waits for more events\<close>
  "exec_loop env [] a = Some (None, a)"
| "exec_loop env (e # es) a =
     do { a1 \<leftarrow> applet_step env e a;
          if quits (window a1) > quits (window a) then Some (Some 0, a1) else exec_loop env es a1 }"

definition no_tray_text :: string where
  "no_tray_text = ''No System Tray Detected.''"

definition client_main ::
  "bool \<Rightarrow> applet_env \<Rightarrow> applet_event list \<Rightarrow> (int option \<times> string list \<times> applet option) option" where
  \<comment> \<open>the exit code, the critical message boxes and the applet that was made\<close>
  "client_main tray env es =
     (if \<not> tray then Some (Some 1, [no_tray_text], None)
      else
        map_option (\<lambda>(rc, a). (rc, [], Some (if rc = None then a else delete_applet a)))
          (exec_loop env es (on_window connectToService new_applet)))"

section \<open>The invariant of the applet\<close>

text \<open>A net between two events: nothing half-built to send, and a socket that is connected can be
  written to.\<close>

definition net_ok :: "net \<Rightarrow> bool" where
  "net_ok n = (mData (mTXPacket n) = [] \<and> (isLive n \<longrightarrow> sock_valid n) \<and> mRXState (mRXPacket n) \<in> {0, 1})"

definition window_ok :: "client \<Rightarrow> bool" where
  "window_ok c =
     (1 \<le> w_refresh c \<and> w_refresh c \<le> 9999 \<and> 1 \<le> w_count c \<and> w_count c \<le> 100 \<and>
      refresh_interval c \<in> {5 * 1000, 15 * 1000} \<and> (w_iface c \<noteq> [] \<longrightarrow> w_iface c \<in> set (w_ifaces c)) \<and>
      net_ok (mLocalNet c))"

lemma spin_range [simp]: "lo \<le> hi \<Longrightarrow> lo \<le> spin lo hi v \<and> spin lo hi v \<le> hi"
  by (simp add: spin_def)

lemma spin_id: "lo \<le> v \<Longrightarrow> v \<le> hi \<Longrightarrow> spin lo hi v = v"
  by (simp add: spin_def)

lemma net_ok_send: "(isLive n \<longrightarrow> sock_valid n) \<Longrightarrow> net_ok (net_send put True n)"
  by (simp add: net_ok_def net_send_clears)
     (simp add: net_send_def net_clear_def packet_send_def isLive_def Let_def)

lemma net_ok_tx_set: "net_ok n \<Longrightarrow> isLive (tx_set k v n) \<longrightarrow> sock_valid (tx_set k v n)"
  by (simp add: net_ok_def isLive_def)

text \<open>Whatever a slot puts into its packet, sending it leaves the net in order.\<close>

lemma window_ok_send:
  assumes "window_ok c" "mLocalNet d = n" "isLive n = isLive (mLocalNet c)" "sock_valid n = sock_valid (mLocalNet c)"
    "w_refresh d = w_refresh c" "w_count d = w_count c" "refresh_interval d = refresh_interval c"
    "w_iface d = w_iface c" "w_ifaces d = w_ifaces c"
  shows "window_ok (cl_send env d)"
  using assms net_ok_send [of n "cl_put_map env"] by (simp add: window_ok_def cl_send_def net_ok_def)

lemma window_ok_update: "window_ok c \<Longrightarrow> window_ok (update_settings env c)"
  unfolding update_settings_def Let_def by (rule window_ok_send [of c, OF _ refl]) (simp_all add: cl_set_def isLive_def)

lemma window_ok_cong:
  assumes "window_ok c" "mLocalNet d = mLocalNet c" "w_refresh d = w_refresh c" "w_count d = w_count c"
    "refresh_interval d = refresh_interval c" "w_iface d = w_iface c" "w_ifaces d = w_ifaces c"
  shows "window_ok d"
  using assms by (simp add: window_ok_def)

lemma window_ok_poll: "window_ok c \<Longrightarrow> window_ok (poll_for env keys c)"
  unfolding poll_for_def by (auto intro!: window_ok_send [of c, OF _ refl] simp: cl_set_def isLive_def)

lemma window_ok_close: "window_ok c \<Longrightarrow> window_ok (close_socket c)"
  by (simp add: window_ok_def close_socket_def net_ok_def isLive_def)

lemma window_ok_enabled: "window_ok c \<Longrightarrow> window_ok (set_enabled_box env b c)"
  using window_ok_update [of "c\<lparr>w_enabled := b\<rparr>"] by (simp add: set_enabled_box_def window_ok_def)

lemma window_ok_interface: "window_ok c \<Longrightarrow> window_ok (set_interface_box env text c)"
  using window_ok_update [of "c\<lparr>w_iface := text\<rparr>"] by (simp add: set_interface_box_def window_ok_def)

lemma window_ok_interfaces: "window_ok c \<Longrightarrow> window_ok (set_interface_list items c)"
  by (auto simp: set_interface_list_def window_ok_def split: list.splits)

lemma window_ok_plain [simp]:
  "window_ok (c\<lparr>w_table := rows\<rparr>) = window_ok c" "window_ok (c\<lparr>w_sorting := b\<rparr>) = window_ok c"
  "window_ok (c\<lparr>w_sort := key\<rparr>) = window_ok c" "window_ok (c\<lparr>cl_port := i\<rparr>) = window_ok c"
  "window_ok (c\<lparr>w_cache := t\<rparr>) = window_ok c" "window_ok (c\<lparr>w_t1 := t\<rparr>) = window_ok c"
  "window_ok (c\<lparr>w_domains := t\<rparr>) = window_ok c" "window_ok (c\<lparr>w_system := t\<rparr>) = window_ok c"
  "window_ok (c\<lparr>w_journal := j\<rparr>) = window_ok c" "window_ok (c\<lparr>w_messages := j\<rparr>) = window_ok c"
  "window_ok (c\<lparr>w_rules := t\<rparr>) = window_ok c" "window_ok (c\<lparr>mScoreRulesTextChanged := b\<rparr>) = window_ok c"
  "window_ok (c\<lparr>w_builtin := b\<rparr>) = window_ok c" "window_ok (c\<lparr>mBalloonStatus := t\<rparr>) = window_ok c"
  "window_ok (c\<lparr>w_visible := b\<rparr>) = window_ok c" "window_ok (c\<lparr>w_apply := b\<rparr>) = window_ok c"
  "window_ok (c\<lparr>quits := q\<rparr>) = window_ok c" "window_ok (c\<lparr>balloons := bs\<rparr>) = window_ok c"
  "window_ok (c\<lparr>connect_requests := q\<rparr>) = window_ok c" "window_ok (c\<lparr>mActiveState := b\<rparr>) = window_ok c"
  "window_ok (c\<lparr>w_active := b\<rparr>) = window_ok c"
  by (simp_all add: window_ok_def)

lemma window_ok_spins [simp]:
  "window_ok c \<Longrightarrow> window_ok (c\<lparr>w_refresh := spin 1 9999 v\<rparr>)" "window_ok c \<Longrightarrow> window_ok (c\<lparr>w_count := spin 1 100 v\<rparr>)"
  "window_ok c \<Longrightarrow> window_ok (slowRefresh c)" "window_ok c \<Longrightarrow> window_ok (fastRefresh c)"
  by (simp_all add: window_ok_def slowRefresh_def fastRefresh_def)

lemma window_ok_sort [simp]:
  "window_ok (sortByColumn env key c) = window_ok c" "window_ok (enable_sorting env c) = window_ok c"
  "window_ok (header_clicked env key c) = window_ok c"
  by (simp_all add: sortByColumn_def enable_sorting_def header_clicked_def)

lemma window_ok_entry: "client_entry env k v c = Some c' \<Longrightarrow> window_ok c \<Longrightarrow> window_ok c'"
  unfolding client_entry_def
  by (auto simp: bind_eq_Some_conv updateResolverPool_def window_ok_interfaces window_ok_interface window_ok_enabled
      split: if_splits)

lemma window_ok_entries: "client_entries env es c = Some c' \<Longrightarrow> window_ok c \<Longrightarrow> window_ok c'"
  by (induction env es c rule: client_entries.induct) (auto simp: bind_eq_Some_conv dest: window_ok_entry)

lemma window_ok_ready: "client_dataReady env c = Some c' \<Longrightarrow> window_ok c \<Longrightarrow> window_ok c'"
  unfolding client_dataReady_def by (drule window_ok_entries) simp_all

subsection \<open>Data from the socket\<close>

text \<open>\<open>same_state\<close>: all but the packet to be sent is the same.\<close>

definition same_state :: "net \<Rightarrow> net \<Rightarrow> bool" where
  "same_state n m =
     (mRXPacket m = mRXPacket n \<and> sock_connected m = sock_connected n \<and> sock_valid m = sock_valid n \<and>
      sock_in m = sock_in n \<and> sock_out m = sock_out n)"

lemma applet_polls:
  "poll_values (applet_poll_slot env) keys (ao, n) = (ao', n') \<Longrightarrow> ao' = ao \<and> same_state n n'"
proof (induction keys arbitrary: n)
  case Nil
  then show ?case by (simp add: same_state_def)
next
  case (Cons k ks)
  from Cons.prems Cons.IH [of "if a_valid env k then tx_set k VInvalid n else n"] show ?case
    by (auto simp: applet_poll_slot_def same_state_def split: if_splits)
qed

lemma applet_poll_entries:
  "poll_entries (applet_poll_slot env) es (ao, n) = (ao', n') \<Longrightarrow>
   ao' = ao \<and> same_state n n' \<and> ((\<forall>e \<in> set es. fst e \<noteq> ''poll_keys'') \<longrightarrow> n' = n)"
proof (induction es arbitrary: n)
  case Nil
  then show ?case by (simp add: same_state_def)
next
  case (Cons e es)
  obtain k v where e: "e = (k, v)" by (cases e)
  show ?case
  proof (cases "k = ''poll_keys''")
    case False
    then show ?thesis using Cons e by simp
  next
    case True
    obtain ao1 n1 where p: "poll_values (applet_poll_slot env) (to_strs v) (ao, n) = (ao1, n1)" by fastforce
    then show ?thesis using Cons True e applet_polls [OF p] by (auto simp: same_state_def)
  qed
qed

lemma recv_state: "recv g avail p = (p', rest, b) \<Longrightarrow> mRXState p \<in> {0, 1} \<Longrightarrow> mRXState p' \<in> {0, 1}"
  by (auto simp: recv_def recv_body_def Let_def split: if_splits prod.splits)

lemma readyRead_recv:
  "recv g (sock_in n) (mRXPacket n) = (p, rest, b) \<Longrightarrow>
   readyRead put g poll ready (x, n) =
     (if b then net_dataReady put poll ready (x, n\<lparr>mRXPacket := p, sock_in := rest\<rparr>) else (x, n\<lparr>mRXPacket := p, sock_in := rest\<rparr>))"
  by (simp add: readyRead_def)

lemma incoming_eq:
  "incoming env bytes a =
     map_option (on_window (\<lambda>c. c\<lparr>mLocalNet := snd (readyRead (cl_put_map (a_env env)) (a_get env) (applet_poll_slot env)
         (applet_ready env) (Some a, (mLocalNet (window a))\<lparr>sock_in := sock_in (mLocalNet (window a)) @ bytes\<rparr>))\<rparr>))
       (fst (readyRead (cl_put_map (a_env env)) (a_get env) (applet_poll_slot env)
         (applet_ready env) (Some a, (mLocalNet (window a))\<lparr>sock_in := sock_in (mLocalNet (window a)) @ bytes\<rparr>)))"
  by (simp add: incoming_def Let_def split_def)

lemma same_state_ok: "same_state n m \<Longrightarrow> net_ok n \<Longrightarrow> isLive m \<longrightarrow> sock_valid m"
  by (simp add: same_state_def net_ok_def isLive_def)

lemma applet_ready_ok:
  assumes "applet_ready env (Some a, n) = (ao, n')" "window_ok ((window a)\<lparr>mLocalNet := n\<rparr>)"
  shows "case ao of None \<Rightarrow> True | Some a' \<Rightarrow> window_ok ((window a')\<lparr>mLocalNet := n'\<rparr>)"
  using assms window_ok_ready [of "a_env env" "(window a)\<lparr>mLocalNet := n\<rparr>"]
  by (auto simp: applet_ready_def split: option.splits)

lemma window_ok_net: "window_ok c \<Longrightarrow> net_ok n \<Longrightarrow> window_ok (c\<lparr>mLocalNet := n\<rparr>)"
  by (simp add: window_ok_def)

lemma window_okD: "window_ok c \<Longrightarrow> net_ok (mLocalNet c)"
  by (simp add: window_ok_def)

lemma incoming_ok:
  assumes "incoming env bytes a = Some a'" "window_ok (window a)"
  shows "window_ok (window a')"
proof -
  define n where "n = (mLocalNet (window a))\<lparr>sock_in := sock_in (mLocalNet (window a)) @ bytes\<rparr>"
  have n: "net_ok n" using window_okD [OF assms(2)] by (simp add: n_def net_ok_def isLive_def)
  obtain p rest b where r: "recv (a_get env) (sock_in n) (mRXPacket n) = (p, rest, b)" by (metis prod_cases3)
  define n1 where "n1 = n\<lparr>mRXPacket := p, sock_in := rest\<rparr>"
  have n1: "net_ok n1" using n recv_state [OF r] by (auto simp: n1_def net_ok_def isLive_def)
  let ?go = "net_dataReady (cl_put_map (a_env env)) (applet_poll_slot env) (applet_ready env) (Some a, n1)"
  have step: "map_option (on_window (\<lambda>c. c\<lparr>mLocalNet := snd x\<rparr>)) (fst x) = Some a'"
    if "x = (if b then ?go else (Some a, n1))" for x
    using assms(1) that readyRead_recv [OF r] unfolding incoming_eq n_def [symmetric] n1_def by metis
  show ?thesis
  proof (cases b)
    case False
    then show ?thesis using step [OF refl] window_ok_net [OF assms(2) n1] by (auto simp: on_window_def)
  next
    case True
    define es where "es = mData (mRXPacket n1)"
    obtain ao n2 where p: "poll_entries (applet_poll_slot env) es (Some a, n1) = (ao, n2)" by fastforce
    note ap = applet_poll_entries [OF p]
    define n3 where "n3 = (if \<exists>e \<in> set es. fst e = ''poll_keys'' then net_send (cl_put_map (a_env env)) True n2 else n2)"
    have n3: "net_ok n3"
      using ap n1 same_state_ok [of n1 n2] net_ok_send [of n2] by (auto simp: n3_def)
    have go: "?go = (if \<exists>e \<in> set es. fst e \<noteq> ''poll_keys'' then applet_ready env (Some a, n3) else (Some a, n3))"
      using p ap by (simp add: net_dataReady_def es_def n3_def Let_def)
    obtain ao4 n4 where f: "?go = (ao4, n4)" by fastforce
    have "case ao4 of None \<Rightarrow> True | Some a1 \<Rightarrow> window_ok ((window a1)\<lparr>mLocalNet := n4\<rparr>)"
      using f go applet_ready_ok [of env a n3 ao4 n4] window_ok_net [OF assms(2) n3] by (auto split: if_splits)
    then show ?thesis using step [OF refl] True f by (auto simp: on_window_def)
  qed
qed

subsection \<open>Every step\<close>

lemma net_ok_history: "net_ok n \<Longrightarrow> net_ok (snd (history_poll env (d, n)))"
  using net_ok_send [of "tx_set ''resolver_history'' (VStr (mAddress d)) n"] by (auto simp: history_poll_def net_ok_def isLive_def)

lemma on_dialogs_ok:
  assumes "on_dialogs f a = Some a'" "window_ok (window a)"
    "\<And>ds n ds' n'. f (ds, n) = Some (ds', n') \<Longrightarrow> net_ok n \<Longrightarrow> net_ok n'"
  shows "window_ok (window a')"
  using assms(1,2) assms(3) [of "dialogs a" "mLocalNet (window a)"] window_okD [OF assms(2)]
  by (auto simp: on_dialogs_def intro: window_ok_net)

lemma cellClicked_ok: "cellClicked env shown row (ds, n) = Some (ds', n') \<Longrightarrow> net_ok n \<Longrightarrow> net_ok n'"
  using net_ok_history [of n env] by (auto simp: cellClicked_def new_history_dialog_def bind_eq_Some_conv split_def Let_def)

lemma dialog_timer_ok: "dialog_timer env i (ds, n) = Some (ds', n') \<Longrightarrow> net_ok n \<Longrightarrow> net_ok n'"
  using net_ok_history [of n env] by (auto simp: dialog_timer_def history_timerEvent_def split_def Let_def split: if_splits)

lemma window_ok_socket: "window_ok c \<Longrightarrow> window_ok (c\<lparr>mLocalNet := socket_enters st (mLocalNet c)\<rparr>)"
  by (simp add: window_ok_def socket_enters_def net_ok_def isLive_def)

lemmas window_slots = client_timerEvent_def pollPeriodicKeys_def pollAllKeys_def connectToService_def tcpStateChanged_def
  tcpConnected_def tcpDisconnected_def tcpError_def setEnabledState_def setDisabledState_def updateT1List_def
  updateDomains_def tabChanged_def settings_dialog_def closeEvent_def showBalloonMessage_def maybeQuit_def clicked_def
  scoreRuleEditorTextChanged_def dialog_accepted_def writeClientSettings_def

lemma window_ok_lists: "window_ok c \<Longrightarrow> window_ok (cl_send env (cl_set k v c))"
  by (rule window_ok_send [of c, OF _ refl]) (simp_all add: cl_set_def isLive_def)

lemma window_ok_raw: "window_ok c \<Longrightarrow> window_ok (client_updateDNS env c)"
  by (simp add: window_ok_def client_updateDNS_def net_ok_def isLive_def)

lemma window_ok_icon: "window_ok c \<Longrightarrow> window_ok (iconActivated r c)"
  by (simp add: iconActivated_def window_slots split: activation_reason.splits)

lemma applet_step_ok: "applet_step env e a = Some a' \<Longrightarrow> window_ok (window a) \<Longrightarrow> window_ok (window a')"
proof (cases e)
  case (Press role)
  assume "applet_step env e a = Some a'" "window_ok (window a)"
  then show ?thesis using Press by (cases role) (auto simp: on_window_def window_slots window_ok_update)
next
  case (Menu slot yes)
  assume "applet_step env e a = Some a'" "window_ok (window a)"
  then show ?thesis using Menu by (cases slot) (auto simp: on_window_def window_slots)
next
  case (DialogTimer i)
  assume "applet_step env e a = Some a'" "window_ok (window a)"
  then show ?thesis using DialogTimer on_dialogs_ok [of "dialog_timer (a_env env) i" a a'] dialog_timer_ok by auto
next
  case (Cell row)
  assume "applet_step env e a = Some a'" "window_ok (window a)"
  then show ?thesis
    using Cell on_dialogs_ok [of "cellClicked (a_env env) (w_table (window a)) row" a a'] cellClicked_ok by auto
next
  case (CellTwice row)
  assume "applet_step env e a = Some a'" "window_ok (window a)"
  then show ?thesis
    using CellTwice on_dialogs_ok [of "cellClicked (a_env env) (w_table (window a)) row" a a'] cellClicked_ok
    by (auto simp: cellDoubleClicked_def [abs_def])
qed (auto simp: on_window_def window_slots incoming_ok window_ok_poll window_ok_close window_ok_socket window_ok_update
      window_ok_lists window_ok_raw window_ok_icon window_ok_enabled window_ok_interface)

text \<open>The life of an applet: any events, in any order.\<close>

definition applet_init :: "applet \<Rightarrow> bool" where
  "applet_init a = (a = on_window connectToService new_applet)"

definition applet_moves :: "applet_env \<Rightarrow> applet \<Rightarrow> applet \<Rightarrow> bool" where
  "applet_moves env a a' = (\<exists>e. applet_step env e a = Some a')"

lemma new_window_ok: "window_ok (window (on_window connectToService new_applet))"
  by (simp add: on_window_def new_applet_def window_slots new_client_def window_ok_def net_ok_def new_net_def new_packet_def isLive_def)

interpretation applet_life: invariant_system applet_init "applet_moves env" "\<lambda>a. window_ok (window a)" for env
  by unfold_locales (auto simp: applet_init_def applet_moves_def new_window_ok dest: applet_step_ok)


subsection \<open>What a window that is in order sends\<close>

lemma poll_sends:
  assumes "isLive (mLocalNet c)" "sock_valid (mLocalNet c)" "mData (mTXPacket (mLocalNet c)) = []"
  shows "sock_out (mLocalNet (poll_for env keys c)) =
    sock_out (mLocalNet c) @ frame (cl_put_map env) [(''poll_keys'', VList keys)]"
  using assms by (simp add: poll_for_def cl_set_def cl_send_def net_send_def packet_send_def net_clear_def isLive_def)

lemma poll_for_silent: "\<not> isLive (mLocalNet c) \<Longrightarrow> poll_for env keys c = c"
  by (simp add: poll_for_def)

lemma poll_for_fields [simp]:
  "isLive (mLocalNet (poll_for env keys c)) = isLive (mLocalNet c)"
  "sock_in (mLocalNet (poll_for env keys c)) = sock_in (mLocalNet c)"
  "connect_requests (poll_for env keys c) = connect_requests c"
  "mActiveState (poll_for env keys c) = mActiveState c" "w_active (poll_for env keys c) = w_active c"
  by (simp_all add: poll_for_def cl_set_def cl_send_def net_send_def net_clear_def packet_send_def isLive_def Let_def)

lemma poll_for_fresh:
  "isLive (mLocalNet c) \<Longrightarrow> mRXState (mRXPacket (mLocalNet (poll_for env keys c))) = 0"
  by (simp add: poll_for_def cl_set_def cl_send_def net_send_clears)

lemma net_okD:
  assumes "net_ok n"
  shows "mData (mTXPacket n) = []" "isLive n \<Longrightarrow> sock_valid n"
  using assms by (simp_all add: net_ok_def)

lemma refresh_timer_ok:
  assumes "window_ok c"
  shows "if isLive (mLocalNet c)
    then connect_requests (client_timerEvent env True c) = connect_requests c \<and>
         sock_out (mLocalNet (client_timerEvent env True c)) =
           sock_out (mLocalNet c) @ frame (cl_put_map env) [(''poll_keys'', VList periodic_keys)]
    else client_timerEvent env True c = c\<lparr>connect_requests := connect_requests c + 1\<rparr>"
  using poll_sends [of c env periodic_keys] net_okD [OF window_okD [OF assms]]
  by (simp add: client_timerEvent_def connectToService_def pollPeriodicKeys_def poll_for_silent)

lemma connected_ok:
  assumes "window_ok c" "isLive (mLocalNet c)"
  shows "sock_out (mLocalNet (tcpConnected env c)) =
      sock_out (mLocalNet c) @ frame (cl_put_map env) [(''poll_keys'', VList all_keys)]"
    "mActiveState (tcpConnected env c)" "w_active (tcpConnected env c)" "isLive (mLocalNet (tcpConnected env c))"
    "mRXState (mRXPacket (mLocalNet (tcpConnected env c))) = 0"
  using poll_sends [of "setEnabledState (c\<lparr>mBalloonStatus := ''Connecting...''\<rparr>)" env all_keys]
    net_okD [OF window_okD [OF assms(1)]] assms(2)
  by (simp_all add: tcpConnected_def pollAllKeys_def setEnabledState_def poll_for_fresh)

section \<open>An applet to try it on\<close>

definition sample_cenv :: client_env where
  "sample_cenv = \<lparr>cl_put_map = (\<lambda>m. [1]), to_double = (\<lambda>t. Fin (of_nat (length t))), mean = (\<lambda>ds. Fin 0),
     times1000 = (\<lambda>d. case d of Fin q \<Rightarrow> Fin (q * 1000) | x \<Rightarrow> x), sort_rows = (\<lambda>key rows. rows),
     sorted_place = (\<lambda>key rows row. 0), check_radio = (\<lambda>old new. old \<or> new)\<rparr>"

definition sample_applet_env :: applet_env where
  "sample_applet_env = \<lparr>a_env = sample_cenv, a_get = (\<lambda>bs. []), a_version = ''0.3'', a_valid = (\<lambda>k. False)\<rparr>"

lemma reach_start: "reachable applet_init (applet_moves env) (on_window connectToService new_applet)"
  by (rule reachable.initial) (simp add: applet_init_def)

lemma reach_step:
  "reachable applet_init (applet_moves env) a \<Longrightarrow> applet_step env e a = Some b \<Longrightarrow> reachable applet_init (applet_moves env) b"
  by (erule reachable.stepped) (auto simp: applet_moves_def)

lemma reach_connected:
  "reachable applet_init (applet_moves env)
     (on_window (\<lambda>c. tcpStateChanged ConnectedState (c\<lparr>mLocalNet := socket_enters ConnectedState (mLocalNet c)\<rparr>))
       (on_window connectToService new_applet))"
  by (rule reach_step [OF reach_start, of _ "SocketState ConnectedState"]) simp

section \<open>Properties\<close>

text \<open>C15: The applet stays in order whatever happens to it: after any sequence of events from the socket,
  the timers and the user, the refresh period it would send is between 1 and 9999 minutes and the
  number of resolvers between 1 and 100, the box of interfaces shows an entry of its list or
  nothing, the refresh timer has one of its two intervals, no half-built packet waits to be sent
  with the next one, and a connected socket can be written to.\<close>

theorem applet_invariant:
  assumes "reachable applet_init (applet_moves env) a"
  shows "1 \<le> w_refresh (window a) \<and> w_refresh (window a) \<le> 9999 \<and> 1 \<le> w_count (window a) \<and> w_count (window a) \<le> 100 \<and>
    (w_iface (window a) \<noteq> [] \<longrightarrow> w_iface (window a) \<in> set (w_ifaces (window a))) \<and>
    refresh_interval (window a) \<in> {5000, 15000} \<and> mData (mTXPacket (mLocalNet (window a))) = [] \<and>
    (isLive (mLocalNet (window a)) \<longrightarrow> sock_valid (mLocalNet (window a)))"
  using applet_life.reach_inv [OF assms] by (simp add: window_ok_def net_ok_def)

lemma applet_invariant_witness:
  "\<exists>a. applet_step sample_applet_env (SetRefresh 20000) (on_window connectToService new_applet) = Some a \<and>
    1 \<le> w_refresh (window a) \<and> w_refresh (window a) \<le> 9999"
proof -
  obtain a where a: "applet_step sample_applet_env (SetRefresh 20000) (on_window connectToService new_applet) = Some a"
    by simp
  show ?thesis using applet_invariant [OF reach_step [OF reach_start a]] a by blast
qed

text \<open>C14: The applet finds the service again: in any state it can be in, its refresh timer asks for a
  connection when there is none, sending nothing, and otherwise writes exactly one poll; and
  when the socket then connects, the applet looks active, asks for everything, and is ready for
  the first byte of a frame, even if the last connection broke within one.\<close>

theorem applet_reconnects:
  assumes "reachable applet_init (applet_moves env) a"
  shows "(\<exists>b. applet_step env RefreshTimer a = Some b \<and>
      (if isLive (mLocalNet (window a))
       then connect_requests (window b) = connect_requests (window a) \<and>
         sock_out (mLocalNet (window b)) = sock_out (mLocalNet (window a)) @
           frame (cl_put_map (a_env env)) [(''poll_keys'', VList periodic_keys)]
       else connect_requests (window b) = connect_requests (window a) + 1 \<and>
         mLocalNet (window b) = mLocalNet (window a))) \<and>
    (\<exists>b c. applet_step env (SocketState ConnectedState) a = Some b \<and> applet_step env SocketConnected b = Some c \<and>
      mActiveState (window c) \<and> w_active (window c) \<and> isLive (mLocalNet (window c)) \<and>
      mRXState (mRXPacket (mLocalNet (window c))) = 0 \<and>
      sock_out (mLocalNet (window c)) = sock_out (mLocalNet (window a)) @
        frame (cl_put_map (a_env env)) [(''poll_keys'', VList all_keys)])" (is "?timer \<and> ?connected")
proof
  have ok: "window_ok (window a)" using applet_life.reach_inv [OF assms] .
  show ?timer using refresh_timer_ok [OF ok, of "a_env env"] by (auto simp: on_window_def split: if_splits)
  define c where "c = (window a)\<lparr>mLocalNet := socket_enters ConnectedState (mLocalNet (window a))\<rparr>"
  have c: "window_ok c" "isLive (mLocalNet c)" "sock_out (mLocalNet c) = sock_out (mLocalNet (window a))"
    using window_ok_socket [OF ok, of ConnectedState] by (simp_all add: c_def socket_enters_def isLive_def)
  show ?connected
    using connected_ok [OF c(1,2), of "a_env env"] c(3) by (simp add: on_window_def tcpStateChanged_def c_def [symmetric])
qed

lemma applet_reconnects_witness:
  "\<exists>b. applet_step sample_applet_env RefreshTimer (on_window connectToService new_applet) = Some b \<and>
     connect_requests (window b) = 2"
proof -
  have "connect_requests (window (on_window connectToService new_applet)) = 1"
    "\<not> isLive (mLocalNet (window (on_window connectToService new_applet)))"
    by (simp_all add: on_window_def new_applet_def window_slots new_client_def new_net_def isLive_def)
  then show ?thesis using applet_reconnects [OF reach_start, of sample_applet_env] by auto
qed

text \<open>A service that goes away leaves the applet looking active: the socket reports the end as the
  error RemoteHostClosedError, for which \<open>tcpError\<close> does nothing, and as \<open>disconnected\<close>, whose
  slot only changes the text of the balloon.\<close>

lemma remote_close_keeps_active:
  "mActiveState (tcpStateChanged UnconnectedState (tcpDisconnected (tcpError True code text c))) = mActiveState c"
  "w_active (tcpStateChanged UnconnectedState (tcpDisconnected (tcpError True code text c))) = w_active c"
  by (simp_all add: tcpStateChanged_def tcpDisconnected_def tcpError_def close_socket_def)


text \<open>OK and Cancel hide the dialog without an event of its closing, so the fast refresh that its
  opening started goes on; only the frame's close button slows it.\<close>

lemma hidden_stays_fast:
  "refresh_interval (press env role (settings_dialog c)) = 5 * 1000 \<and>
   refresh_interval (closeEvent (settings_dialog c)) = 15 * 1000"
proof -
  have "refresh_interval (update_settings env d) = refresh_interval d" for d
    by (simp add: update_settings_def Let_def cl_set_def cl_send_def)
  then show ?thesis by (cases role) (simp_all add: window_slots fastRefresh_def slowRefresh_def)
qed

end
