(* ===== verification/Display.thy ===== *)
theory Display
  imports Applet
begin

text \<open>
  What the applet's dialog shows (\<open>client/opennic.cpp\<close>, \<open>dataReady\<close> and \<open>updateResolverPool\<close>): how
  each entry of the service's answer appears in the dialog and stays there, and the table of
  resolvers with its score bars.
\<close>

section \<open>The table of resolvers\<close>

definition status_label :: "status \<Rightarrow> string" where
  "status_label st = (case st of Red \<Rightarrow> ''FAIL'' | Yellow \<Rightarrow> ''WARN'' | Green \<Rightarrow> ''OK'')"

definition plain_line :: "(double \<Rightarrow> string) \<Rightarrow> resolver \<Rightarrow> bool" where
  \<comment> \<open>no field contains the separator\<close>
  "plain_line fmt r =
     (CHR '';'' \<notin> set (mKind r) \<and> CHR '';'' \<notin> set (mHostAddress r) \<and> CHR '';'' \<notin> set (fmt (mScore r)))"

lemma line_parts:
  assumes "plain_line fmt r"
  shows "part 0 (resolver_toString fmt r) = Some (case Resolver.status r of Red \<Rightarrow> ''R'' | Yellow \<Rightarrow> ''Y'' | Green \<Rightarrow> ''G'')"
    "part (Suc 0) (resolver_toString fmt r) = Some (fmt (mScore r))" "part 2 (resolver_toString fmt r) = Some (mKind r)"
    "part 3 (resolver_toString fmt r) = Some (mHostAddress r)"
proof -
  have tail: "split_on (CHR '';'') (fmt (mScore r) @ '';'' @ mKind r @ '';'' @ mHostAddress r @ '';'') =
      [fmt (mScore r), mKind r, mHostAddress r, []]"
    using assms by (simp add: plain_line_def split_on_append)
  have "split_on (CHR '';'') (st @ '';'' @ rest) = st # split_on (CHR '';'') rest" if "CHR '';'' \<notin> set st" for st rest
    using split_on_append [OF that, of rest] by simp
  then have "split_on (CHR '';'') (resolver_toString fmt r) =
      [case Resolver.status r of Red \<Rightarrow> ''R'' | Yellow \<Rightarrow> ''Y'' | Green \<Rightarrow> ''G'', fmt (mScore r), mKind r, mHostAddress r, []]"
    using tail by (simp add: resolver_toString_def split: status.splits)
  then show "part 0 (resolver_toString fmt r) = Some (case Resolver.status r of Red \<Rightarrow> ''R'' | Yellow \<Rightarrow> ''Y'' | Green \<Rightarrow> ''G'')"
    "part (Suc 0) (resolver_toString fmt r) = Some (fmt (mScore r))" "part 2 (resolver_toString fmt r) = Some (mKind r)"
    "part 3 (resolver_toString fmt r) = Some (mHostAddress r)"
    by (simp_all add: part_def numeral_eq_Suc)
qed

lemma min_max_bounds:
  "min_max xs mn mx = (a, b) \<Longrightarrow> NaN \<notin> set (mn # mx # xs) \<Longrightarrow>
   a \<in> set (mn # xs) \<and> b \<in> set (mx # xs) \<and> (\<forall>x \<in> set (mn # xs). \<not> dlt x a) \<and> (\<forall>x \<in> set (mx # xs). \<not> dlt b x)"
proof (induction xs arbitrary: mn mx)
  case (Cons x xs)
  define mn' where "mn' = (if dlt x mn then x else mn)"
  define mx' where "mx' = (if dlt mx x then x else mx)"
  have no: "NaN \<notin> set (mn' # mx' # xs)" using Cons.prems(2) by (auto simp: mn'_def mx'_def)
  have ih: "a \<in> set (mn' # xs) \<and> b \<in> set (mx' # xs) \<and> (\<forall>y \<in> set (mn' # xs). \<not> dlt y a) \<and> (\<forall>y \<in> set (mx' # xs). \<not> dlt b y)"
    by (rule Cons.IH [OF _ no]) (use Cons.prems(1) in \<open>simp add: mn'_def mx'_def\<close>)
  have "\<not> dlt mn mn'" "\<not> dlt x mn'" "\<not> dlt mx' mx" "\<not> dlt mx' x"
    using dlt_asym by (auto simp: mn'_def mx'_def)
  moreover have "mn' \<noteq> NaN" "mx' \<noteq> NaN" using no by auto
  ultimately have "\<not> dlt mn a" "\<not> dlt x a" "\<not> dlt b mx" "\<not> dlt b x"
    using ih dlt_negtrans [of _ mn' a] dlt_negtrans [of b mx'] by auto
  then show ?case using ih by (auto simp: mn'_def mx'_def split: if_splits)
qed auto

lemma parts_at_1:
  "\<forall>a \<in> set pool. plain_line fmt (objs h a) \<Longrightarrow>
   parts_at 1 (pool_toStrings fmt h pool) = Some (map (\<lambda>a. fmt (score_of h a)) pool)"
  by (induction pool) (auto simp: pool_toStrings_def line_parts score_of_def)

lemma min_max_member:
  "min_max xs mn mx = (a, b) \<Longrightarrow> a \<in> set (mn # xs) \<and> b \<in> set (mx # xs)"
proof (induction xs arbitrary: mn mx)
  case (Cons x xs)
  then show ?case using Cons.IH [of "if dlt x mn then x else mn" "if dlt mx x then x else mx"] by (auto split: if_splits)
qed simp

text \<open>The reference for the loop that fills the table: each line gives one row, whole.\<close>

definition make_row :: "client_env \<Rightarrow> double \<Rightarrow> double \<Rightarrow> string \<Rightarrow> table_row option" where
  "make_row env mn mx line =
     do { ip \<leftarrow> part 3 line; kind \<leftarrow> part 2 line; score \<leftarrow> part 1 line; st \<leftarrow> part 0 line;
          lo \<leftarrow> to_int32 (times1000 env mn); hi \<leftarrow> to_int32 (times1000 env mx);
          v \<leftarrow> to_int32 (times1000 env (to_double env score));
          Some \<lparr>row_status = Some (status_text st), row_bar = Some ((lo, hi), v), row_kind = Some kind,
                row_ip = Some ip\<rparr> }"

fun make_rows :: "client_env \<Rightarrow> double \<Rightarrow> double \<Rightarrow> string list \<Rightarrow> table_row list option" where
  "make_rows env mn mx [] = Some []"
| "make_rows env mn mx (l # ls) =
     do { r \<leftarrow> make_row env mn mx l; rs \<leftarrow> make_rows env mn mx ls; Some (r # rs) }"

text \<open>A table whose rows stay where they are while it is filled.\<close>

definition steady :: "bool \<times> sort_key \<Rightarrow> bool" where
  "steady sorting = (fst sorting \<longrightarrow> fst (snd sorting) = 1)"

definition steady_table :: "client \<Rightarrow> bool" where
  "steady_table c = steady (w_sorting c, w_sort c)"

lemma set_item_steady:
  "steady sorting \<Longrightarrow> col \<noteq> 1 \<Longrightarrow> set_item env sorting row col f rows = rows[row := f (rows ! row)]"
  by (auto simp: steady_def set_item_def)

lemma row_filled [simp]:
  "r\<lparr>row_ip := i, row_kind := k, row_bar := b, row_status := s\<rparr> =
   \<lparr>row_status = s, row_bar = b, row_kind = k, row_ip = i\<rparr>"
  by (cases r) simp

lemma fill_row_steady:
  assumes "steady sorting" "row < length rows"
  shows "fill_row env sorting mn mx row line rows = map_option (\<lambda>r. rows[row := r]) (make_row env mn mx line)"
  using assms by (simp add: fill_row_def make_row_def set_item_steady Let_def split: Option.bind_splits)

lemma fill_rows_steady:
  "steady sorting \<Longrightarrow> length rows = row + length ls \<Longrightarrow>
   fill_rows env sorting mn mx row ls rows = map_option (\<lambda>rs. take row rows @ rs) (make_rows env mn mx ls)"
proof (induction ls arbitrary: row rows)
  case (Cons l ls)
  show ?case
  proof (cases "make_row env mn mx l")
    case (Some r)
    have "fill_rows env sorting mn mx (Suc row) ls (rows[row := r]) =
        map_option (\<lambda>rs. take (Suc row) (rows[row := r]) @ rs) (make_rows env mn mx ls)"
      using Cons by simp
    moreover have "take (Suc row) (rows[row := r]) = take row rows @ [r]"
      using Cons.prems(2) by (simp add: take_Suc_conv_app_nth)
    ultimately show ?thesis
      using Cons.prems Some by (cases "make_rows env mn mx ls") (simp_all add: fill_row_steady)
  qed (use Cons.prems in \<open>simp add: fill_row_steady\<close>)
qed simp

text \<open>Whether the loop comes to its end does not depend on the sorting.\<close>

lemma fill_row_ends: "fill_row env sorting mn mx row line rows = None \<longleftrightarrow> make_row env mn mx line = None"
  by (auto simp: fill_row_def make_row_def Let_def bind_eq_None_conv)

lemma fill_rows_end: "fill_rows env sorting mn mx row ls rows = None \<longleftrightarrow> make_rows env mn mx ls = None"
proof (induction ls arbitrary: row rows)
  case (Cons l ls)
  then show ?case using fill_row_ends [of env sorting mn mx row l rows]
    by (cases "fill_row env sorting mn mx row l rows"; cases "make_row env mn mx l"; cases "make_rows env mn mx ls") auto
qed simp

lemma length_setRowCount [simp]: "length (setRowCount n rows) = n"
  by (simp add: setRowCount_def)

text \<open>\<open>sortByColumn\<close> rearranges the rows.\<close>

definition sorts_rows :: "client_env \<Rightarrow> bool" where
  "sorts_rows env = (\<forall>key rows. mset (sort_rows env key rows) = mset rows)"

lemma pool_update:
  assumes "scoreMinMax env pool (Fin 0) (Fin 0) = Some (m, mn, mx)"
  shows "updateResolverPool env pool c = None \<longleftrightarrow> make_rows env mn mx pool = None"
    "updateResolverPool env pool c = Some c' \<Longrightarrow> w_sorting c' \<and> w_sort c' = (1, True)"
    "updateResolverPool env pool c = Some c' \<Longrightarrow> steady_table c \<Longrightarrow> sorts_rows env \<Longrightarrow>
      \<exists>rows. make_rows env mn mx pool = Some rows \<and> mset (w_table c') = mset rows"
proof -
  have perm: "mset (sort_rows env key rows) = mset rows" if "sorts_rows env" for key rows
    using that by (cases key) (simp add: sorts_rows_def)
  show "updateResolverPool env pool c = None \<longleftrightarrow> make_rows env mn mx pool = None"
    "updateResolverPool env pool c = Some c' \<Longrightarrow> w_sorting c' \<and> w_sort c' = (1, True)"
    "updateResolverPool env pool c = Some c' \<Longrightarrow> steady_table c \<Longrightarrow> sorts_rows env \<Longrightarrow>
      \<exists>rows. make_rows env mn mx pool = Some rows \<and> mset (w_table c') = mset rows"
  using assms fill_rows_end [of env "(w_sorting c, w_sort c)" mn mx 0 pool "setRowCount (length pool) (w_table c)"]
    fill_rows_steady [of "(w_sorting c, w_sort c)" "setRowCount (length pool) (w_table c)" 0 pool env mn mx]
  by (auto simp: updateResolverPool_def bind_eq_Some_conv bind_eq_None_conv sortByColumn_def enable_sorting_def
      steady_table_def perm)
qed

definition thousandth :: "client_env \<Rightarrow> (double \<Rightarrow> string) \<Rightarrow> heap \<Rightarrow> nat \<Rightarrow> int option" where
  \<comment> \<open>the value of the score bar of a resolver\<close>
  "thousandth env fmt h a = to_int32 (times1000 env (to_double env (fmt (score_of h a))))"

definition pool_row :: "client_env \<Rightarrow> (double \<Rightarrow> string) \<Rightarrow> heap \<Rightarrow> int \<times> int \<Rightarrow> nat \<Rightarrow> table_row" where
  "pool_row env fmt h ends a =
     \<lparr>row_status = Some (status_label (Resolver.status (objs h a)),
        snd (status_text (case Resolver.status (objs h a) of Red \<Rightarrow> ''R'' | Yellow \<Rightarrow> ''Y'' | Green \<Rightarrow> ''G''))),
      row_bar = Some (ends, the (thousandth env fmt h a)), row_kind = Some (mKind (objs h a)),
      row_ip = Some (host_of h a)\<rparr>"

lemma make_rows_lines:
  assumes "to_int32 (times1000 env mn) = Some lo" "to_int32 (times1000 env mx) = Some hi"
    "\<forall>a \<in> set pool. plain_line fmt (objs h a) \<and> thousandth env fmt h a \<noteq> None"
  shows "make_rows env mn mx (pool_toStrings fmt h pool) = Some (map (pool_row env fmt h (lo, hi)) pool)"
  using assms(3)
proof (induction pool)
  case (Cons a pool)
  then have "plain_line fmt (objs h a)" "thousandth env fmt h a \<noteq> None" by simp_all
  then have "make_row env mn mx (resolver_toString fmt (objs h a)) = Some (pool_row env fmt h (lo, hi) a)"
    using line_parts [of fmt "objs h a"] assms(1,2)
    by (cases "Resolver.status (objs h a)")
      (auto simp: make_row_def pool_row_def thousandth_def status_label_def status_text_def score_of_def host_of_def)
  then show ?case using Cons by (simp add: pool_toStrings_def)
qed (simp add: pool_toStrings_def)

text \<open>The extremes of the scores are scores of the pool.\<close>

lemma scores_of_lines:
  assumes "\<forall>a \<in> set pool. plain_line fmt (objs h a)" "pool \<noteq> []"
  shows "\<exists>m mn mx. scoreMinMax env (pool_toStrings fmt h pool) (Fin 0) (Fin 0) = Some (m, mn, mx) \<and>
    min_max (map (\<lambda>a. to_double env (fmt (score_of h a))) (tl pool)) (to_double env (fmt (score_of h (hd pool))))
      (to_double env (fmt (score_of h (hd pool)))) = (mn, mx) \<and>
    mn \<in> (\<lambda>a. to_double env (fmt (score_of h a))) ` set pool \<and> mx \<in> (\<lambda>a. to_double env (fmt (score_of h a))) ` set pool"
proof -
  define v where "v a = to_double env (fmt (score_of h a))" for a
  obtain b bs where pool: "pool = b # bs" using assms(2) by (cases pool) auto
  obtain mn mx where mm: "min_max (map v bs) (v b) (v b) = (mn, mx)" by (cases "min_max (map v bs) (v b) (v b)") auto
  define ls where "ls = pool_toStrings fmt h pool"
  define ss where "ss = map (\<lambda>a. fmt (score_of h a)) pool"
  have "parts_at 1 ls = Some ss" using parts_at_1 [OF assms(1)] by (simp only: ls_def ss_def)
  moreover have "map (to_double env) ss = v b # map v bs" by (simp add: ss_def v_def pool)
  moreover have "0 < length ls" by (simp add: ls_def pool_toStrings_def pool)
  ultimately have "scoreMinMax env ls (Fin 0) (Fin 0) = Some (mean env (v b # map v bs), mn, mx)"
    using mm unfolding scoreMinMax_def by (simp del: One_nat_def)
  moreover have "mn \<in> v ` set pool \<and> mx \<in> v ` set pool" using min_max_member [OF mm] by (auto simp: pool)
  ultimately show ?thesis using mm unfolding ls_def pool v_def [symmetric] by simp
qed

lemma pool_rows:
  assumes "\<forall>a \<in> set pool. plain_line fmt (objs h a) \<and> thousandth env fmt h a \<noteq> None"
  shows "\<exists>m mn mx ends. scoreMinMax env (pool_toStrings fmt h pool) (Fin 0) (Fin 0) = Some (m, mn, mx) \<and>
    make_rows env mn mx (pool_toStrings fmt h pool) = Some (map (pool_row env fmt h ends) pool)"
proof (cases "pool = []")
  case True
  then show ?thesis by (simp add: scoreMinMax_def pool_toStrings_def)
next
  case False
  obtain m mn mx where s: "scoreMinMax env (pool_toStrings fmt h pool) (Fin 0) (Fin 0) = Some (m, mn, mx)"
    "mn \<in> (\<lambda>a. to_double env (fmt (score_of h a))) ` set pool" "mx \<in> (\<lambda>a. to_double env (fmt (score_of h a))) ` set pool"
    using scores_of_lines [OF _ False, of fmt h env] assms by blast
  then obtain lo hi where "to_int32 (times1000 env mn) = Some lo" "to_int32 (times1000 env mx) = Some hi"
    using assms unfolding thousandth_def by fastforce
  from make_rows_lines [OF this assms] s(1) show ?thesis by blast
qed

section \<open>What each entry of an answer shows\<close>

definition pool_shown :: "client_env \<Rightarrow> string list \<Rightarrow> table_row list \<Rightarrow> bool" where
  \<comment> \<open>one row for each line, in any order\<close>
  "pool_shown env lines table =
     (\<exists>m mn mx rows. scoreMinMax env lines (Fin 0) (Fin 0) = Some (m, mn, mx) \<and>
        make_rows env mn mx lines = Some rows \<and> mset table = mset rows)"

definition shown :: "client_env \<Rightarrow> bool \<Rightarrow> string \<Rightarrow> variant \<Rightarrow> client \<Rightarrow> bool" where
  \<comment> \<open>where the dialog has the value of a key, the table if it was not rearranged as it was filled;
    the box of interfaces and the kind of score are looked at below\<close>
  "shown env tidy key v c =
     (if key = ''tcp_listen_port'' then cl_port c = to_int v
      else if key = ''resolver_cache'' then \<exists>ips. parts_at 3 (to_strs v) = Some ips \<and> w_cache c = join_with [nl] ips
      else if key = ''refresh_timer_period'' then w_refresh c = spin 1 9999 (to_int v)
      else if key = ''resolver_cache_size'' then w_count c = spin 1 100 (to_int v)
      else if key = ''bootstrap_t1_list'' then w_t1 c = join_with [nl] (to_strs v)
      else if key = ''bootstrap_domains'' then w_domains c = join_with [nl] (to_strs v)
      else if key = ''resolver_pool'' then
        tidy \<longrightarrow> pool_shown env (to_strs v) (w_table c)
      else if key = ''system_text'' then w_system c = join_with [nl] (to_strs v)
      else if key = ''journal_text'' then \<exists>old. w_journal c = old @ to_strs v
      else if key = ''score_rules'' then to_str v \<noteq> [] \<longrightarrow> w_rules c = to_str v
      else if key = ''interface_list'' then w_ifaces c = to_strs v
      else if key = ''opennic_enabled'' then w_enabled c = to_bool v
      else True)"

lemma update_settings_net: "\<exists>n. update_settings env c = c\<lparr>mLocalNet := n\<rparr>"
  by (simp add: update_settings_def Let_def cl_set_def cl_send_def) blast

lemma set_enabled_box_net: "\<exists>n. set_enabled_box env b c = c\<lparr>w_enabled := b, mLocalNet := n\<rparr>"
proof (cases "w_enabled c = b")
  case True
  then show ?thesis by (intro exI [of _ "mLocalNet c"]) (simp add: set_enabled_box_def)
next
  case False
  then show ?thesis using update_settings_net [of env "c\<lparr>w_enabled := b\<rparr>"] by (auto simp: set_enabled_box_def)
qed

lemma set_interface_box_net:
  "\<exists>n. set_interface_box env text c = c\<lparr>w_iface := (if text \<in> set (w_ifaces c) then text else w_iface c), mLocalNet := n\<rparr>"
proof (cases "text \<in> set (w_ifaces c) \<and> w_iface c \<noteq> text")
  case True
  then show ?thesis using update_settings_net [of env "c\<lparr>w_iface := text\<rparr>"] by (auto simp: set_interface_box_def)
next
  case False
  then show ?thesis by (intro exI [of _ "mLocalNet c"]) (auto simp: set_interface_box_def)
qed

lemma pool_entry_shows:
  assumes "updateResolverPool env (to_strs v) c = Some c'" "steady_table c" "sorts_rows env"
  shows "pool_shown env (to_strs v) (w_table c')"
proof -
  obtain m mn mx where "scoreMinMax env (to_strs v) (Fin 0) (Fin 0) = Some (m, mn, mx)"
    using assms(1) by (auto simp: updateResolverPool_def bind_eq_Some_conv)
  with pool_update(3) [OF this assms] show ?thesis unfolding pool_shown_def by blast
qed

lemma update_pool_fields:
  "updateResolverPool env pool c = Some c' \<Longrightarrow> \<exists>rows. c' = c\<lparr>w_sorting := True, w_table := rows, w_sort := (1, True)\<rparr>"
  by (auto simp: updateResolverPool_def sortByColumn_def enable_sorting_def bind_eq_Some_conv)

lemma entry_shows:
  assumes "client_entry env k v c = Some c'" "window_ok c" "tidy \<Longrightarrow> steady_table c \<and> sorts_rows env"
  shows "shown env tidy k v c'"
proof (cases "k = ''resolver_pool''")
  case True
  then have "updateResolverPool env (to_strs v) c = Some c'" using assms(1) by (simp add: client_entry_def)
  then show ?thesis using pool_entry_shows assms(3) True by (simp add: shown_def)
next
  case False
  have "w_enabled (set_enabled_box env (to_bool v) c) = to_bool v"
    using set_enabled_box_net [of env "to_bool v" c] by auto
  moreover have "spin 1 9999 (w_refresh c) = w_refresh c" "spin 1 100 (w_count c) = w_count c"
    using assms(2) by (simp_all add: window_ok_def spin_id)
  ultimately show ?thesis using assms(1) False
    by (auto simp: client_entry_def bind_eq_Some_conv split: if_split_asm)
       (simp_all add: shown_def show_journal_def set_interface_list_def)
qed

lemma entry_keeps:
  assumes "client_entry env k' v' c = Some c'" "k \<noteq> k'" "shown env tidy k v c"
  shows "shown env tidy k v c'"
proof (cases "k' = ''resolver_pool''")
  case True
  then have "updateResolverPool env (to_strs v') c = Some c'" using assms(1) by (simp add: client_entry_def)
  then obtain rows where "c' = c\<lparr>w_sorting := True, w_table := rows, w_sort := (1, True)\<rparr>"
    using update_pool_fields by blast
  then show ?thesis using assms(2,3) True by (simp add: shown_def)
next
  case False
  obtain n where e: "set_enabled_box env (to_bool v') c = c\<lparr>w_enabled := to_bool v', mLocalNet := n\<rparr>"
    using set_enabled_box_net by blast
  obtain m where f: "set_interface_box env (to_str v') c =
      c\<lparr>w_iface := (if to_str v' \<in> set (w_ifaces c) then to_str v' else w_iface c), mLocalNet := m\<rparr>"
    using set_interface_box_net by blast
  show ?thesis using assms False
    by (auto simp: client_entry_def e f set_interface_list_def bind_eq_Some_conv split: if_split_asm)
       (simp_all add: shown_def)
qed

lemma entry_steady:
  assumes "client_entry env k v c = Some c'" "steady_table c" shows "steady_table c'"
proof (cases "k = ''resolver_pool''")
  case True
  then have "updateResolverPool env (to_strs v) c = Some c'" using assms(1) by (simp add: client_entry_def)
  then show ?thesis using update_pool_fields by (force simp: steady_table_def steady_def)
next
  case False
  obtain n where e: "set_enabled_box env (to_bool v) c = c\<lparr>w_enabled := to_bool v, mLocalNet := n\<rparr>"
    using set_enabled_box_net by blast
  obtain m where f: "set_interface_box env (to_str v) c =
      c\<lparr>w_iface := (if to_str v \<in> set (w_ifaces c) then to_str v else w_iface c), mLocalNet := m\<rparr>"
    using set_interface_box_net by blast
  show ?thesis using assms False
    by (auto simp: client_entry_def e f set_interface_list_def bind_eq_Some_conv steady_table_def split: if_split_asm)
qed

lemma entries_keep:
  "client_entries env es c = Some c' \<Longrightarrow> k \<notin> fst ` set es \<Longrightarrow> shown env tidy k v c \<Longrightarrow> shown env tidy k v c'"
proof (induction env es c rule: client_entries.induct)
  case (2 env k0 v0 rest c)
  then obtain c1 where "client_entry env k0 v0 c = Some c1" "client_entries env rest c1 = Some c'"
    by (auto simp: bind_eq_Some_conv)
  then show ?case using 2 entry_keeps [of env k0 v0 c c1 k tidy v] by auto
qed simp

text \<open>Every entry of an answer is shown once all have been handled.\<close>

lemma entries_show:
  "client_entries env es c = Some c' \<Longrightarrow> distinct (map fst es) \<Longrightarrow> window_ok c \<Longrightarrow>
   (tidy \<Longrightarrow> steady_table c \<and> sorts_rows env) \<Longrightarrow> (k, v) \<in> set es \<Longrightarrow> shown env tidy k v c'"
proof (induction env es c rule: client_entries.induct)
  case (2 env k0 v0 rest c)
  then obtain c1 where c1: "client_entry env k0 v0 c = Some c1" "client_entries env rest c1 = Some c'"
    by (auto simp: bind_eq_Some_conv)
  note ok = window_ok_entry [OF c1(1) \<open>window_ok c\<close>]
  show ?case
  proof (cases "(k, v) = (k0, v0)")
    case True
    then show ?thesis using entry_shows [OF c1(1) 2(4,5)] 2(3) entries_keep [OF c1(2), of k0 tidy v0] by simp
  next
    case False
    then show ?thesis using 2 c1 ok entry_steady [OF c1(1)] by auto
  qed
qed simp

text \<open>A button for the kind of score takes the value as \<open>check_radio\<close> says, from its state before.\<close>

lemma entry_builtin:
  assumes "client_entry env k v c = Some c'"
  shows "w_builtin c' = (if k = ''score_internal'' then check_radio env (w_builtin c) (to_bool v) else w_builtin c)"
proof (cases "k = ''resolver_pool''")
  case True
  then have "updateResolverPool env (to_strs v) c = Some c'" using assms by (simp add: client_entry_def)
  then show ?thesis using update_pool_fields True by force
next
  case False
  obtain n where e: "set_enabled_box env (to_bool v) c = c\<lparr>w_enabled := to_bool v, mLocalNet := n\<rparr>"
    using set_enabled_box_net by blast
  obtain m where f: "set_interface_box env (to_str v) c =
      c\<lparr>w_iface := (if to_str v \<in> set (w_ifaces c) then to_str v else w_iface c), mLocalNet := m\<rparr>"
    using set_interface_box_net by blast
  show ?thesis using assms False
    by (auto simp: client_entry_def e f set_interface_list_def bind_eq_Some_conv split: if_split_asm)
qed

lemma entries_builtin_same:
  "client_entries env es c = Some c' \<Longrightarrow> ''score_internal'' \<notin> fst ` set es \<Longrightarrow> w_builtin c' = w_builtin c"
proof (induction env es c rule: client_entries.induct)
  case (2 env k v rest c)
  then obtain c1 where c1: "client_entry env k v c = Some c1" "client_entries env rest c1 = Some c'"
    by (auto simp: bind_eq_Some_conv)
  then show ?case using 2 entry_builtin [OF c1(1)] by auto
qed simp

lemma entries_builtin:
  "client_entries env es c = Some c' \<Longrightarrow> distinct (map fst es) \<Longrightarrow> (''score_internal'', v) \<in> set es \<Longrightarrow>
   w_builtin c' = check_radio env (w_builtin c) (to_bool v)"
proof (induction env es c rule: client_entries.induct)
  case (2 env k0 v0 rest c)
  then obtain c1 where c1: "client_entry env k0 v0 c = Some c1" "client_entries env rest c1 = Some c'"
    by (auto simp: bind_eq_Some_conv)
  show ?case
  proof (cases "k0 = ''score_internal''")
    case True
    then have "v = v0" "''score_internal'' \<notin> fst ` set rest" using 2(3,4) by (auto simp: image_iff)
    then show ?thesis using entries_builtin_same [OF c1(2)] entry_builtin [OF c1(1)] True by simp
  next
    case False
    then show ?thesis using 2 c1 entry_builtin [OF c1(1)] by auto
  qed
qed simp

text \<open>The box of interfaces: the answer names the interface before it lists them, so the name is looked
  for in the list of the last answer; what is then selected stays if the new list has it, and
  otherwise the first interface of the new list is selected.\<close>

definition selected :: "string \<Rightarrow> string list \<Rightarrow> client \<Rightarrow> string" where
  "selected name items c =
     (let sel = (if name \<in> set (w_ifaces c) then name else w_iface c)
      in if sel \<noteq> [] \<and> sel \<in> set items then sel else (case items of [] \<Rightarrow> [] | i # _ \<Rightarrow> i))"

lemma entry_iface_same:
  assumes "client_entry env k v c = Some c'" "k \<noteq> ''interface''" "k \<noteq> ''interface_list''"
  shows "w_iface c' = w_iface c \<and> w_ifaces c' = w_ifaces c"
proof (cases "k = ''resolver_pool''")
  case True
  then have "updateResolverPool env (to_strs v) c = Some c'" using assms by (simp add: client_entry_def)
  then show ?thesis using update_pool_fields by force
next
  case False
  obtain n where e: "set_enabled_box env (to_bool v) c = c\<lparr>w_enabled := to_bool v, mLocalNet := n\<rparr>"
    using set_enabled_box_net by blast
  show ?thesis
    using assms False by (auto simp: client_entry_def e bind_eq_Some_conv split: if_split_asm)
qed

lemma entries_iface_same:
  "client_entries env es c = Some c' \<Longrightarrow> ''interface'' \<notin> fst ` set es \<Longrightarrow> ''interface_list'' \<notin> fst ` set es \<Longrightarrow>
   w_iface c' = w_iface c \<and> w_ifaces c' = w_ifaces c"
proof (induction env es c rule: client_entries.induct)
  case (2 env k v rest c)
  then obtain c1 where c1: "client_entry env k v c = Some c1" "client_entries env rest c1 = Some c'"
    by (auto simp: bind_eq_Some_conv)
  then show ?case using 2 entry_iface_same [OF c1(1)] by auto
qed simp

lemma client_entries_append:
  "client_entries env (es @ es') c = do { c1 \<leftarrow> client_entries env es c; client_entries env es' c1 }"
  by (induction es arbitrary: c) (auto simp: bind_eq_Some_conv split: Option.bind_splits)

lemma entries_iface:
  assumes "client_entries env es c = Some c'" "qmap_ok es" "(''interface'', VStr i) \<in> set es"
    "(''interface_list'', VList items) \<in> set es"
  shows "w_iface c' = selected i items c"
proof -
  have ord: "''interface'' < ''interface_list''" by simp
  obtain es1 es2 where es: "es = es1 @ (''interface'', VStr i) # es2" using split_list [OF assms(3)] by blast
  have s: "\<forall>e \<in> set es1. fst e < ''interface''" "\<forall>e \<in> set es2. ''interface'' < fst e"
    using assms(2) by (auto simp: es qmap_ok_def sorted_wrt_append)
  then have "(''interface_list'', VList items) \<in> set es2" using assms(4) ord by (fastforce simp: es)
  then obtain es3 es4 where es2: "es2 = es3 @ (''interface_list'', VList items) # es4" using split_list by metis
  have t: "\<forall>e \<in> set es3. fst e < ''interface_list''" "\<forall>e \<in> set es4. ''interface_list'' < fst e"
    using assms(2) by (auto simp: es es2 qmap_ok_def sorted_wrt_append)
  have no: "''interface'' \<notin> fst ` set es1" "''interface_list'' \<notin> fst ` set es1" "''interface'' \<notin> fst ` set es3"
      "''interface_list'' \<notin> fst ` set es3" "''interface'' \<notin> fst ` set es4" "''interface_list'' \<notin> fst ` set es4"
    using s t ord by (force simp: es2)+
  obtain c1 c2 c3 c4 where c: "client_entries env es1 c = Some c1" "client_entry env ''interface'' (VStr i) c1 = Some c2"
      "client_entries env es3 c2 = Some c3" "client_entry env ''interface_list'' (VList items) c3 = Some c4"
      "client_entries env es4 c4 = Some c'"
    using assms(1) by (auto simp: es es2 client_entries_append bind_eq_Some_conv)
  obtain m where f: "set_interface_box env i c1 = c1\<lparr>w_iface := (if i \<in> set (w_ifaces c1) then i else w_iface c1), mLocalNet := m\<rparr>"
    using set_interface_box_net by blast
  have "c2 = set_interface_box env i c1" "c4 = set_interface_list items c3"
    using c(2,4) by (simp_all add: client_entry_def)
  then show ?thesis
    using entries_iface_same [OF c(1) no(1,2)] entries_iface_same [OF c(3) no(3,4)] entries_iface_same [OF c(5) no(5,6)]
    by (auto simp: f set_interface_list_def selected_def Let_def)
qed

text \<open>An answer with lines the applet can take apart is handled to its end.\<close>

definition plain_pool :: "(double \<Rightarrow> string) \<Rightarrow> heap \<Rightarrow> variant \<Rightarrow> bool" where
  "plain_pool fmt h v = (\<exists>pool. v = VList (pool_toStrings fmt h pool) \<and> (\<forall>a \<in> set pool. plain_line fmt (objs h a)))"

text \<open>Lines whose scores can be drawn.\<close>

definition drawn_pool :: "client_env \<Rightarrow> (double \<Rightarrow> string) \<Rightarrow> heap \<Rightarrow> variant \<Rightarrow> bool" where
  "drawn_pool env fmt h v = (\<exists>pool. v = VList (pool_toStrings fmt h pool) \<and>
     (\<forall>a \<in> set pool. plain_line fmt (objs h a) \<and> thousandth env fmt h a \<noteq> None))"

lemma hosts_of_lines:
  "\<forall>a \<in> set pool. plain_line fmt (objs h a) \<Longrightarrow> parts_at 3 (pool_toStrings fmt h pool) = Some (map (host_of h) pool)"
  by (induction pool) (auto simp: pool_toStrings_def line_parts host_of_def)

lemma entry_returns:
  assumes "k = ''resolver_pool'' \<Longrightarrow> drawn_pool env fmt h v" "k = ''resolver_cache'' \<Longrightarrow> plain_pool fmt h v"
  shows "\<exists>c'. client_entry env k v c = Some c'"
proof -
  consider "k = ''resolver_pool''" | "k = ''resolver_cache''" | "k \<noteq> ''resolver_pool''" "k \<noteq> ''resolver_cache''" by blast
  then show ?thesis
  proof cases
    case 1
    then obtain pool where p: "v = VList (pool_toStrings fmt h pool)"
      "\<forall>a \<in> set pool. plain_line fmt (objs h a) \<and> thousandth env fmt h a \<noteq> None"
      using assms(1) by (auto simp: drawn_pool_def)
    obtain m mn mx ends where "scoreMinMax env (pool_toStrings fmt h pool) (Fin 0) (Fin 0) = Some (m, mn, mx)"
      "make_rows env mn mx (pool_toStrings fmt h pool) = Some (map (pool_row env fmt h ends) pool)"
      using pool_rows [OF p(2)] by blast
    then have "updateResolverPool env (to_strs v) c \<noteq> None" using pool_update(1) by (simp add: p(1) del: not_None_eq)
    then show ?thesis by (simp add: client_entry_def 1)
  next
    case 2
    then obtain pool where p: "v = VList (pool_toStrings fmt h pool)" "\<forall>a \<in> set pool. plain_line fmt (objs h a)"
      using assms(2) by (auto simp: plain_pool_def)
    then show ?thesis by (simp add: client_entry_def 2 hosts_of_lines [OF p(2)])
  next
    case 3
    then show ?thesis by (simp add: client_entry_def)
  qed
qed

lemma entries_return:
  "\<forall>(k, v) \<in> set es. (k = ''resolver_pool'' \<longrightarrow> drawn_pool env fmt h v) \<and> (k = ''resolver_cache'' \<longrightarrow> plain_pool fmt h v) \<Longrightarrow>
   \<exists>c'. client_entries env es c = Some c'"
proof (induction es arbitrary: c)
  case (Cons e es)
  obtain k v where e: "e = (k, v)" by (cases e)
  obtain c1 where "client_entry env k v c = Some c1"
    using entry_returns [of k env fmt h v c] Cons.prems e by auto
  then show ?case using Cons e by auto
qed simp

lemma polls_nothing:
  "\<forall>e \<in> set es. fst e \<noteq> ''poll_keys'' \<Longrightarrow> poll_entries poll es sn = sn"
  by (induction es) auto

text \<open>A frame that arrives as a whole is handled by the applet and then by its dialogs.\<close>

lemma incoming_frame:
  assumes "sock_in (mLocalNet (window a)) = []" "mRXState (mRXPacket (mLocalNet (window a))) = 0"
    "stream_ok put (a_get env) m" "\<forall>e \<in> set m. fst e \<noteq> ''poll_keys''" "m \<noteq> []"
    "\<And>n. isLive n = isLive (mLocalNet (window a)) \<Longrightarrow> sock_valid n = sock_valid (mLocalNet (window a)) \<Longrightarrow>
      mData (mTXPacket n) = mData (mTXPacket (mLocalNet (window a))) \<Longrightarrow> mRXState (mRXPacket n) = 0 \<Longrightarrow>
      \<exists>c. client_entries (a_env env) m ((window a)\<lparr>mLocalNet := n, mBalloonStatus := []\<rparr>) = Some c \<and> P c"
  shows "\<exists>a'. incoming env (frame put m) a = Some a' \<and> P (window a')"
proof -
  define n where "n = (mLocalNet (window a))\<lparr>sock_in := frame put m\<rparr>"
  obtain p where p: "recv (a_get env) (frame put m @ []) (mRXPacket n) = (p, [], True)" "mData p = m" "mRXState p = 0"
    using recv_coalesced [OF assms(2,3), of "[]"] by (auto simp: n_def)
  define n1 where "n1 = n\<lparr>mRXPacket := p, sock_in := []\<rparr>"
  have n1: "mData (mRXPacket n1) = m" "mRXState (mRXPacket n1) = 0" by (simp_all add: n1_def p)
  have "isLive n1 = isLive (mLocalNet (window a))" "sock_valid n1 = sock_valid (mLocalNet (window a))"
    "mData (mTXPacket n1) = mData (mTXPacket (mLocalNet (window a)))"
    by (simp_all add: n1_def n_def isLive_def)
  then obtain c where c: "client_entries (a_env env) m ((window a)\<lparr>mLocalNet := n1, mBalloonStatus := []\<rparr>) = Some c" "P c"
    using assms(6) n1(2) by blast
  have "readyRead (cl_put_map (a_env env)) (a_get env) (applet_poll_slot env) (applet_ready env) (Some a, n)
      = net_dataReady (cl_put_map (a_env env)) (applet_poll_slot env) (applet_ready env) (Some a, n1)"
    using p(1) readyRead_recv [of "a_get env" n p "[]" True] by (simp add: n1_def n_def)
  also have "\<dots> = applet_ready env (Some a, n1)"
    using polls_nothing [OF assms(4), of "applet_poll_slot env" "(Some a, n1)"] assms(4,5) n1(1)
    by (cases m) (auto simp: net_dataReady_def Let_def)
  also have "\<dots> = (Some (a\<lparr>window := c, dialogs := map (history_dataReady (mLocalNet c)) (dialogs a)\<rparr>), mLocalNet c)"
    using c(1) n1(1) by (simp add: applet_ready_def client_dataReady_def)
  finally have "incoming env (frame put m) a =
      Some (a\<lparr>window := c, dialogs := map (history_dataReady (mLocalNet c)) (dialogs a)\<rparr>)"
    using assms(1) by (simp add: incoming_def n_def on_window_def)
  then show ?thesis using c(2) by auto
qed

text \<open>The conversion to thousandths keeps the order of scores.\<close>

definition keeps_order :: "client_env \<Rightarrow> bool" where
  "keeps_order env = (\<forall>p q. p \<le> q \<longrightarrow> \<not> dlt (times1000 env (Fin q)) (times1000 env (Fin p)))"

lemma toward_zero_mono: "p \<le> q \<Longrightarrow> toward_zero p \<le> toward_zero q"
proof -
  assume "p \<le> q"
  then have "\<lfloor>p\<rfloor> \<le> \<lfloor>q\<rfloor>" "\<lfloor>- q\<rfloor> \<le> \<lfloor>- p\<rfloor>" by (auto intro!: floor_mono)
  moreover have "- \<lfloor>- p\<rfloor> \<le> \<lfloor>q\<rfloor>" if "p < 0" "\<not> q < 0"
  proof -
    have "0 \<le> \<lfloor>- p\<rfloor>" "0 \<le> \<lfloor>q\<rfloor>" using that by simp_all
    then show ?thesis by linarith
  qed
  ultimately show ?thesis using \<open>p \<le> q\<close> by (auto simp: toward_zero_def)
qed

lemma to_int32_mono:
  assumes "to_int32 x = Some i" "to_int32 y = Some j" "\<not> dlt y x" shows "i \<le> j"
proof -
  obtain p q where "x = Fin p" "y = Fin q" "i = toward_zero p" "j = toward_zero q"
    using assms(1,2) by (cases x; cases y) (auto split: if_splits)
  then show ?thesis using assms(3) toward_zero_mono [of p q] by auto
qed

text \<open>C24: the applet's table shows the service's pool: from the lines the service sends, one per
  resolver, it makes one row each, with its address, kind and status and with its score in
  thousandths, and every score bar gets a value within its range, provided no field contains the
  separator, the scores are finite and their thousandfold fits an int, and the user has not sorted
  the table by another column than the score's. Then the table is set to sort by that column, whose
  cells have only the bars; in which order that leaves the rows is the widget's matter.\<close>

theorem pool_table:
  assumes "\<forall>a \<in> set pool. plain_line fmt (objs h a) \<and> thousandth env fmt h a \<noteq> None \<and>
      (\<exists>q. to_double env (fmt (score_of h a)) = Fin q)"
    "w_sorting c \<longrightarrow> fst (w_sort c) = 1" "keeps_order env" "sorts_rows env"
  shows "\<exists>c' lo hi. updateResolverPool env (pool_toStrings fmt h pool) c = Some c' \<and>
    image_mset (\<lambda>r. (row_ip r, row_kind r, map_option fst (row_status r), row_bar r)) (mset (w_table c')) =
      image_mset (\<lambda>a. (Some (host_of h a), Some (mKind (objs h a)), Some (status_label (Resolver.status (objs h a))),
        Some ((lo, hi), the (thousandth env fmt h a)))) (mset pool) \<and>
    (\<forall>a \<in> set pool. lo \<le> the (thousandth env fmt h a) \<and> the (thousandth env fmt h a) \<le> hi) \<and>
    w_sorting c' \<and> w_sort c' = (1, True)"
proof -
  have drawn: "\<forall>a \<in> set pool. plain_line fmt (objs h a) \<and> thousandth env fmt h a \<noteq> None" using assms(1) by blast
  define v where "v a = to_double env (fmt (score_of h a))" for a
  have th: "thousandth env fmt h a = to_int32 (times1000 env (v a))" for a by (simp add: thousandth_def v_def)
  obtain m mn mx lo hi where s: "scoreMinMax env (pool_toStrings fmt h pool) (Fin 0) (Fin 0) = Some (m, mn, mx)"
    "make_rows env mn mx (pool_toStrings fmt h pool) = Some (map (pool_row env fmt h (lo, hi)) pool)"
    and bounds: "\<forall>a \<in> set pool. lo \<le> the (thousandth env fmt h a) \<and> the (thousandth env fmt h a) \<le> hi"
  proof (cases "pool = []")
    case True
    then show ?thesis using that [of "Fin 0" "Fin 0" "Fin 0"] by (simp add: scoreMinMax_def pool_toStrings_def)
  next
    case False
    obtain m mn mx where s: "scoreMinMax env (pool_toStrings fmt h pool) (Fin 0) (Fin 0) = Some (m, mn, mx)"
      "min_max (map v (tl pool)) (v (hd pool)) (v (hd pool)) = (mn, mx)" "mn \<in> v ` set pool" "mx \<in> v ` set pool"
      using scores_of_lines [OF _ False, of fmt h env] drawn unfolding v_def [symmetric] by blast
    have fin: "\<exists>q. x = Fin q" if "x \<in> v ` set pool" for x using assms(1) that by (auto simp: v_def)
    then have "NaN \<notin> v ` set pool" by blast
    moreover have "v ` set pool = set (v (hd pool) # map v (tl pool))" using False by (cases pool) auto
    ultimately have B: "\<forall>x \<in> v ` set pool. \<not> dlt x mn \<and> \<not> dlt mx x"
      using min_max_bounds [OF s(2)] by auto
    have up: "\<not> dlt (times1000 env y) (times1000 env x)" if "x \<in> v ` set pool" "y \<in> v ` set pool" "\<not> dlt y x" for x y
      using fin [OF that(1)] fin [OF that(2)] that(3) assms(3) by (auto simp: keeps_order_def)
    obtain lo hi where lohi: "to_int32 (times1000 env mn) = Some lo" "to_int32 (times1000 env mx) = Some hi"
      using s(3,4) drawn th by fastforce
    have "lo \<le> the (thousandth env fmt h a) \<and> the (thousandth env fmt h a) \<le> hi" if a: "a \<in> set pool" for a
    proof -
      obtain i where i: "to_int32 (times1000 env (v a)) = Some i" using drawn a th by auto
      have "v a \<in> v ` set pool" using a by simp
      then have "lo \<le> i" "i \<le> hi"
        using to_int32_mono [OF lohi(1) i up [OF s(3)]] to_int32_mono [OF i lohi(2) up [OF _ s(4)]] B by blast+
      then show ?thesis by (simp add: th i)
    qed
    then show ?thesis using that [OF s(1) make_rows_lines [OF lohi drawn]] by blast
  qed
  obtain c' where c': "updateResolverPool env (pool_toStrings fmt h pool) c = Some c'"
    using pool_update(1) [OF s(1), of c] s(2) by auto
  obtain rows where "make_rows env mn mx (pool_toStrings fmt h pool) = Some rows" "mset (w_table c') = mset rows"
    using pool_update(3) [OF s(1) c'] assms(2,4) by (auto simp: steady_table_def steady_def)
  then have t: "mset (w_table c') = image_mset (pool_row env fmt h (lo, hi)) (mset pool)"
    using s(2) by (metis mset_map option.inject)
  show ?thesis
    using c' bounds pool_update(2) [OF s(1) c']
    by (intro exI [of _ c'] exI [of _ lo] exI [of _ hi])
       (simp add: t image_mset.compositionality comp_def pool_row_def)
qed

lemma pool_table_witness:
  "\<exists>c'. updateResolverPool sample_cenv (pool_toStrings (\<lambda>d. ''7'') sample_heap [1, 3]) (new_client (new_net True)) = Some c' \<and>
     image_mset row_ip (mset (w_table c')) = {#Some (host_of sample_heap 1), Some (host_of sample_heap 3)#}"
proof -
  have "\<forall>a \<in> set [1, 3]. plain_line (\<lambda>d. ''7'') (objs sample_heap a) \<and> thousandth sample_cenv (\<lambda>d. ''7'') sample_heap a \<noteq> None \<and>
      (\<exists>q. to_double sample_cenv ((\<lambda>d. ''7'') (score_of sample_heap a)) = Fin q)"
    by (auto simp: plain_line_def sample_heap_def blank_resolver_def sample_cenv_def char_of_def thousandth_def toward_zero_def)
  moreover have "keeps_order sample_cenv" "sorts_rows sample_cenv"
    by (simp_all add: keeps_order_def sorts_rows_def sample_cenv_def)
  ultimately obtain c' lo hi where c': "updateResolverPool sample_cenv (pool_toStrings (\<lambda>d. ''7'') sample_heap [1, 3]) (new_client (new_net True)) = Some c'"
    "image_mset (\<lambda>r. (row_ip r, row_kind r, map_option fst (row_status r), row_bar r)) (mset (w_table c')) =
      image_mset (\<lambda>a. (Some (host_of sample_heap a), Some (mKind (objs sample_heap a)),
        Some (status_label (Resolver.status (objs sample_heap a))),
        Some ((lo, hi), the (thousandth sample_cenv (\<lambda>d. ''7'') sample_heap a)))) (mset [1, 3])"
    using pool_table [of "[1, 3]" "\<lambda>d. ''7''" sample_heap sample_cenv "new_client (new_net True)"]
    by (auto simp: new_client_def)
  from arg_cong [OF c'(2), of "image_mset fst"] c'(1) show ?thesis
    by (auto simp: image_mset.compositionality comp_def)
qed

text \<open>A table the user has sorted by address mixes its rows up when it is filled again: the row moves
  as soon as its address is set, and the other cells go to the row that has taken its place.\<close>

lemma sorted_fill_mixes:
  "fill_rows (sample_cenv\<lparr>to_double := (\<lambda>t. Fin 0)\<rparr>) (True, (3, False)) (Fin 0) (Fin 0) 0 [''G;0;T1;a'', ''R;0;T2;b'']
       (setRowCount 2 []) =
     Some [\<lparr>row_status = None, row_bar = None, row_kind = None, row_ip = Some ''b''\<rparr>,
       \<lparr>row_status = Some (status_text ''R''), row_bar = Some ((0, 0), 0), row_kind = Some ''T2'', row_ip = Some ''a''\<rparr>]"
  by (simp add: fill_row_def set_item_def move_row_def sample_cenv_def setRowCount_def blank_row_def part_def
      toward_zero_def numeral_eq_Suc status_text_def Let_def)

end
