(* ===== verification/Dormant.thy ===== *)
theory Dormant
  imports Server
begin

text \<open>
  A service that has been disabled (\<open>server/opennicserver.cpp\<close>, \<open>timerEvent\<close>): its timers go on, its
  resolvers go on testing themselves, connections and datagrams arrive, and none of it touches the
  machine. What a packet of the applet does to it is another matter, and is looked at in the root
  theory.
\<close>

section \<open>Asleep\<close>

definition asleep :: "server \<Rightarrow> bool" where
  \<comment> \<open>disabled, with the settings file saying what the server has, as \<open>writeSettings\<close> leaves it\<close>
  "asleep s =
     (\<not> GlobalShutdown s \<and> (\<exists>y. mSystem s = Some y \<and> \<not> sys_enabled y) \<and>
      \<not> to_bool (setting s ''enabled'' (VBool True)) \<and>
      to_int (setting s ''refresh_timer_period'' (VInt 1)) = mRefreshTimerPeriod s \<and>
      to_int (setting s ''resolver_cache_size'' (VInt 3)) = mResolverCacheSize s)"

definition untouched :: "server \<Rightarrow> server \<Rightarrow> bool" where
  "untouched s t =
     (map_option files (mSystem t) = map_option files (mSystem s) \<and>
      map_option commands (mSystem t) = map_option commands (mSystem s) \<and>
      mResolverCache t = mResolverCache s \<and> mResolverPool t = mResolverPool s)"

definition sleeps_on :: "server \<Rightarrow> server \<Rightarrow> bool" where
  "sleeps_on s t = (asleep t \<and> untouched s t)"

lemma sleeps_on_refl: "asleep s \<Longrightarrow> sleeps_on s s"
  by (simp add: sleeps_on_def untouched_def)

lemma sleeps_on_cong:
  assumes "sleeps_on s t" "mSystem u = mSystem t" "GlobalShutdown u = GlobalShutdown t" "settings u = settings t"
    "mRefreshTimerPeriod u = mRefreshTimerPeriod t" "mResolverCacheSize u = mResolverCacheSize t"
    "mResolverCache u = mResolverCache t" "mResolverPool u = mResolverPool t"
  shows "sleeps_on s u"
  using assms by (simp add: sleeps_on_def asleep_def untouched_def setting_def)

lemma sleeps_on_system:
  assumes "sleeps_on s t" "mSystem t = Some y" "files y' = files y" "commands y' = commands y" "sys_enabled y' = sys_enabled y"
  shows "sleeps_on s (t\<lparr>mSystem := Some y'\<rparr>)"
  using assms by (simp add: sleeps_on_def asleep_def untouched_def setting_def)

lemma sleeps_on_log: "sleeps_on s t \<Longrightarrow> sleeps_on s (log_msg env m t)"
  by (erule sleeps_on_cong) simp_all

text \<open>The settings are read again, and say what they said.\<close>

lemma readSettings_sleeps:
  assumes "sleeps_on s t"
  shows "\<exists>u. readSettings env t = Some u \<and> sleeps_on s u"
proof -
  obtain y where y: "mSystem t = Some y" "\<not> sys_enabled y" using assms by (auto simp: sleeps_on_def asleep_def)
  have v: "to_int (setting t ''refresh_timer_period'' (VInt 1)) = mRefreshTimerPeriod t"
    "to_int (setting t ''resolver_cache_size'' (VInt 3)) = mResolverCacheSize t"
    "to_bool (setting t ''enabled'' (VBool True)) = False"
    using assms by (simp_all add: sleeps_on_def asleep_def)
  define t1 where "t1 = t\<lparr>mTcpListenPort := to_int (setting t ''tcp_listen_port'' (VInt 19803))\<rparr>"
  have r: "readSettings env t = Some (apply_options env (load_options t1))"
    using v(1,2) by (simp add: readSettings_def setRefreshPeriod_def setResolverCacheSize_def t1_def)
  have l: "sleeps_on s (load_options t1)"
    by (rule sleeps_on_cong [OF assms]) (simp_all add: load_options_def t1_def)
  have m: "mSystem (load_options t1) = Some y" "mEnabled (load_options t1) = False"
    using y(1) v(3) by (simp_all add: load_options_def t1_def setting_def)
  have "apply_options env (load_options t1) =
      (load_options t1)\<lparr>mSystem := Some (setInterfaceName (mNetworkInterface (load_options t1)) y)\<rparr>"
    using m y(2) by (simp add: apply_options_def OsSystem.setEnabled_def)
  then have "sleeps_on s (apply_options env (load_options t1))"
    using sleeps_on_system [OF l m(1)] by (simp add: setInterfaceName_def)
  with r show ?thesis by blast
qed

text \<open>No timer does more.\<close>

lemma timer_sleeps:
  assumes "sleeps_on s t"
  shows "\<exists>u. server_timerEvent k env handle i t = Runs u \<and> sleeps_on s u"
proof -
  obtain y where y: "mSystem t = Some y" "\<not> sys_enabled y" "\<not> GlobalShutdown t"
    using assms by (auto simp: sleeps_on_def asleep_def)
  obtain u where u: "readSettings env t = Some u" "sleeps_on s u" using readSettings_sleeps [OF assms] by blast
  have b: "sleeps_on s (bootstrap_tick t)"
    by (rule sleeps_on_cong [OF assms]) (simp_all add: bootstrap_tick_def kill_timer_def Let_def)
  have c: "sleeps_on s (t\<lparr>mSeconds := x\<rparr>)" for x by (rule sleeps_on_cong [OF assms]) simp_all
  show ?thesis using y u b c assms by (simp add: server_timerEvent_def returned_def)
qed

fun packet_event :: "event \<Rightarrow> bool" where
  \<comment> \<open>data from an applet\<close>
  "packet_event (Readable i bytes) = True"
| "packet_event e = False"

lemma connections_sleep: "sleeps_on s t \<Longrightarrow> sleeps_on s (newConnection env waiting t)"
proof (induction waiting arbitrary: t)
  case (Cons n waiting)
  have "sleeps_on s (t\<lparr>mSessions := mSessions t @ [n]\<rparr>)" by (rule sleeps_on_cong [OF Cons.prems]) simp_all
  then show ?case using Cons.IH sleeps_on_log by simp
qed simp

lemma randomDomain_frame:
  "randomDomain env q y = (y', d) \<Longrightarrow> files y' = files y \<and> commands y' = commands y \<and> sys_enabled y' = sys_enabled y"
  by (auto simp: randomDomain_def getTestDomains_def Let_def split: if_splits)

lemma resolver_event_sleeps:
  assumes "resolver_event env a i l pick t = Some u" "sleeps_on s t"
  shows "sleeps_on s u"
proof (cases "live (srv_heap t) a \<and> i = mQueryIntervalTimer (objs (srv_heap t) a)")
  case False
  then show ?thesis using assms by (auto simp: resolver_event_def)
next
  case True
  with assms(1) obtain t1 d domain h where t1: "with_system (randomDomain (os env) pick) t = Some (t1, d)" "u = t1\<lparr>srv_heap := h\<rparr>"
    unfolding resolver_event_def by (auto simp: bind_eq_Some_conv)
  from t1(1) obtain y y1 where y: "mSystem t = Some y" "randomDomain (os env) pick y = (y1, d)" "t1 = t\<lparr>mSystem := Some y1\<rparr>"
    by (rule with_system_upd)
  have "sleeps_on s t1" using sleeps_on_system [OF assms(2) y(1)] randomDomain_frame [OF y(2)] y(3) by simp
  then show ?thesis by (rule sleeps_on_cong) (simp_all add: t1(2))
qed

lemma query_event_sleeps:
  assumes "query_event f a k t = Some u" "sleeps_on s t"
  shows "sleeps_on s u"
  using assms(1) sleeps_on_cong [OF assms(2)] assms(2) by (auto simp: query_event_def bind_eq_Some_conv split: if_splits)

lemma event_sleeps:
  assumes "handle_event k env e t = Runs u" "\<not> packet_event e" "sleeps_on s t"
  shows "sleeps_on s u"
proof (cases k)
  case (Suc n)
  show ?thesis
  proof (cases e)
    case (Timer i)
    then show ?thesis using assms(1) Suc timer_sleeps [OF assms(3), of n env "handle_event n env" i] by auto
  qed (use assms Suc in \<open>auto simp: returned_def connections_sleep resolver_event_sleeps query_event_sleeps split: option.splits\<close>)
qed (use assms in simp)

definition quiet_step :: "server_env \<Rightarrow> server \<Rightarrow> server \<Rightarrow> bool" where
  \<comment> \<open>the handling of any event but a packet\<close>
  "quiet_step env s t = (\<exists>k e. \<not> packet_event e \<and> handle_event k env e s = Runs t)"

interpretation dormant: invariant_system "\<lambda>t. t = s \<and> asleep s" "quiet_step env" "sleeps_on s" for s env
  by unfold_locales (auto simp: quiet_step_def sleeps_on_refl event_sleeps)

section \<open>Properties\<close>

text \<open>C10: A disabled service leaves the machine alone. From a state in which the service is disabled and the
  settings file says so, whatever timers fire, whatever resolvers and queries do and whoever
  connects, in any order: no file changes, no command runs, and the pool and the list of active
  resolvers stay; every timer handler returns, and the service is still disabled.\<close>

theorem disabled_dormant:
  assumes "asleep s" "reachable (\<lambda>t. t = s) (quiet_step env) t"
  shows "untouched s t \<and> asleep t \<and> (\<exists>u. server_timerEvent k env handle i t = Runs u)"
proof -
  have "reachable (\<lambda>t. t = s \<and> asleep s) (quiet_step env) t"
    using assms(2) by (induction rule: reachable.induct) (auto intro: reachable.intros simp: assms(1))
  then have "sleeps_on s t" by (rule dormant.reach_inv)
  then show ?thesis using timer_sleeps [of s t k env handle i] by (auto simp: sleeps_on_def)
qed

definition sleeping_server :: server where
  "sleeping_server = sample_server\<lparr>mSystem := Some (sample_sys\<lparr>sys_enabled := False\<rparr>),
     settings := [''enabled'' \<mapsto> VBool False, ''refresh_timer_period'' \<mapsto> VInt 1, ''resolver_cache_size'' \<mapsto> VInt 2]\<rparr>"

lemma sleeping_server_asleep: "asleep sleeping_server"
  by (simp add: asleep_def sleeping_server_def sample_server_def sample_sys_def setting_def)

lemma disabled_dormant_witness:
  "\<exists>t. handle_event 1 sample_senv (Timer 1) sleeping_server = Runs t \<and>
     map_option files (mSystem t) = Some sample_files \<and> mResolverCache t = []"
proof -
  have "sleeps_on sleeping_server sleeping_server" by (rule sleeps_on_refl [OF sleeping_server_asleep])
  from timer_sleeps [OF this, of 0 sample_senv "handle_event 0 sample_senv" 1]
  obtain t where t: "handle_event 1 sample_senv (Timer 1) sleeping_server = Runs t" by auto
  then have q: "quiet_step sample_senv sleeping_server t" 
    unfolding quiet_step_def using t by (intro exI [of _ 1] exI [of _ "Timer 1"]) simp
  have "reachable (\<lambda>t. t = sleeping_server) (quiet_step sample_senv) sleeping_server" by (rule reachable.initial) simp
  then have "reachable (\<lambda>t. t = sleeping_server) (quiet_step sample_senv) t" using q by (rule reachable.stepped)
  from disabled_dormant [OF sleeping_server_asleep this] t show ?thesis
    by (auto simp: untouched_def sleeping_server_def sample_server_def)
qed

end
