(* ===== verification/ServiceFramework.thy ===== *)
theory ServiceFramework
  imports Prelude
begin

text \<open>
  \<open>server/qtservice.h\<close>, \<open>qtservice_p.h\<close> and \<open>qtservice.cpp\<close>: the part of the service framework
  that is the same on every platform. A service object holds the program's arguments and its
  properties (\<open>service_base\<close>); \<open>exec\<close> reads the first argument and installs, removes, starts,
  stops or runs the service. What these do is the platform's business (\<open>qtservice_unix.cpp\<close>,
  \<open>qtservice_win.cpp\<close>): \<open>exec\<close> takes the platform's operations as a record of functions over a
  state of any type. The debug log, which \<open>QTSERVICE_DEBUG\<close> switches on, is here too.
\<close>

section \<open>Data\<close>

datatype startup_type = AutoStartup | ManualStartup

datatype message_type = Success | Error | Warning | Information

type_synonym flags = "32 word"

definition CanBeSuspended :: flags where
  "CanBeSuspended = 1"

definition CannotBeStopped :: flags where
  "CannotBeStopped = 2"

definition NeedsStopOnShutdown :: flags where
  "NeedsStopOnShutdown = 4"

unbundle bit_operations_syntax

definition has_flag :: "flags \<Rightarrow> flags \<Rightarrow> bool" where
  \<comment> \<open>\<open>flags & flag\<close> used as a condition\<close>
  "has_flag fl f = (fl AND f \<noteq> 0)"

lemma has_flag_simps [simp]:
  "\<not> has_flag 0 f" "has_flag CanBeSuspended CanBeSuspended" "\<not> has_flag CanBeSuspended CannotBeStopped"
  "\<not> has_flag CanBeSuspended NeedsStopOnShutdown" "has_flag CannotBeStopped CannotBeStopped"
  "\<not> has_flag CannotBeStopped CanBeSuspended"
  by (simp_all add: has_flag_def CanBeSuspended_def CannotBeStopped_def NeedsStopOnShutdown_def)

record service_base =
  service_name :: string      \<comment> \<open>\<open>controller.serviceName()\<close>\<close>
  serviceDescription :: string
  startupType :: startup_type
  serviceFlags :: flags
  args :: "string list"

definition max_name :: nat where
  "max_name = 255"

definition backslash :: char where
  "backslash = CHR 0x5C"

definition NUL :: char where
  "NUL = CHR 0x00"

definition clean_name :: "string \<Rightarrow> string" where
  "clean_name name =
     map (\<lambda>c. if c = backslash then NUL else c) (if length name > max_name then take max_name name else name)"

definition new_base :: "string list \<Rightarrow> string \<Rightarrow> service_base" where
  "new_base argv name =
     \<lparr>service_name = clean_name name, serviceDescription = [], startupType = ManualStartup,
      serviceFlags = 0, args = argv\<rparr>"

definition setServiceDescription :: "string \<Rightarrow> service_base \<Rightarrow> service_base" where
  "setServiceDescription text b = b\<lparr>serviceDescription := text\<rparr>"

definition setStartupType :: "startup_type \<Rightarrow> service_base \<Rightarrow> service_base" where
  "setStartupType t b = b\<lparr>startupType := t\<rparr>"

lemma clean_name_ok: "length (clean_name n) \<le> max_name \<and> backslash \<notin> set (clean_name n)"
  by (auto simp: clean_name_def NUL_def backslash_def)

lemma clean_name_id: "length n \<le> max_name \<Longrightarrow> backslash \<notin> set n \<Longrightarrow> clean_name n = n"
  by (auto simp: clean_name_def intro: map_idI)

section \<open>The virtual functions of a service\<close>

text \<open>What a virtual function does: go on with a new state, perhaps asking the application to
  quit and logging messages, or end the process.\<close>

datatype 'a fate = Lives 'a bool "(string \<times> message_type) list" | Dies

record ('a, 'e) service =
  on_start :: "'a \<Rightarrow> 'a fate"
  on_stop :: "'a \<Rightarrow> 'a fate"
  on_pause :: "'a \<Rightarrow> 'a fate"
  on_resume :: "'a \<Rightarrow> 'a fate"
  on_command :: "int \<Rightarrow> 'a \<Rightarrow> 'a fate"
  on_event :: "'e \<Rightarrow> 'a \<Rightarrow> 'a fate"
  fresh :: 'a  \<comment> \<open>the application as \<open>createApplication\<close> makes it\<close>

text \<open>The virtual functions that do nothing unless they are reimplemented.\<close>

definition does_nothing :: "'a \<Rightarrow> 'a fate" where
  "does_nothing a = Lives a False []"

section \<open>What a platform provides\<close>

text \<open>
  The operations of the controller and of the service object that a platform implements, on
  its state. \<open>p_executeApplication\<close> returns when the event loop does; None is a loop that is
  still running. \<open>p_detached\<close> is the test for \<open>QTSERVICE_RUN\<close>, which only Unix makes.
\<close>

record 'w service_ops =
  p_isInstalled :: "string \<Rightarrow> 'w \<Rightarrow> bool \<times> 'w"
  p_isRunning :: "string \<Rightarrow> 'w \<Rightarrow> bool \<times> 'w"
  p_install :: "service_base \<Rightarrow> string \<Rightarrow> string \<Rightarrow> 'w \<Rightarrow> bool \<times> 'w"
  p_uninstall :: "string \<Rightarrow> 'w \<Rightarrow> bool \<times> 'w"
  p_stop :: "string \<Rightarrow> 'w \<Rightarrow> bool \<times> 'w"
  p_pause :: "string \<Rightarrow> 'w \<Rightarrow> bool \<times> 'w"
  p_resume :: "string \<Rightarrow> 'w \<Rightarrow> bool \<times> 'w"
  p_sendCommand :: "string \<Rightarrow> int \<Rightarrow> 'w \<Rightarrow> bool \<times> 'w"
  p_start :: "service_base \<Rightarrow> 'w \<Rightarrow> bool option \<times> 'w"
  p_detached :: "'w \<Rightarrow> bool"
  p_filePath :: "service_base \<Rightarrow> 'w \<Rightarrow> string"
  p_sysInit :: "service_base \<Rightarrow> 'w \<Rightarrow> bool \<times> 'w"
  p_createApplication :: "service_base \<Rightarrow> string list \<Rightarrow> 'w \<Rightarrow> bool \<times> 'w"
  p_sysSetPath :: "service_base \<Rightarrow> 'w \<Rightarrow> 'w"
  p_postStart :: "'w \<Rightarrow> 'w"
  p_executeApplication :: "'w \<Rightarrow> int option \<times> 'w"
  p_deleteApplication :: "'w \<Rightarrow> 'w"
  p_sysCleanup :: "'w \<Rightarrow> 'w"

section \<open>Running the application\<close>

definition run_loop :: "'w service_ops \<Rightarrow> bool \<Rightarrow> 'w \<Rightarrow> int option \<times> 'w" where
  "run_loop p asService w =
     (let (res, w1) = p_executeApplication p (p_postStart p w)
      in case res of
           None \<Rightarrow> (None, w1)
         | Some r \<Rightarrow>
             (let w2 = p_deleteApplication p w1
              in (Some r, if asService then p_sysCleanup p w2 else w2)))"

definition run_service :: "'w service_ops \<Rightarrow> bool \<Rightarrow> service_base \<Rightarrow> string list \<Rightarrow> 'w \<Rightarrow> int option \<times> 'w" where
  "run_service p asService b argList w =
     (let (ready, w1) = (if asService then p_sysInit p b w else (True, w))
      in if \<not> ready then (Some (- 1), w1)
         else (let (app, w2) = p_createApplication p b argList w1
               in if \<not> app then (Some (- 1), w2)
                  else run_loop p asService (if asService then p_sysSetPath p b w2 else w2)))"

section \<open>The arguments of the program\<close>

datatype print = Out string | Err string | Warn string

type_synonym 'w exec_result = "int option \<times> print list \<times> 'w"

definition the_service :: "string \<Rightarrow> string \<Rightarrow> string" where
  "the_service name what = ''The service '' @ name @ what"

definition exec_install :: "'w service_ops \<Rightarrow> service_base \<Rightarrow> 'w \<Rightarrow> 'w exec_result" where
  "exec_install p b w =
     (let n = service_name b; (installed, w1) = p_isInstalled p n w
      in if \<not> installed then
           (let account = (if length (args b) > 2 then args b ! 2 else []);
                password = (if length (args b) > 3 then args b ! 3 else []);
                (done, w2) = p_install p b account password w1
            in if \<not> done
               then (Some (- 1), [Err (the_service n '' could not be installed'')], w2)
               else (Some 0, [Out (the_service n ('' has been installed under: '' @ p_filePath p b w2))], w2))
         else (Some 0, [Err (the_service n '' is already installed'')], w1))"

definition exec_uninstall :: "'w service_ops \<Rightarrow> service_base \<Rightarrow> 'w \<Rightarrow> 'w exec_result" where
  "exec_uninstall p b w =
     (let n = service_name b; (installed, w1) = p_isInstalled p n w
      in if installed then
           (let (done, w2) = p_uninstall p n w1
            in if \<not> done
               then (Some (- 1), [Err (the_service n '' could not be uninstalled'')], w2)
               else (Some 0, [Out (the_service n '' has been uninstalled.'')], w2))
         else (Some 0, [Err (the_service n '' is not installed'')], w1))"

definition exec_version :: "'w service_ops \<Rightarrow> service_base \<Rightarrow> 'w \<Rightarrow> 'w exec_result" where
  "exec_version p b w =
     (let n = service_name b; (installed, w1) = p_isInstalled p n w; (running, w2) = p_isRunning p n w1
      in (Some 0,
          [Out n, Out (args b ! 0),
           Out (if installed then ''is installed'' else ''is not installed''),
           Out (if running then '' and running'' else '' and not running'')], w2))"

definition exec_standalone :: "'w service_ops \<Rightarrow> service_base \<Rightarrow> 'w \<Rightarrow> 'w exec_result" where
  "exec_standalone p b w =
     (let b1 = b\<lparr>args := take_at 1 (args b)\<rparr>; (ec, w1) = run_service p False b1 (args b1) w
      in (ec, if ec = Some (- 1) then [Warn ''The service could not be executed.''] else [], w1))"

definition exec_terminate :: "'w service_ops \<Rightarrow> service_base \<Rightarrow> 'w \<Rightarrow> 'w exec_result" where
  "exec_terminate p b w =
     (let (done, w1) = p_stop p (service_name b) w
      in (Some 0, if \<not> done then [Warn ''The service could not be stopped.''] else [], w1))"

definition exec_command :: "'w service_ops \<Rightarrow> service_base \<Rightarrow> 'w \<Rightarrow> 'w exec_result" where
  "exec_command p b w =
     (let code = (if length (args b) > 2 then read_int (args b ! 2) else 0)
      in (Some 0, [], snd (p_sendCommand p (service_name b) code w)))"

definition usage :: "string list" where
  \<comment> \<open>line by line, without the tabs\<close>
  "usage =
     ['' -[i|u|e|t|p|r|c|v|h]'',
      ''-i(nstall) [account] [password]: Install the service, optionally using given account and password'',
      ''-u(ninstall): Uninstall the service.'',
      ''-e(xec): Run as a regular application. Useful for debugging.'',
      ''-t(erminate): Stop the service.'',
      ''-p(ause): Pause the service.'',
      ''-r(esume): Resume a paused service.'',
      ''-c(ommand) num: Send command code num to the service.'',
      ''-v(ersion): Print version and status information.'',
      ''-h(elp): Show this help'',
      ''No arguments: Start the service.'']"

definition exec_help :: "service_base \<Rightarrow> 'w \<Rightarrow> 'w exec_result" where
  "exec_help b w = (Some 0, Out (args b ! 0) # map Out usage, w)"

definition exec_start :: "'w service_ops \<Rightarrow> service_base \<Rightarrow> 'w \<Rightarrow> 'w exec_result" where
  "exec_start p b w =
     (if p_detached p w then
        (let (ec, w1) = run_service p True b (args b) w
         in (ec, if ec = Some (- 1) then [Warn ''The service failed to run.''] else [], w1))
      else
        (let (started, w1) = p_start p b w
         in case started of
              None \<Rightarrow> (None, [], w1)
            | Some True \<Rightarrow> (Some 0, [], w1)
            | Some False \<Rightarrow> (Some (- 4), [Err (the_service (service_name b) '' could not start'')], w1)))"

definition exec_service :: "'w service_ops \<Rightarrow> service_base \<Rightarrow> 'w \<Rightarrow> 'w exec_result" where
  "exec_service p b w =
     (if length (args b) > 1 then
        (let a = args b ! 1
         in if a = ''-i'' \<or> a = ''-install'' then exec_install p b w
            else if a = ''-u'' \<or> a = ''-uninstall'' then exec_uninstall p b w
            else if a = ''-v'' \<or> a = ''-version'' then exec_version p b w
            else if a = ''-e'' \<or> a = ''-exec'' then exec_standalone p b w
            else if a = ''-t'' \<or> a = ''-terminate'' then exec_terminate p b w
            else if a = ''-p'' \<or> a = ''-pause'' then (Some 0, [], snd (p_pause p (service_name b) w))
            else if a = ''-r'' \<or> a = ''-resume'' then (Some 0, [], snd (p_resume p (service_name b) w))
            else if a = ''-c'' \<or> a = ''-command'' then exec_command p b w
            else if a = ''-h'' \<or> a = ''-help'' then exec_help b w
            else exec_start p b w)
      else exec_start p b w)"

text \<open>\<open>QtServiceController::install\<close> runs the service's own program.\<close>

definition controller_install :: "(string \<Rightarrow> string list \<Rightarrow> 'w \<Rightarrow> int \<times> 'w) \<Rightarrow> string \<Rightarrow> string \<Rightarrow> string \<Rightarrow> 'w \<Rightarrow> bool \<times> 'w" where
  "controller_install execute path account password w =
     (let (code, w1) = execute path [''-i'', account, password] w in (code = 0, w1))"


section \<open>The debug log\<close>

datatype qt_msg_type = QtDebugMsg | QtWarningMsg | QtCriticalMsg | QtFatalMsg | OtherMsg

record debug_log =
  log_open :: bool     \<comment> \<open>\<open>f\<close> is not null\<close>
  log_text :: string   \<comment> \<open>the contents of the file\<close>

record debug_env =
  log_opens :: bool    \<comment> \<open>whether the file can be opened for appending\<close>
  log_clock :: string  \<comment> \<open>the time of day, as printed\<close>
  process_id :: nat
  log_format :: "qt_msg_type \<Rightarrow> string \<Rightarrow> string"

definition qtServiceCloseDebugLog :: "debug_env \<Rightarrow> debug_log \<Rightarrow> debug_log" where
  "qtServiceCloseDebugLog env d =
     (if \<not> log_open d then d
      else \<lparr>log_open = False, log_text = log_text d @ log_clock env @ '' --- DEBUG LOG CLOSED ---'' @ [nl, nl]\<rparr>)"

fun severity :: "qt_msg_type \<Rightarrow> string" where
  "severity QtWarningMsg = ''WARNING: ''"
| "severity QtCriticalMsg = ''CRITICAL: ''"
| "severity QtFatalMsg = ''FATAL: ''"
| "severity QtDebugMsg = ''DEBUG: ''"
| "severity OtherMsg = []"

definition qtServiceLogDebug :: "debug_env \<Rightarrow> qt_msg_type \<Rightarrow> string \<Rightarrow> debug_log \<Rightarrow> debug_log \<times> bool" where
  \<comment> \<open>the flag says whether the program exits\<close>
  "qtServiceLogDebug env ty msg d =
     (let s = log_clock env @ '' ['' @ number_nat (process_id env) @ ''] '' in
      if \<not> log_open d \<and> \<not> log_opens env then (d, False)
      else
        (let d1 = (if \<not> log_open d
                   then \<lparr>log_open = True, log_text = log_text d @ [nl] @ s @ ''--- DEBUG LOG OPENED ---'' @ [nl]\<rparr>
                   else d);
             d2 = d1\<lparr>log_text := log_text d1 @ s @ severity ty @ log_format env ty msg @ [nl]\<rparr>
         in if ty = QtFatalMsg then (qtServiceCloseDebugLog env d2, True) else (d2, False)))"

lemma debug_log_grows:
  "\<exists>more. log_text d' = log_text d @ more"
  "q = (ty = QtFatalMsg \<and> (log_open d \<or> log_opens env))" if "qtServiceLogDebug env ty msg d = (d', q)"
  using that by (auto simp: qtServiceLogDebug_def qtServiceCloseDebugLog_def Let_def split: if_splits)

section \<open>The documented arguments\<close>

text \<open>
  The table in the documentation of \<open>QtServiceBase\<close> (\<open>qtservice.cpp\<close>, the anchor
  \<open>serviceSpecificArguments\<close>, and the help text): a short and a long form of each argument, and
  what it asks for. Everything else starts the service.
\<close>

datatype request = Install | Uninstall | Execute | Terminate | Pause | Resume | Command | Version | Help | Launch

definition documented_arguments :: "(string \<times> request) list" where
  "documented_arguments =
     [(''-i'', Install), (''-install'', Install), (''-u'', Uninstall), (''-uninstall'', Uninstall),
      (''-e'', Execute), (''-exec'', Execute), (''-t'', Terminate), (''-terminate'', Terminate),
      (''-p'', Pause), (''-pause'', Pause), (''-r'', Resume), (''-resume'', Resume),
      (''-c'', Command), (''-command'', Command), (''-v'', Version), (''-version'', Version),
      (''-h'', Help), (''-help'', Help)]"

fun request_of :: "string list \<Rightarrow> request" where
  "request_of (_ # a # _) = (case map_of documented_arguments a of Some r \<Rightarrow> r | None \<Rightarrow> Launch)"
| "request_of _ = Launch"

fun perform :: "request \<Rightarrow> 'w service_ops \<Rightarrow> service_base \<Rightarrow> 'w \<Rightarrow> 'w exec_result" where
  "perform Install p b w = exec_install p b w"
| "perform Uninstall p b w = exec_uninstall p b w"
| "perform Execute p b w = exec_standalone p b w"
| "perform Terminate p b w = exec_terminate p b w"
| "perform Pause p b w = (Some 0, [], snd (p_pause p (service_name b) w))"
| "perform Resume p b w = (Some 0, [], snd (p_resume p (service_name b) w))"
| "perform Command p b w = exec_command p b w"
| "perform Version p b w = exec_version p b w"
| "perform Help p b w = exec_help b w"
| "perform Launch p b w = exec_start p b w"

lemma exec_performs: "exec_service p b w = perform (request_of (args b)) p b w"
proof (cases "args b" rule: request_of.cases)
  case (1 prog a rest)
  show ?thesis
    by (simp add: exec_service_def 1 documented_arguments_def split: if_splits)
qed (simp_all add: exec_service_def)


section \<open>The contract of the service registry\<close>

text \<open>
  What \<open>exec\<close> relies on to keep the list of installed services: \<open>registered w n\<close> says that the
  system knows a service of that name. Only a successful installation adds to the list and only
  a successful removal takes from it.
\<close>

locale service_registry =
  fixes p :: "'w service_ops" and registered :: "'w \<Rightarrow> string \<Rightarrow> bool" and ok_name :: "string \<Rightarrow> bool"
  assumes looks: "ok_name n \<Longrightarrow> p_isInstalled p n w = (registered w n, w)"
    and adds: "p_install p b account password w = (done, w') \<Longrightarrow> ok_name (service_name b) \<Longrightarrow>
      registered w' = (if done then (registered w)(service_name b := True) else registered w)"
    and removes: "p_uninstall p n w = (done, w') \<Longrightarrow> ok_name n \<Longrightarrow>
      registered w' = (if done then (registered w)(n := False) else registered w)"
    and controls: "registered (snd (p_isRunning p n w)) = registered w" "registered (snd (p_stop p n w)) = registered w"
      "registered (snd (p_pause p n w)) = registered w" "registered (snd (p_resume p n w)) = registered w"
      "registered (snd (p_sendCommand p n c w)) = registered w" "registered (snd (p_start p b w)) = registered w"
    and runs: "registered (snd (p_sysInit p b w)) = registered w"
      "registered (snd (p_createApplication p b argv w)) = registered w"
      "registered (p_sysSetPath p b w) = registered w" "registered (p_postStart p w) = registered w"
      "registered (snd (p_executeApplication p w)) = registered w"
      "registered (p_deleteApplication p w) = registered w" "registered (p_sysCleanup p w) = registered w"
begin

lemma run_loop_registered: "registered (snd (run_loop p as w)) = registered w"
  using runs by (auto simp: run_loop_def Let_def split: prod.splits option.splits) (metis snd_conv)+

lemma run_registered: "registered (snd (run_service p as b argv w)) = registered w"
  using runs run_loop_registered
  by (auto simp: run_service_def Let_def split: prod.splits) (metis snd_conv)+

lemma exec_start_registered: "registered (snd (snd (exec_start p b w))) = registered w"
  using run_registered [of True b "args b" w] controls(6) [of b w]
  by (auto simp: exec_start_def Let_def split: prod.splits option.splits bool.splits)

lemma exec_registered:
  assumes "exec_service p b w = (code, out, w')" "ok_name (service_name b)"
  shows "registered w' n =
    (if n = service_name b \<and> code = Some 0 \<and> request_of (args b) = Install then True
     else if n = service_name b \<and> code = Some 0 \<and> request_of (args b) = Uninstall then False
     else registered w n)"
proof (cases "request_of (args b)")
  case Install
  then show ?thesis
    using assms looks [OF assms(2), of w] adds [of b _ _ w]
    by (auto simp: exec_performs exec_install_def Let_def split: prod.splits if_splits)
next
  case Uninstall
  then show ?thesis
    using assms looks [OF assms(2), of w] removes [of "service_name b" w]
    by (auto simp: exec_performs exec_uninstall_def Let_def split: prod.splits if_splits)
next
  case Execute
  then show ?thesis
    using assms run_registered by (auto simp: exec_performs exec_standalone_def Let_def split: prod.splits) (metis snd_conv)+
next
  case Launch
  then show ?thesis using assms exec_start_registered [of b w] by (simp add: exec_performs)
qed (use assms controls in \<open>auto simp: exec_performs exec_terminate_def exec_command_def exec_version_def exec_help_def
       Let_def looks split: prod.splits dest!: arg_cong [of _ _ snd]\<close>)

end


text \<open>The contract of a platform whose every operation keeps an invariant of its state.\<close>

locale service_invariant =
  fixes p :: "'w service_ops" and inv :: "'w \<Rightarrow> bool"
  assumes controller: "inv w \<Longrightarrow> inv (snd (p_isInstalled p n w))" "inv w \<Longrightarrow> inv (snd (p_isRunning p n w))"
      "inv w \<Longrightarrow> inv (snd (p_install p b account password w))" "inv w \<Longrightarrow> inv (snd (p_uninstall p n w))"
      "inv w \<Longrightarrow> inv (snd (p_stop p n w))" "inv w \<Longrightarrow> inv (snd (p_pause p n w))" "inv w \<Longrightarrow> inv (snd (p_resume p n w))"
      "inv w \<Longrightarrow> inv (snd (p_sendCommand p n c w))" "inv w \<Longrightarrow> inv (snd (p_start p b w))"
    and application: "inv w \<Longrightarrow> inv (snd (p_sysInit p b w))" "inv w \<Longrightarrow> inv (snd (p_createApplication p b argv w))"
      "inv w \<Longrightarrow> inv (p_sysSetPath p b w)" "inv w \<Longrightarrow> inv (p_postStart p w)"
      "inv w \<Longrightarrow> inv (snd (p_executeApplication p w))" "inv w \<Longrightarrow> inv (p_deleteApplication p w)"
      "inv w \<Longrightarrow> inv (p_sysCleanup p w)"
begin

lemma run_loop_inv: "inv w \<Longrightarrow> inv (snd (run_loop p as w))"
  using application(4) [OF application(5)]
  by (auto simp: run_loop_def Let_def split_def application split: option.splits)

lemma run_inv: "inv w \<Longrightarrow> inv (snd (run_service p as b argv w))"
  by (auto simp: run_service_def Let_def split_def application run_loop_inv)

lemma exec_inv: "inv w \<Longrightarrow> inv (snd (snd (exec_service p b w)))"
  by (cases "request_of (args b)")
     (simp_all add: exec_performs exec_install_def exec_uninstall_def exec_version_def exec_standalone_def exec_terminate_def
        exec_command_def exec_help_def exec_start_def Let_def split_def controller run_inv split: option.splits bool.splits)

end

end
