(* ===== verification/ServiceUnix.thy ===== *)
theory ServiceUnix
  imports ServiceFramework ServerCore
begin

text \<open>
  \<open>server/qtservice_unix.cpp\<close> with \<open>qtunixsocket.cpp\<close> and \<open>qtunixserversocket.cpp\<close>: the service
  as a daemon that listens on a local socket, the controller that connects to it, and the list of
  installed services in the settings file of the system. A process is a \<open>daemon\<close> (what its
  service object and its socket hold); the system (\<open>unix\<close>) has the processes, the bound
  addresses, the settings file, and knows which process acts. The virtual functions of the
  service are the argument \<open>svc\<close>; \<open>env\<close> is what the system calls answer.
\<close>

section \<open>The service and its process\<close>

record sys_private =
  ident :: "string option"
  sys_flags :: flags
  cache :: "nat \<Rightarrow> string"  \<comment> \<open>by the address of the socket object\<close>
  bound_path :: string
  listening :: bool

record 'a daemon =
  base :: service_base
  sysd :: "sys_private option"
  app :: "'a option"
  quitting :: bool
  syslog :: "(string \<times> nat \<times> string) list"

datatype 'e daemon_event =
    Begin               \<comment> \<open>the single shot that calls \<open>slotStart\<close>\<close>
  | Control nat string  \<comment> \<open>text arrives on a socket\<close>
  | Hangup nat
  | Own 'e              \<comment> \<open>an event of the application\<close>

record ('a, 'e) unix =
  conf :: "(string \<times> variant) list"     \<comment> \<open>the settings file of the organisation QtSoftware\<close>
  procs :: "nat \<Rightarrow> 'a daemon option"
  listeners :: "string \<Rightarrow> nat option"   \<comment> \<open>which process is bound to an address\<close>
  self :: nat
  run_marker :: bool                     \<comment> \<open>QTSERVICE_RUN in the environment\<close>
  spawned :: "(string \<times> string list \<times> string \<times> bool) list"
  connections :: nat                     \<comment> \<open>how many sockets have been accepted\<close>
  posted :: "'e daemon_event list"
  agenda :: "'e daemon_event list"       \<comment> \<open>what the event loop of this process will be given\<close>

record unix_env =
  login :: string
  current_dir :: string
  env_path :: "string option"
  exists :: "string \<Rightarrow> bool"
  change_dir :: "string \<Rightarrow> string \<Rightarrow> string"
  absolute :: "string \<Rightarrow> string"
  can_detach :: bool
  conf_status :: settings_status
  can_socket :: bool
  can_bind :: bool
  beyond :: string                       \<comment> \<open>the memory after the address structure\<close>
  socket_at :: "nat \<Rightarrow> nat"              \<comment> \<open>where the n-th accepted socket object is allocated\<close>

section \<open>Names and addresses\<close>

definition lower :: "char \<Rightarrow> char" where
  "lower c = (let n = of_char c :: nat
     in if (65 \<le> n \<and> n \<le> 90) \<or> (192 \<le> n \<and> n \<le> 222 \<and> n \<noteq> 215) then char_of (n + 32) else c)"

definition toLower :: "string \<Rightarrow> string" where
  "toLower s = map lower s"

definition legal :: "bool \<Rightarrow> char \<Rightarrow> bool" where
  "legal allowUpper c = (let n = of_char c :: nat
     in (97 \<le> n \<and> n \<le> 122) \<or> (48 \<le> n \<and> n \<le> 57) \<or> (allowUpper \<and> 65 \<le> n \<and> n \<le> 90))"

function strip_loop :: "bool \<Rightarrow> nat \<Rightarrow> string \<Rightarrow> string" where
  "strip_loop allowUpper pos n =
     (if pos < length n then
        (if \<not> legal allowUpper (n ! pos) then strip_loop allowUpper pos (take_at pos n)
         else strip_loop allowUpper (Suc pos) n)
      else n)"
  by pat_completeness auto
termination by (relation "measure (\<lambda>(u, pos, n). length n - pos)") auto

declare strip_loop.simps [simp del]

definition encodeName :: "string \<Rightarrow> bool \<Rightarrow> string" where
  "encodeName name allowUpper = strip_loop allowUpper 0 (toLower name)"

definition socketPath :: "unix_env \<Rightarrow> string \<Rightarrow> string" where
  "socketPath env n = ''/var/tmp/'' @ encodeName n False @ ''.'' @ login env"

definition sun_path_size :: nat where
  "sun_path_size = 108"

definition sun_path :: "string \<Rightarrow> string" where
  \<comment> \<open>the array after \<open>memset\<close> and \<open>memcpy\<close>\<close>
  "sun_path path =
     (let p = takeWhile (\<lambda>c. c \<noteq> NUL) path; pathlen = min (length p) sun_path_size
      in take pathlen p @ replicate (sun_path_size - pathlen) NUL)"

definition sun_name :: "unix_env \<Rightarrow> string \<Rightarrow> string" where
  \<comment> \<open>the name \<open>SUN_LEN\<close> measures: \<open>strlen\<close> reads on when the array holds no zero\<close>
  "sun_name env path = takeWhile (\<lambda>c. c \<noteq> NUL) (sun_path path @ beyond env)"

definition connectTo :: "unix_env \<Rightarrow> string \<Rightarrow> ('a, 'e) unix \<Rightarrow> nat option" where
  "connectTo env path w =
     (if can_socket env \<and> length (sun_name env path) \<le> sun_path_size then listeners w (sun_name env path) else None)"

section \<open>The log of the system\<close>

definition LOG_ERR :: nat where
  "LOG_ERR = 3"

definition LOG_WARNING :: nat where
  "LOG_WARNING = 4"

definition LOG_INFO :: nat where
  "LOG_INFO = 6"

fun priority :: "message_type \<Rightarrow> nat" where
  "priority Error = LOG_ERR"
| "priority Warning = LOG_WARNING"
| "priority _ = LOG_INFO"

definition logMessage :: "string \<Rightarrow> message_type \<Rightarrow> 'a daemon \<Rightarrow> 'a daemon" where
  "logMessage message ty d =
     (case sysd d of
        None \<Rightarrow> d
      | Some y \<Rightarrow>
          (let name = (case ident y of None \<Rightarrow> encodeName (service_name (base d)) True | Some i \<Rightarrow> i)
           in d\<lparr>sysd := Some (y\<lparr>ident := Some name\<rparr>),
                syslog := syslog d @ map (\<lambda>line. (name, priority ty, line)) (split_on nl message)\<rparr>))"

fun log_messages :: "(string \<times> message_type) list \<Rightarrow> 'a daemon \<Rightarrow> 'a daemon" where
  "log_messages [] d = d"
| "log_messages ((message, ty) # ms) d = log_messages ms (logMessage message ty d)"

definition setServiceFlags :: "flags \<Rightarrow> 'a daemon \<Rightarrow> 'a daemon" where
  "setServiceFlags fl d =
     (if serviceFlags (base d) = fl then d
      else d\<lparr>base := (base d)\<lparr>serviceFlags := fl\<rparr>, sysd := map_option (\<lambda>y. y\<lparr>sys_flags := fl\<rparr>) (sysd d)\<rparr>)"

section \<open>Commands from a controller\<close>

definition crlf :: string where
  "crlf = [CHR 0x0D, nl]"

fun find_crlf :: "string \<Rightarrow> nat option" where
  "find_crlf (a # b # rest) =
     (if a = CHR 0x0D \<and> b = nl then Some 0 else map_option Suc (find_crlf (b # rest)))"
| "find_crlf _ = None"

definition on_cache :: "(string \<Rightarrow> string) \<Rightarrow> nat \<Rightarrow> 'a daemon \<Rightarrow> 'a daemon" where
  "on_cache f s d = d\<lparr>sysd := map_option (\<lambda>y. y\<lparr>cache := (cache y)(s := f (cache y s))\<rparr>) (sysd d)\<rparr>"

definition cached :: "nat \<Rightarrow> 'a daemon \<Rightarrow> string" where
  "cached s d = (case sysd d of None \<Rightarrow> [] | Some y \<Rightarrow> cache y s)"

definition getCommand :: "nat \<Rightarrow> 'a daemon \<Rightarrow> string \<times> 'a daemon" where
  "getCommand s d =
     (case find_crlf (cached s d) of
        Some pos \<Rightarrow> (take pos (cached s d), on_cache (drop (pos + 2)) s d)
      | None \<Rightarrow> ([], d))"

text \<open>The state a virtual function leaves.\<close>

definition absorb :: "('a \<Rightarrow> 'a fate) \<Rightarrow> 'a daemon \<Rightarrow> 'a daemon option" where
  "absorb f d =
     (case app d of
        None \<Rightarrow> None
      | Some a \<Rightarrow>
          (case f a of
             Dies \<Rightarrow> None
           | Lives a' q ms \<Rightarrow> Some ((log_messages ms d)\<lparr>app := Some a', quitting := quitting d \<or> q\<rparr>)))"

definition flag_set :: "flags \<Rightarrow> 'a daemon \<Rightarrow> bool" where
  "flag_set f d = (case sysd d of None \<Rightarrow> False | Some y \<Rightarrow> has_flag (sys_flags y) f)"

definition run_command :: "('a, 'e) service \<Rightarrow> string \<Rightarrow> 'a daemon \<Rightarrow> (bool \<times> 'a daemon) option" where
  "run_command svc cmd d =
     (if cmd = ''terminate'' then
        (if \<not> flag_set CannotBeStopped d
         then map_option (\<lambda>d1. (True, d1\<lparr>quitting := True\<rparr>)) (absorb (on_stop svc) d)
         else Some (False, d))
      else if cmd = ''pause'' then
        (if flag_set CanBeSuspended d then map_option (Pair True) (absorb (on_pause svc) d) else Some (False, d))
      else if cmd = ''resume'' then
        (if flag_set CanBeSuspended d then map_option (Pair True) (absorb (on_resume svc) d) else Some (False, d))
      else if cmd = ''alive'' then Some (True, d)
      else if length cmd > 4 \<and> take 4 cmd = ''num:''
      then map_option (Pair True) (absorb (on_command svc (read_int (drop 4 cmd))) d)
      else Some (False, d))"

definition reply_text :: "bool \<Rightarrow> string" where
  "reply_text b = (if b then ''true'' else ''false'')"

subsection \<open>What the commands leave alone\<close>

lemma cached_log [simp]: "cached s (logMessage m ty d) = cached s d"
  by (simp add: logMessage_def cached_def Let_def split: option.splits)

lemma cached_logs [simp]: "cached s (log_messages ms d) = cached s d"
  by (induction ms d rule: log_messages.induct) simp_all

lemma sysd_simp [simp]: "cached s (d\<lparr>quitting := q\<rparr>) = cached s d" "cached s (d\<lparr>app := a\<rparr>) = cached s d"
  "cached s (d\<lparr>app := a, quitting := q\<rparr>) = cached s d"
  by (simp_all add: cached_def)

lemma cached_absorb: "absorb f d = Some d' \<Longrightarrow> cached s d' = cached s d"
  by (auto simp: absorb_def split: option.splits fate.splits)

lemma cached_run_command: "run_command svc cmd d = Some (b, d') \<Longrightarrow> cached s d' = cached s d"
  by (auto simp: run_command_def cached_absorb split: if_splits)

lemma cached_on_cache: "cached s (on_cache f s d) = (if sysd d = None then [] else f (cached s d))"
  by (auto simp: cached_def on_cache_def split: option.splits)

lemma find_crlf_bound: "find_crlf t = Some pos \<Longrightarrow> pos + 2 \<le> length t"
  by (induction t arbitrary: pos rule: find_crlf.induct) (auto split: if_splits)

lemma getCommand_shrinks:
  "getCommand s d = (cmd, d') \<Longrightarrow> cmd \<noteq> [] \<Longrightarrow> length (cached s d') < length (cached s d)"
  using find_crlf_bound [of "cached s d"]
  by (fastforce simp: getCommand_def cached_on_cache split: option.splits)

lemma served_shrinks:
  "(cmd, d1) = getCommand s d \<Longrightarrow> cmd \<noteq> [] \<Longrightarrow> run_command svc cmd d1 = Some (b, d2) \<Longrightarrow>
   length (cached s d2) < length (cached s d)"
  using getCommand_shrinks [of s d cmd d1] cached_run_command [of svc cmd d1 b d2 s] by simp

function serve_commands :: "('a, 'e) service \<Rightarrow> nat \<Rightarrow> 'a daemon \<Rightarrow> (string list \<times> 'a daemon) option" where
  "serve_commands svc s d =
     (let (cmd, d1) = getCommand s d
      in if cmd = [] then Some ([], d1)
         else (case run_command svc cmd d1 of
                 None \<Rightarrow> None
               | Some (b, d2) \<Rightarrow> map_option (\<lambda>(rs, d3). (reply_text b # rs, d3)) (serve_commands svc s d2)))"
  by pat_completeness auto
termination
  by (relation "measure (\<lambda>(svc, s, d). length (cached s d))")
     (auto intro: served_shrinks)

declare serve_commands.simps [simp del]

definition slotReady :: "('a, 'e) service \<Rightarrow> nat \<Rightarrow> string \<Rightarrow> 'a daemon \<Rightarrow> (string list \<times> 'a daemon) option" where
  "slotReady svc s text d = serve_commands svc s (on_cache (\<lambda>t. t @ text) s d)"


section \<open>The stream of commands\<close>

text \<open>
  What \<open>getCommand\<close> makes of a text, as a function of its own: the commands up to the first
  empty line, and the text left. \<open>run_commands\<close> runs a list of commands.
\<close>

function commands_of :: "string \<Rightarrow> string list \<times> string" where
  "commands_of t =
     (case find_crlf t of
        None \<Rightarrow> ([], t)
      | Some pos \<Rightarrow>
          if pos = 0 then ([], drop 2 t)
          else (let (cs, r) = commands_of (drop (pos + 2) t) in (take pos t # cs, r)))"
  by pat_completeness auto
termination by (relation "measure length") (auto dest: find_crlf_bound)

declare commands_of.simps [simp del]

fun run_commands :: "('a, 'e) service \<Rightarrow> string list \<Rightarrow> 'a daemon \<Rightarrow> (string list \<times> 'a daemon) option" where
  "run_commands svc [] d = Some ([], d)"
| "run_commands svc (c # cs) d =
     (case run_command svc c d of
        None \<Rightarrow> None
      | Some (b, d1) \<Rightarrow> map_option (\<lambda>(rs, d2). (reply_text b # rs, d2)) (run_commands svc cs d1))"

lemma run_commands_append:
  "run_commands svc (as @ bs) d =
     (case run_commands svc as d of
        None \<Rightarrow> None
      | Some (rs, d1) \<Rightarrow> map_option (\<lambda>(rs', d2). (rs @ rs', d2)) (run_commands svc bs d1))"
  by (induction as arbitrary: d) (auto simp: option.map_comp comp_def split_def option.map_id [unfolded id_def] split: option.splits)

lemma logMessage_on_cache: "logMessage m ty (on_cache f s d) = on_cache f s (logMessage m ty d)"
  by (simp add: logMessage_def on_cache_def Let_def split: option.splits)

lemma log_messages_on_cache: "log_messages ms (on_cache f s d) = on_cache f s (log_messages ms d)"
  by (induction ms d rule: log_messages.induct) (simp_all add: logMessage_on_cache)

lemma on_cache_fields [simp]: "app (on_cache f s d) = app d" "quitting (on_cache f s d) = quitting d"
  "base (on_cache f s d) = base d" "syslog (on_cache f s d) = syslog d"
  "flag_set fl (on_cache f s d) = flag_set fl d" "(sysd (on_cache f s d) = None) = (sysd d = None)"
  by (auto simp: on_cache_def flag_set_def split: option.splits)

lemma on_cache_update [simp]:
  "(on_cache f s d)\<lparr>quitting := q\<rparr> = on_cache f s (d\<lparr>quitting := q\<rparr>)"
  "(on_cache f s d)\<lparr>app := a\<rparr> = on_cache f s (d\<lparr>app := a\<rparr>)"
  by (simp_all add: on_cache_def)

lemma absorb_on_cache: "absorb g (on_cache f s d) = map_option (on_cache f s) (absorb g d)"
  by (auto simp: absorb_def log_messages_on_cache split: option.splits fate.splits)

lemma run_command_on_cache:
  "run_command svc cmd (on_cache f s d) = map_option (map_prod id (on_cache f s)) (run_command svc cmd d)"
  by (simp add: run_command_def absorb_on_cache option.map_comp comp_def)

lemma run_commands_on_cache:
  "run_commands svc cs (on_cache f s d) = map_option (map_prod id (on_cache f s)) (run_commands svc cs d)"
  by (induction cs arbitrary: d)
     (auto simp: run_command_on_cache option.map_comp comp_def split_def split: option.splits)

lemma on_cache_on_cache [simp]: "on_cache f s (on_cache g s d) = on_cache (\<lambda>t. f (g t)) s d"
  by (cases "sysd d") (simp_all add: on_cache_def)

lemma on_cache_id: "sysd d \<noteq> None \<Longrightarrow> r = cached s d \<Longrightarrow> on_cache (\<lambda>_. r) s d = d"
  by (cases "sysd d") (simp_all add: on_cache_def cached_def)

lemma on_cache_cong: "f (cached s d) = g (cached s d) \<Longrightarrow> on_cache f s d = on_cache g s d"
  by (cases "sysd d") (simp_all add: on_cache_def cached_def)

lemma run_command_sysd: "run_command svc c d = Some (b, d') \<Longrightarrow> (sysd d' = None) = (sysd d = None)"
proof -
  have logs: "(sysd (log_messages ms d) = None) = (sysd d = None)" for ms and d :: "'a daemon"
    by (induction ms d rule: log_messages.induct) (auto simp: logMessage_def Let_def split: option.splits)
  assume "run_command svc c d = Some (b, d')"
  then show ?thesis by (auto simp: run_command_def absorb_def logs split: if_splits option.splits fate.splits)
qed

lemma serve_commands_eq:
  assumes "sysd d \<noteq> None"
  shows "serve_commands svc s d =
    (let (cs, r) = commands_of (cached s d) in run_commands svc cs (on_cache (\<lambda>_. r) s d))"
  using assms
proof (induction svc s d rule: serve_commands.induct)
  case (1 svc s d)
  show ?case
  proof (cases "find_crlf (cached s d)")
    case None
    then show ?thesis using 1(2)
      by (simp add: serve_commands.simps [of svc s d] getCommand_def commands_of.simps [of "cached s d"] on_cache_id)
  next
    case (Some pos)
    define d1 where "d1 = on_cache (drop (pos + 2)) s d"
    define cmd where "cmd = take pos (cached s d)"
    have get: "getCommand s d = (cmd, d1)" using Some by (simp add: getCommand_def d1_def cmd_def)
    have c1: "cached s d1 = drop (pos + 2) (cached s d)" using 1(2) by (auto simp: d1_def cached_on_cache)
    have over: "on_cache (\<lambda>_. r) s d1 = on_cache (\<lambda>_. r) s d" for r by (simp add: d1_def)
    show ?thesis
    proof (cases "pos = 0")
      case True
      then have "cmd = []" by (simp add: cmd_def)
      moreover have "d1 = on_cache (\<lambda>_. drop 2 (cached s d)) s d"
        unfolding d1_def by (rule on_cache_cong) (simp add: True numeral_2_eq_2)
      ultimately show ?thesis using Some True get
        by (simp add: serve_commands.simps [of svc s d] commands_of.simps [of "cached s d"])
    next
      case False
      then have cmd: "cmd \<noteq> []" using find_crlf_bound [OF Some] by (auto simp: cmd_def)
      obtain cs r where cs: "commands_of (cached s d1) = (cs, r)" by (cases "commands_of (cached s d1)") auto
      then have all: "commands_of (cached s d) = (cmd # cs, r)"
        using Some False c1 by (simp add: commands_of.simps [of "cached s d"] cmd_def)
      show ?thesis
      proof (cases "run_command svc cmd d1")
        case None
        then have "run_command svc cmd d = None" by (simp add: d1_def run_command_on_cache)
        then show ?thesis using None get cmd all
          by (simp add: serve_commands.simps [of svc s d] run_command_on_cache)
      next
        case (Some bd)
        then obtain b d2 where bd: "run_command svc cmd d1 = Some (b, d2)" by (cases bd) auto
        have live: "sysd d2 \<noteq> None" using run_command_sysd [OF bd] 1(2) by (simp add: d1_def)
        have c2: "cached s d2 = cached s d1" by (rule cached_run_command [OF bd])
        have "serve_commands svc s d2 = run_commands svc cs (on_cache (\<lambda>_. r) s d2)"
          using 1(1) [OF get [symmetric] refl cmd bd refl] live cs c2 by simp
        moreover have "run_command svc cmd (on_cache (\<lambda>_. r) s d) = Some (b, on_cache (\<lambda>_. r) s d2)"
          using bd run_command_on_cache [of svc cmd "\<lambda>_. r" s d1] by (simp add: over)
        ultimately show ?thesis using get cmd bd all
          by (simp add: serve_commands.simps [of svc s d])
      qed
    qed
  qed
qed


lemma find_crlf_append: "find_crlf t = Some pos \<Longrightarrow> find_crlf (t @ u) = Some pos"
  by (induction t arbitrary: pos rule: find_crlf.induct) (auto split: if_splits)

lemma find_crlf_line: "CHR 0x0D \<notin> set c \<Longrightarrow> find_crlf (c @ crlf @ u) = Some (length c)"
proof (induction c)
  case (Cons x xs)
  then show ?case by (cases xs) (auto simp: crlf_def)
qed (simp add: crlf_def)

text \<open>No empty line stops the loop in the text.\<close>

function no_empty_line :: "string \<Rightarrow> bool" where
  "no_empty_line t =
     (case find_crlf t of None \<Rightarrow> True | Some pos \<Rightarrow> pos \<noteq> 0 \<and> no_empty_line (drop (pos + 2) t))"
  by pat_completeness auto
termination by (relation "measure length") (auto dest: find_crlf_bound)

declare no_empty_line.simps [simp del]

lemma commands_of_append:
  assumes "no_empty_line t" "commands_of t = (cs, r)"
  shows "commands_of (t @ u) = (let (cs', r') = commands_of (r @ u) in (cs @ cs', r'))"
  using assms
proof (induction t arbitrary: cs rule: commands_of.induct)
  case (1 t)
  show ?case
  proof (cases "find_crlf t")
    case None
    then show ?thesis using 1(3) by (simp add: commands_of.simps [of t])
  next
    case (Some pos)
    then have pos: "pos \<noteq> 0" "no_empty_line (drop (pos + 2) t)" "pos + 2 \<le> length t"
      using 1(2) find_crlf_bound by (auto simp: no_empty_line.simps [of t])
    obtain cs1 where cs1: "commands_of (drop (pos + 2) t) = (cs1, r)" "cs = take pos t # cs1"
      using Some pos(1) 1(3) by (auto simp: commands_of.simps [of t] split: prod.splits)
    have "commands_of (t @ u) = (let (cs', r') = commands_of (drop (pos + 2) t @ u) in (take pos t # cs', r'))"
      using Some pos find_crlf_append [OF Some, of u] by (simp add: commands_of.simps [of "t @ u"])
    then show ?thesis using 1(1) [OF Some pos(1,2) cs1(1)] cs1(2) by (simp add: split_def Let_def)
  qed
qed

lemma commands_of_line:
  "c \<noteq> [] \<Longrightarrow> CHR 0x0D \<notin> set c \<Longrightarrow>
   commands_of (c @ crlf @ u) = (let (cs, r) = commands_of u in (c # cs, r))"
  by (subst commands_of.simps) (simp add: find_crlf_line, simp add: crlf_def)

lemma commands_of_Nil [simp]: "commands_of [] = ([], [])"
  by (subst commands_of.simps) simp

lemma slotReady_eq:
  assumes "sysd d \<noteq> None"
  shows "slotReady svc s text d =
    (let (cs, r) = commands_of (cached s d @ text) in run_commands svc cs (on_cache (\<lambda>_. r) s d))"
  using assms by (auto simp: slotReady_def serve_commands_eq cached_on_cache)

lemma run_commands_cached: "run_commands svc cs d = Some (rs, d') \<Longrightarrow> cached s d' = cached s d"
  by (induction cs arbitrary: rs d) (auto dest: cached_run_command split: option.splits)

lemma run_commands_sysd: "run_commands svc cs d = Some (rs, d') \<Longrightarrow> (sysd d' = None) = (sysd d = None)"
  by (induction cs arbitrary: rs d) (auto dest: run_command_sysd split: option.splits)

text \<open>C31: how the text of a controller is cut into pieces on its way does not matter: if no empty
  line comes up, the daemon that gets it in two pieces (even cut between the carriage return and the
  line feed) gives the replies, and ends in the state, of one that gets it whole.\<close>

theorem chunked_commands:
  assumes "sysd d \<noteq> None" "no_empty_line (cached s d @ a)"
  shows "slotReady svc s (a @ b) d =
    (case slotReady svc s a d of
       None \<Rightarrow> None
     | Some (rs, d1) \<Rightarrow> map_option (\<lambda>(rs', d2). (rs @ rs', d2)) (slotReady svc s b d1))"
proof -
  obtain cs r where cs: "commands_of (cached s d @ a) = (cs, r)" by (cases "commands_of (cached s d @ a)") auto
  obtain cs' r' where cs': "commands_of (r @ b) = (cs', r')" by (cases "commands_of (r @ b)") auto
  have all: "commands_of (cached s d @ a @ b) = (cs @ cs', r')"
    using commands_of_append [OF assms(2) cs, of b] cs' by simp
  show ?thesis
  proof (cases "run_commands svc cs (on_cache (\<lambda>_. r) s d)")
    case None
    then have "run_commands svc cs (on_cache (\<lambda>_. r') s d) = None" by (simp add: run_commands_on_cache)
    then show ?thesis using None assms(1) cs all by (simp add: slotReady_eq run_commands_append)
  next
    case (Some x)
    then obtain rs d1 where d1: "run_commands svc cs (on_cache (\<lambda>_. r) s d) = Some (rs, d1)" by (cases x) auto
    have live: "sysd d1 \<noteq> None" using run_commands_sysd [OF d1] assms(1) by simp
    have r: "cached s d1 = r" using run_commands_cached [OF d1, of s] assms(1) by (simp add: cached_on_cache)
    have "run_commands svc cs (on_cache (\<lambda>_. r') s d) = Some (rs, on_cache (\<lambda>_. r') s d1)"
      using d1 run_commands_on_cache [of svc cs "\<lambda>_. r'" s "on_cache (\<lambda>_. r) s d"] by simp
    then show ?thesis using assms(1) cs all d1 live r cs' by (simp add: slotReady_eq run_commands_append)
  qed
qed

text \<open>an empty line stops the daemon from reading on: whatever commands came after it in the same
  piece stay in the cache, unanswered, until more text arrives.\<close>

theorem empty_line_stalls:
  assumes "sysd d \<noteq> None" "cached s d = []"
  shows "slotReady svc s (crlf @ t) d = Some ([], on_cache (\<lambda>_. t) s d)"
proof -
  have "commands_of (crlf @ t) = ([], t)" by (subst commands_of.simps) (simp add: crlf_def)
  then show ?thesis using assms by (simp add: slotReady_eq)
qed


subsection \<open>The commands a controller sends\<close>

datatype control = StopIt | PauseIt | ResumeIt | Ask | Send int

fun control_text :: "control \<Rightarrow> string" where
  "control_text StopIt = ''terminate''"
| "control_text PauseIt = ''pause''"
| "control_text ResumeIt = ''resume''"
| "control_text Ask = ''alive''"
| "control_text (Send code) = ''num:'' @ number code"

text \<open>What the documentation of the controller promises for each of them.\<close>

fun control_meaning :: "('a, 'e) service \<Rightarrow> control \<Rightarrow> 'a daemon \<Rightarrow> (bool \<times> 'a daemon) option" where
  "control_meaning svc StopIt d =
     (if flag_set CannotBeStopped d then Some (False, d)
      else map_option (\<lambda>d1. (True, d1\<lparr>quitting := True\<rparr>)) (absorb (on_stop svc) d))"
| "control_meaning svc PauseIt d =
     (if flag_set CanBeSuspended d then map_option (Pair True) (absorb (on_pause svc) d) else Some (False, d))"
| "control_meaning svc ResumeIt d =
     (if flag_set CanBeSuspended d then map_option (Pair True) (absorb (on_resume svc) d) else Some (False, d))"
| "control_meaning svc Ask d = Some (True, d)"
| "control_meaning svc (Send code) d = map_option (Pair True) (absorb (on_command svc code) d)"

fun control_ok :: "control \<Rightarrow> bool" where
  "control_ok (Send code) = int_ok code"
| "control_ok _ = True"

lemma number_nonempty [simp]: "number i \<noteq> []"
  using number_nat_ok by (simp add: number_def digits_ok_def)

lemma number_no_cr: "CHR 0x0D \<notin> set (number i)"
proof -
  have "is_space (CHR 0x0D)" by (simp add: is_space_def)
  then show ?thesis using number_nat_ok [of "nat i"] number_nat_ok [of "nat (- i)"]
    by (auto simp: number_def digits_ok_def)
qed

text \<open>
  The contract between the two ends of the socket: every command has a text of its own, a line
  that is not empty, and the daemon does for the text what the command means.
\<close>

locale command_line =
  fixes text_of :: "'c \<Rightarrow> string" and meaning :: "'c \<Rightarrow> 'a daemon \<Rightarrow> (bool \<times> 'a daemon) option"
    and svc :: "('a, 'e) service" and ok :: "'c \<Rightarrow> bool"
  assumes one_line: "ok c \<Longrightarrow> text_of c \<noteq> [] \<and> CHR 0x0D \<notin> set (text_of c)"
    and understood: "ok c \<Longrightarrow> run_command svc (text_of c) d = meaning c d"
begin

lemma commands_of_stream:
  "list_all ok cs \<Longrightarrow> commands_of (concat (map (\<lambda>c. text_of c @ crlf) cs)) = (map text_of cs, [])"
  by (induction cs) (simp_all add: commands_of_line one_line)

lemma stream_delivered:
  assumes "list_all ok cs" "sysd d \<noteq> None" "cached s d = []"
  shows "slotReady svc s (concat (map (\<lambda>c. text_of c @ crlf) cs)) d = run_commands svc (map text_of cs) d"
proof -
  have "on_cache (\<lambda>_. []) s d = d" by (rule on_cache_id) (use assms(2,3) in auto)
  then show ?thesis using assms commands_of_stream [of cs] by (simp add: slotReady_eq)
qed

lemma command_delivered:
  assumes "ok c" "sysd d \<noteq> None" "cached s d = []"
  shows "slotReady svc s (text_of c @ crlf) d = map_option (\<lambda>(b, d1). ([reply_text b], d1)) (meaning c d)"
  using stream_delivered [of "[c]" d s] assms by (auto simp: understood split: option.splits)

end

lemma control_line: "control_ok c \<Longrightarrow> control_text c \<noteq> [] \<and> CHR 0x0D \<notin> set (control_text c)"
  by (cases c) (simp_all add: number_no_cr)

lemma control_understood: "control_ok c \<Longrightarrow> run_command svc (control_text c) d = control_meaning svc c d"
proof (cases c)
  case (Send code)
  assume "control_ok c"
  then have "read_int (number code) = code" using Send by (simp add: read_number)
  moreover have "length (''num:'' @ number code) > 4" by simp
  ultimately show ?thesis using Send by (simp add: run_command_def)
qed (simp_all add: run_command_def)

interpretation controls: command_line control_text "control_meaning svc" svc control_ok for svc
  by unfold_locales (use control_line control_understood in auto)

section \<open>The controller's end\<close>

definition deliver :: "unix_env \<Rightarrow> ('a, 'e) service \<Rightarrow> nat \<Rightarrow> string \<Rightarrow> ('a, 'e) unix \<Rightarrow> string \<times> ('a, 'e) unix" where
  \<comment> \<open>a process accepts a connection, reads a text from it and writes its replies\<close>
  "deliver env svc pid text w =
     (let s = socket_at env (connections w); w1 = w\<lparr>connections := Suc (connections w)\<rparr>
      in case procs w pid of
           None \<Rightarrow> ([], w1)
         | Some d \<Rightarrow>
             (if quitting d then ([], w1)
              else (case slotReady svc s text d of
                      None \<Rightarrow> ([], w1\<lparr>procs := (procs w)(pid := None),
                                    listeners := (\<lambda>a. if listeners w a = Some pid then None else listeners w a)\<rparr>)
                    | Some (rs, d1) \<Rightarrow> (concat rs, w1\<lparr>procs := (procs w)(pid \<mapsto> d1)\<rparr>))))"

definition sendCmd :: "unix_env \<Rightarrow> ('a, 'e) service \<Rightarrow> string \<Rightarrow> string \<Rightarrow> ('a, 'e) unix \<Rightarrow> bool \<times> ('a, 'e) unix" where
  "sendCmd env svc n cmd w =
     (case connectTo env (socketPath env n) w of
        None \<Rightarrow> (False, w)
      | Some pid \<Rightarrow> (let (reply, w1) = deliver env svc pid (cmd @ crlf) w in (reply = ''true'', w1)))"

definition controller_stop :: "unix_env \<Rightarrow> ('a, 'e) service \<Rightarrow> string \<Rightarrow> ('a, 'e) unix \<Rightarrow> bool \<times> ('a, 'e) unix" where
  "controller_stop env svc n w = sendCmd env svc n ''terminate'' w"

definition controller_pause :: "unix_env \<Rightarrow> ('a, 'e) service \<Rightarrow> string \<Rightarrow> ('a, 'e) unix \<Rightarrow> bool \<times> ('a, 'e) unix" where
  "controller_pause env svc n w = sendCmd env svc n ''pause'' w"

definition controller_resume :: "unix_env \<Rightarrow> ('a, 'e) service \<Rightarrow> string \<Rightarrow> ('a, 'e) unix \<Rightarrow> bool \<times> ('a, 'e) unix" where
  "controller_resume env svc n w = sendCmd env svc n ''resume'' w"

definition controller_sendCommand :: "unix_env \<Rightarrow> ('a, 'e) service \<Rightarrow> string \<Rightarrow> int \<Rightarrow> ('a, 'e) unix \<Rightarrow> bool \<times> ('a, 'e) unix" where
  "controller_sendCommand env svc n code w = sendCmd env svc n (''num:'' @ number code) w"

definition isRunning :: "unix_env \<Rightarrow> string \<Rightarrow> ('a, 'e) unix \<Rightarrow> bool \<times> ('a, 'e) unix" where
  "isRunning env n w =
     (case connectTo env (socketPath env n) w of
        None \<Rightarrow> (False, w)
      | Some pid \<Rightarrow> (True, w\<lparr>connections := Suc (connections w)\<rparr>))"

section \<open>The list of installed services\<close>

definition services_key :: "string \<Rightarrow> string \<Rightarrow> string" where
  "services_key n k = ''services/'' @ n @ ''/'' @ k"

definition group_of :: "string \<Rightarrow> string \<Rightarrow> string option" where
  \<comment> \<open>the child group of a group that a key belongs to\<close>
  "group_of prefix k =
     (let rest = drop (length prefix) k
      in if take (length prefix) k = prefix \<and> CHR ''/'' \<in> set rest
         then Some (takeWhile (\<lambda>c. c \<noteq> CHR ''/'') rest) else None)"

definition childGroups :: "string \<Rightarrow> (string \<times> variant) list \<Rightarrow> string list" where
  "childGroups prefix c = remdups (List.map_filter (\<lambda>(k, _). group_of prefix k) c)"

definition conf_value :: "string \<Rightarrow> string \<Rightarrow> (string \<times> variant) list \<Rightarrow> variant" where
  "conf_value n k c = (case qlookup c (services_key n k) of Some v \<Rightarrow> v | None \<Rightarrow> VInvalid)"

definition conf_remove :: "string \<Rightarrow> (string \<times> variant) list \<Rightarrow> (string \<times> variant) list" where
  \<comment> \<open>\<open>remove\<close> in the group \<open>services\<close>: the key and what lies under it; everything, for an empty key\<close>
  "conf_remove n c =
     (if n = [] then filter (\<lambda>(k, _). take 9 k \<noteq> ''services/'') c
      else filter (\<lambda>(k, _). k \<noteq> ''services/'' @ n \<and>
        take (length (services_key n [])) k \<noteq> services_key n []) c)"

definition isInstalled :: "string \<Rightarrow> ('a, 'e) unix \<Rightarrow> bool \<times> ('a, 'e) unix" where
  "isInstalled n w = (list_ex (\<lambda>g. g = n) (childGroups ''services/'' (conf w)), w)"

definition service_description :: "string \<Rightarrow> ('a, 'e) unix \<Rightarrow> string" where
  "service_description n w = to_str (conf_value n ''description'' (conf w))"

definition startup_type_of :: "string \<Rightarrow> ('a, 'e) unix \<Rightarrow> startup_type" where
  "startup_type_of n w = (if to_int (conf_value n ''startupType'' (conf w)) = 0 then AutoStartup else ManualStartup)"

definition serviceFilePath :: "string \<Rightarrow> ('a, 'e) unix \<Rightarrow> string" where
  "serviceFilePath n w = to_str (conf_value n ''path'' (conf w))"

definition uninstall :: "unix_env \<Rightarrow> string \<Rightarrow> ('a, 'e) unix \<Rightarrow> bool \<times> ('a, 'e) unix" where
  "uninstall env n w =
     (conf_status env = NoError, if conf_status env = NoError then w\<lparr>conf := conf_remove n (conf w)\<rparr> else w)"

subsection \<open>The path of the program\<close>

definition file_name :: "string \<Rightarrow> string" where
  \<comment> \<open>\<open>QFileInfo::fileName\<close>\<close>
  "file_name path = rev (takeWhile (\<lambda>c. c \<noteq> CHR ''/'') (rev path))"

definition dir_part :: "string \<Rightarrow> string" where
  \<comment> \<open>up to the last slash, as \<open>QFileInfo::absolutePath\<close> gives it for an absolute path\<close>
  "dir_part path =
     (let d = take (length path - length (file_name path) - 1) path in if d = [] then ''/'' else d)"

definition absPath :: "unix_env \<Rightarrow> string \<Rightarrow> string" where
  "absPath env path =
     (if path = [] \<or> hd path \<noteq> CHR ''/'' then
        (if CHR ''/'' \<in> set path
         then change_dir env (current_dir env) (take (length path - length (file_name path) - 1) path)
         else (case env_path env of
                 None \<Rightarrow> []
               | Some p \<Rightarrow>
                   (case find (\<lambda>d. exists env (d @ ''/'' @ path)) (split_on (CHR '':'') p) of
                      None \<Rightarrow> [] | Some d \<Rightarrow> absolute env d)))
      else dir_part path)"

definition in_dir :: "string \<Rightarrow> string \<Rightarrow> string" where
  \<comment> \<open>\<open>QDir::absoluteFilePath\<close>\<close>
  "in_dir d f = (if d \<noteq> [] \<and> last d = CHR ''/'' then d @ f else d @ ''/'' @ f)"

definition filePath :: "unix_env \<Rightarrow> service_base \<Rightarrow> string" where
  "filePath env b =
     (case args b of
        [] \<Rightarrow> []
      | a # _ \<Rightarrow> in_dir (if absPath env a = [] then current_dir env else absPath env a) (file_name a))"

definition startup_code :: "startup_type \<Rightarrow> int" where
  "startup_code t = (case t of AutoStartup \<Rightarrow> 0 | ManualStartup \<Rightarrow> 1)"

definition base_install :: "unix_env \<Rightarrow> service_base \<Rightarrow> string \<Rightarrow> string \<Rightarrow> ('a, 'e) unix \<Rightarrow> bool \<times> ('a, 'e) unix" where
  "base_install env b account password w =
     (let n = service_name b;
          c = qinsert (services_key n ''automaticStartup'') (VInt (startup_code (startupType b)))
                (qinsert (services_key n ''description'') (VStr (serviceDescription b))
                  (qinsert (services_key n ''path'') (VStr (filePath env b)) (conf w)))
      in (conf_status env = NoError, if conf_status env = NoError then w\<lparr>conf := c\<rparr> else w))"


section \<open>The daemon's end\<close>

definition on_own :: "('a daemon \<Rightarrow> 'a daemon) \<Rightarrow> ('a, 'e) unix \<Rightarrow> ('a, 'e) unix" where
  "on_own f w = w\<lparr>procs := (procs w)(self w := map_option f (procs w (self w)))\<rparr>"

definition new_sysd :: "flags \<Rightarrow> sys_private" where
  "new_sysd fl = \<lparr>ident = None, sys_flags = fl, cache = (\<lambda>_. []), bound_path = [], listening = False\<rparr>"

definition sysInit :: "service_base \<Rightarrow> ('a, 'e) unix \<Rightarrow> bool \<times> ('a, 'e) unix" where
  "sysInit b w = (True, on_own (\<lambda>d. d\<lparr>sysd := Some (new_sysd (serviceFlags b))\<rparr>) w)"

definition setPath :: "unix_env \<Rightarrow> string \<Rightarrow> ('a, 'e) unix \<Rightarrow> ('a, 'e) unix" where
  "setPath env path w =
     (let w1 = on_own (\<lambda>d. d\<lparr>sysd := map_option (\<lambda>y. y\<lparr>bound_path := []\<rparr>) (sysd d)\<rparr>) w
      in if \<not> can_socket env then w1
         else
           (let w2 = w1\<lparr>listeners := (listeners w1)(path := None)\<rparr>
            in if can_bind env \<and> length (sun_name env path) \<le> sun_path_size
               then on_own (\<lambda>d. d\<lparr>sysd := map_option (\<lambda>y. y\<lparr>bound_path := path, listening := True\<rparr>) (sysd d)\<rparr>)
                      (w2\<lparr>listeners := (listeners w2)(sun_name env path \<mapsto> self w2)\<rparr>)
               else w2))"

definition sysSetPath :: "unix_env \<Rightarrow> service_base \<Rightarrow> ('a, 'e) unix \<Rightarrow> ('a, 'e) unix" where
  "sysSetPath env b w =
     (case procs w (self w) of
        None \<Rightarrow> w
      | Some d \<Rightarrow> if sysd d = None then w else setPath env (socketPath env (service_name b)) w)"

definition unix_close :: "('a, 'e) unix \<Rightarrow> ('a, 'e) unix" where
  \<comment> \<open>\<open>QtUnixServerSocket::close\<close>\<close>
  "unix_close w =
     (let ls = (\<lambda>a. if listeners w a = Some (self w) then None else listeners w a);
          path = (case procs w (self w) of None \<Rightarrow> [] | Some d \<Rightarrow> (case sysd d of None \<Rightarrow> [] | Some y \<Rightarrow> bound_path y))
      in on_own (\<lambda>d. d\<lparr>sysd := map_option (\<lambda>y. y\<lparr>bound_path := [], listening := False\<rparr>) (sysd d)\<rparr>)
           (w\<lparr>listeners := (if path \<noteq> [] then ls(path := None) else ls)\<rparr>))"

definition sysCleanup :: "('a, 'e) unix \<Rightarrow> ('a, 'e) unix" where
  "sysCleanup w =
     (case procs w (self w) of
        None \<Rightarrow> w
      | Some d \<Rightarrow> if sysd d = None then w else on_own (\<lambda>d. d\<lparr>sysd := None\<rparr>) (unix_close w))"

definition startDetached :: "unix_env \<Rightarrow> string \<Rightarrow> string list \<Rightarrow> string \<Rightarrow> ('a, 'e) unix \<Rightarrow> bool \<times> ('a, 'e) unix" where
  "startDetached env prog argv dir w =
     (if can_detach env then (True, w\<lparr>spawned := spawned w @ [(prog, argv, dir, run_marker w)]\<rparr>) else (False, w))"

definition base_start :: "unix_env \<Rightarrow> ('a, 'e) service \<Rightarrow> service_base \<Rightarrow> ('a, 'e) unix \<Rightarrow> bool \<times> ('a, 'e) unix" where
  "base_start env svc b w =
     (let (alive, w1) = sendCmd env svc (service_name b) ''alive'' w
      in if alive then (False, w1)
         else startDetached env (filePath env b) (drop 1 (args b)) ''/'' (w1\<lparr>run_marker := True\<rparr>))"

definition controller_start :: "unix_env \<Rightarrow> string \<Rightarrow> string list \<Rightarrow> ('a, 'e) unix \<Rightarrow> bool \<times> ('a, 'e) unix" where
  "controller_start env n arguments w =
     (let (installed, w1) = isInstalled n w
      in if \<not> installed then (False, w1)
         else (let (running, w2) = isRunning env n w1
               in if running then (False, w2)
                  else startDetached env (serviceFilePath n w2) arguments [] w2))"

definition createApplication :: "('a, 'e) service \<Rightarrow> ('a, 'e) unix \<Rightarrow> bool \<times> ('a, 'e) unix" where
  "createApplication svc w = (True, on_own (\<lambda>d. d\<lparr>app := Some (fresh svc)\<rparr>) w)"

fun loop_event :: "('a, 'e) service \<Rightarrow> 'e daemon_event \<Rightarrow> 'a daemon \<Rightarrow> (string list \<times> 'a daemon) option" where
  "loop_event svc Begin d = map_option (Pair []) (absorb (on_start svc) d)"
| "loop_event svc (Control s text) d = slotReady svc s text d"
| "loop_event svc (Hangup s) d = Some ([], d)"
| "loop_event svc (Own e) d = map_option (Pair []) (absorb (on_event svc e) d)"

definition process_dies :: "('a, 'e) unix \<Rightarrow> ('a, 'e) unix" where
  "process_dies w =
     w\<lparr>procs := (procs w)(self w := None),
       listeners := (\<lambda>a. if listeners w a = Some (self w) then None else listeners w a)\<rparr>"

fun event_loop :: "('a, 'e) service \<Rightarrow> 'e daemon_event list \<Rightarrow> ('a, 'e) unix \<Rightarrow> int option \<times> ('a, 'e) unix" where
  "event_loop svc [] w = (None, w)"
| "event_loop svc (e # es) w =
     (case procs w (self w) of
        None \<Rightarrow> (None, w)
      | Some d \<Rightarrow>
          (case loop_event svc e d of
             None \<Rightarrow> (None, process_dies w)
           | Some (rs, d1) \<Rightarrow>
               (let w1 = on_own (\<lambda>_. d1) w in if quitting d1 then (Some 0, w1) else event_loop svc es w1)))"

definition executeApplication :: "('a, 'e) service \<Rightarrow> ('a, 'e) unix \<Rightarrow> int option \<times> ('a, 'e) unix" where
  "executeApplication svc w = event_loop svc (posted w @ agenda w) (w\<lparr>posted := [], agenda := []\<rparr>)"

definition unix_platform :: "unix_env \<Rightarrow> ('a, 'e) service \<Rightarrow> ('a, 'e) unix service_ops" where
  "unix_platform env svc =
     \<lparr>p_isInstalled = isInstalled, p_isRunning = isRunning env, p_install = base_install env,
      p_uninstall = uninstall env, p_stop = controller_stop env svc, p_pause = controller_pause env svc,
      p_resume = controller_resume env svc, p_sendCommand = controller_sendCommand env svc,
      p_start = (\<lambda>b w. map_prod Some id (base_start env svc b w)), p_detached = run_marker,
      p_filePath = (\<lambda>b w. filePath env b), p_sysInit = sysInit,
      p_createApplication = (\<lambda>b argv. createApplication svc), p_sysSetPath = sysSetPath env,
      p_postStart = (\<lambda>w. w\<lparr>posted := posted w @ [Begin]\<rparr>), p_executeApplication = executeApplication svc,
      p_deleteApplication = on_own (\<lambda>d. d\<lparr>app := None\<rparr>), p_sysCleanup = sysCleanup\<rparr>"

lemma unix_ops [simp]:
  "p_isInstalled (unix_platform env svc) = isInstalled" "p_isRunning (unix_platform env svc) = isRunning env"
  "p_install (unix_platform env svc) = base_install env" "p_uninstall (unix_platform env svc) = uninstall env"
  "p_stop (unix_platform env svc) = controller_stop env svc" "p_pause (unix_platform env svc) = controller_pause env svc"
  "p_resume (unix_platform env svc) = controller_resume env svc"
  "p_sendCommand (unix_platform env svc) = controller_sendCommand env svc"
  "p_start (unix_platform env svc) = (\<lambda>b w. map_prod Some id (base_start env svc b w))"
  "p_detached (unix_platform env svc) = run_marker" "p_filePath (unix_platform env svc) = (\<lambda>b w. filePath env b)"
  "p_sysInit (unix_platform env svc) = sysInit"
  "p_createApplication (unix_platform env svc) = (\<lambda>b argv. createApplication svc)"
  "p_sysSetPath (unix_platform env svc) = sysSetPath env"
  "p_postStart (unix_platform env svc) = (\<lambda>w. w\<lparr>posted := posted w @ [Begin]\<rparr>)"
  "p_executeApplication (unix_platform env svc) = executeApplication svc"
  "p_deleteApplication (unix_platform env svc) = on_own (\<lambda>d. d\<lparr>app := None\<rparr>)"
  "p_sysCleanup (unix_platform env svc) = sysCleanup"
  by (simp_all add: unix_platform_def)

section \<open>Only installation and removal change the list of services\<close>

named_theorems conf_simps \<open>operations that leave the settings file alone\<close>

lemma conf_own [conf_simps, simp]: "conf (on_own f w) = conf w"
  by (simp add: on_own_def)

lemma conf_deliver [conf_simps]: "conf (snd (deliver env svc pid text w)) = conf w"
  by (simp add: deliver_def Let_def split: option.splits)

lemma conf_sendCmd [conf_simps]: "conf (snd (sendCmd env svc n cmd w)) = conf w"
  by (cases "connectTo env (socketPath env n) w") (simp_all add: sendCmd_def split_def Let_def conf_deliver)

lemma conf_isRunning [conf_simps]: "conf (snd (isRunning env n w)) = conf w"
  by (simp add: isRunning_def split: option.splits)

lemma conf_start [conf_simps]: "conf (snd (base_start env svc b w)) = conf w"
  using conf_sendCmd [of env svc "service_name b" "''alive''" w]
  by (auto simp: base_start_def startDetached_def Let_def split: prod.splits)

lemma conf_close [conf_simps]: "conf (sysSetPath env b w) = conf w" "conf (sysCleanup w) = conf w"
  by (simp_all add: sysSetPath_def setPath_def sysCleanup_def unix_close_def Let_def split: option.splits)

lemma conf_event_loop [conf_simps]: "conf (snd (event_loop svc es w)) = conf w"
  by (induction es arbitrary: w) (auto simp: process_dies_def Let_def split: option.splits prod.splits)

definition plain_name :: "string \<Rightarrow> bool" where
  "plain_name n = (n \<noteq> [] \<and> CHR ''/'' \<notin> set n)"

definition registered :: "('a, 'e) unix \<Rightarrow> string \<Rightarrow> bool" where
  "registered w n = (n \<in> set (childGroups ''services/'' (conf w)))"

lemma child_groups: "n \<in> set (childGroups pre c) \<longleftrightarrow> (\<exists>k \<in> fst ` set c. group_of pre k = Some n)"
  by (force simp: childGroups_def List.map_filter_def)

lemma group_of_key: "CHR ''/'' \<notin> set n \<Longrightarrow> group_of ''services/'' (services_key n k) = Some n"
  by (simp add: group_of_def services_key_def takeWhile_append)


lemma group_of_prefix:
  assumes "group_of ''services/'' k = Some n"
  shows "take (length (services_key n [])) k = services_key n []"
proof -
  define r where "r = drop (length ''services/'') k"
  have r: "take (length ''services/'') k = ''services/''" "CHR ''/'' \<in> set r" "n = takeWhile (\<lambda>c. c \<noteq> CHR ''/'') r"
    using assms by (auto simp: group_of_def r_def Let_def split: if_splits)
  then have "dropWhile (\<lambda>c. c \<noteq> CHR ''/'') r \<noteq> []" by (auto simp: dropWhile_eq_Nil_conv)
  then obtain rest where "dropWhile (\<lambda>c. c \<noteq> CHR ''/'') r = CHR ''/'' # rest"
    using hd_dropWhile [of "\<lambda>c. c \<noteq> CHR ''/''" r] by (cases "dropWhile (\<lambda>c. c \<noteq> CHR ''/'') r") auto
  then have "r = n @ CHR ''/'' # rest" using takeWhile_dropWhile_id [of "\<lambda>c. c \<noteq> CHR ''/''" r] r(3) by simp
  then have "k = ''services/'' @ n @ CHR ''/'' # rest"
    using append_take_drop_id [of "length ''services/''" k] r(1) r_def by simp
  then show ?thesis by (simp add: services_key_def)
qed

lemma services_key_split: "services_key n k = services_key n [] @ k"
  by (simp add: services_key_def)

lemma prefix_group:
  assumes "take (length (services_key n [])) k = services_key n []" "CHR ''/'' \<notin> set n"
  shows "group_of ''services/'' k = Some n"
proof -
  have "k = services_key n (drop (length (services_key n [])) k)"
    using append_take_drop_id [of "length (services_key n [])" k] assms(1)
    by (subst services_key_split) simp
  then show ?thesis using group_of_key [OF assms(2)] by metis
qed

lemma no_group: "CHR ''/'' \<notin> set n \<Longrightarrow> group_of ''services/'' (''services/'' @ n) = None"
  by (simp add: group_of_def)

lemma registered_install:
  assumes "base_install env b account password w = (ok, w')" "plain_name (service_name b)"
  shows "registered w' = (if ok then (registered w)(service_name b := True) else registered w)"
proof (cases "conf_status env = NoError")
  case True
  have g: "group_of ''services/'' (services_key (service_name b) k) = Some (service_name b)" for k
    using assms(2) by (simp add: plain_name_def group_of_key)
  have c: "conf w' = qinsert (services_key (service_name b) ''automaticStartup'') (VInt (startup_code (startupType b)))
      (qinsert (services_key (service_name b) ''description'') (VStr (serviceDescription b))
        (qinsert (services_key (service_name b) ''path'') (VStr (filePath env b)) (conf w)))" "ok"
    using assms(1) True by (auto simp: base_install_def Let_def)
  show ?thesis using c(2) by (auto simp: registered_def child_groups c(1) g fun_eq_iff)
next
  case False
  then show ?thesis using assms(1) by (auto simp: base_install_def Let_def)
qed

lemma group_of_removed:
  assumes "plain_name n"
  shows "(\<exists>k \<in> fst ` set (conf_remove n c). group_of ''services/'' k = Some m) \<longleftrightarrow>
    m \<noteq> n \<and> (\<exists>k \<in> fst ` set c. group_of ''services/'' k = Some m)"
proof -
  have n: "n \<noteq> []" "CHR ''/'' \<notin> set n" using assms by (auto simp: plain_name_def)
  have kept: "k \<noteq> ''services/'' @ n \<and> take (length (services_key n [])) k \<noteq> services_key n [] \<longleftrightarrow> m \<noteq> n"
    if g: "group_of ''services/'' k = Some m" for k
    using g group_of_prefix [OF g] prefix_group [of n k] no_group [OF n(2)] n by auto
  show ?thesis using n(1) kept unfolding conf_remove_def by (auto simp: image_iff Bex_def)
qed

lemma registered_removed:
  "plain_name n \<Longrightarrow> registered (w\<lparr>conf := conf_remove n (conf w)\<rparr>) m = (m \<noteq> n \<and> registered w m)"
  using group_of_removed [of n "conf w" m] by (simp add: registered_def child_groups)

lemma registered_uninstall:
  assumes "uninstall env n w = (ok, w')" "plain_name n"
  shows "registered w' = (if ok then (registered w)(n := False) else registered w)"
proof -
  have "w' = (if ok then w\<lparr>conf := conf_remove n (conf w)\<rparr> else w)"
    using assms(1) by (auto simp: uninstall_def)
  then show ?thesis by (simp add: fun_eq_iff registered_removed [OF assms(2)])
qed

lemma registered_cong: "conf w' = conf w \<Longrightarrow> registered w' = registered w"
  by (simp add: fun_eq_iff registered_def)

interpretation unix_registry: service_registry "unix_platform env svc" registered plain_name for env svc
proof (unfold_locales, goal_cases)
  case (1 n w)
  show ?case by (simp add: unix_platform_def isInstalled_def registered_def list_ex_iff)
next
  case (2 b account password w ok w')
  then show ?case by (intro registered_install [of env b account password w]) (simp_all add: unix_platform_def)
next
  case (3 n w ok w')
  then show ?case by (intro registered_uninstall [of env n w]) (simp_all add: unix_platform_def)
qed (auto intro!: registered_cong simp: unix_platform_def controller_stop_def controller_pause_def
      controller_resume_def controller_sendCommand_def sysInit_def createApplication_def executeApplication_def conf_simps)


section \<open>Properties of the names and addresses\<close>

lemma strip_loop_filter:
  "pos \<le> length n \<Longrightarrow> strip_loop u pos n = take pos n @ filter (legal u) (drop pos n)"
proof (induction u pos n rule: strip_loop.induct)
  case (1 u pos n)
  show ?case
  proof (cases "pos < length n")
    case True
    then have d: "drop pos n = n ! pos # drop (Suc pos) n" by (simp add: Cons_nth_drop_Suc)
    show ?thesis
    proof (cases "legal u (n ! pos)")
      case False
      have "strip_loop u pos n = strip_loop u pos (take_at pos n)"
        using True False by (simp add: strip_loop.simps [of u pos n])
      also have "\<dots> = take pos (take_at pos n) @ filter (legal u) (drop pos (take_at pos n))"
        using 1(1) [OF True False] True by simp
      also have "take pos (take_at pos n) = take pos n" using True by (simp add: take_at_def)
      also have "drop pos (take_at pos n) = drop (Suc pos) n" using True by (simp add: take_at_def)
      finally show ?thesis using d False by simp
    next
      case legal: True
      have "strip_loop u pos n = strip_loop u (Suc pos) n"
        using True legal by (simp add: strip_loop.simps [of u pos n])
      then show ?thesis using 1(2) [OF True] legal True d by (simp add: take_Suc_conv_app_nth)
    qed
  next
    case False
    then have "pos = length n" using 1(3) by simp
    then show ?thesis using strip_loop.simps [of u pos n] by simp
  qed
qed

lemma encodeName_filter: "encodeName n u = filter (legal u) (toLower n)"
  by (simp add: encodeName_def strip_loop_filter)

lemma lower_case: "\<not> (65 \<le> (of_char (lower c) :: nat) \<and> (of_char (lower c) :: nat) \<le> 90)"
  by (auto simp: lower_def Let_def split: if_splits)

lemma encodeName_case: "encodeName n True = encodeName n False"
proof -
  have "\<forall>c \<in> set (toLower n). legal True c = legal False c"
    using lower_case by (auto simp: toLower_def legal_def Let_def)
  then show ?thesis by (auto simp: encodeName_filter intro: filter_cong)
qed

lemma encodeName_chars: "c \<in> set (encodeName n u) \<Longrightarrow> legal False c"
proof (cases u)
  case True
  assume "c \<in> set (encodeName n u)"
  then have "c \<in> set (encodeName n False)" using True encodeName_case by simp
  then show ?thesis by (simp add: encodeName_filter)
qed (simp add: encodeName_filter)

lemma encodeName_no_NUL: "NUL \<notin> set (encodeName n u)"
  using encodeName_chars [of NUL n u] by (auto simp: legal_def NUL_def)

lemma sun_name_short:
  assumes "length path < sun_path_size" "NUL \<notin> set path"
  shows "sun_name env path = path"
proof -
  have p: "takeWhile (\<lambda>c. c \<noteq> NUL) path = path" using assms(2) by (auto simp: takeWhile_eq_all_conv)
  have "sun_path path = path @ NUL # replicate (sun_path_size - length path - 1) NUL"
    using assms(1) by (simp add: sun_path_def p Let_def min_def flip: replicate_Suc)
  then show ?thesis using p assms(2) by (simp add: sun_name_def takeWhile_append2 takeWhile_tail)
qed

lemma sun_name_long:
  assumes "sun_path_size \<le> length path" "NUL \<notin> set path"
  shows "sun_name env path = take sun_path_size path @ takeWhile (\<lambda>c. c \<noteq> NUL) (beyond env)"
proof -
  have p: "takeWhile (\<lambda>c. c \<noteq> NUL) path = path" using assms(2) by (auto simp: takeWhile_eq_all_conv)
  have "sun_path path = take sun_path_size path" using assms(1) by (simp add: sun_path_def p Let_def min_def)
  moreover have "\<forall>c \<in> set (take sun_path_size path). c \<noteq> NUL" using assms(2) by (auto dest: in_set_takeD)
  ultimately show ?thesis by (simp add: sun_name_def takeWhile_append2)
qed

lemma socketPath_no_NUL: "NUL \<notin> set (login env) \<Longrightarrow> NUL \<notin> set (socketPath env n)"
  using encodeName_no_NUL by (simp add: socketPath_def) (simp add: NUL_def)


section \<open>A daemon that serves\<close>

text \<open>\<open>serving\<close>: controllers of the service reach this process, and it has nothing half-read.\<close>

definition serving :: "unix_env \<Rightarrow> string \<Rightarrow> nat \<Rightarrow> 'a daemon \<Rightarrow> ('a, 'e) unix \<Rightarrow> bool" where
  "serving env n pid d w =
     (connectTo env (socketPath env n) w = Some pid \<and> procs w pid = Some d \<and> sysd d \<noteq> None \<and>
      \<not> quitting d \<and> (\<forall>s. cached s d = []))"

lemma connectTo_cong: "listeners w' = listeners w \<Longrightarrow> connectTo env p w' = connectTo env p w"
  by (simp add: connectTo_def)

lemma sendCmd_serving:
  assumes "serving env n pid d w" "control_ok c" "control_meaning svc c d = Some (b, d1)"
  shows "sendCmd env svc n (control_text c) w = (b, w\<lparr>connections := Suc (connections w), procs := (procs w)(pid \<mapsto> d1)\<rparr>)"
  using assms controls.command_delivered [of c d "socket_at env (connections w)" svc]
  by (auto simp: serving_def sendCmd_def deliver_def reply_text_def Let_def)

lemma control_meaning_sysd: "control_ok c \<Longrightarrow> control_meaning svc c d = Some (b, d1) \<Longrightarrow> (sysd d1 = None) = (sysd d = None)"
  using run_command_sysd [of svc "control_text c"] by (simp add: control_understood)

lemma control_meaning_cached: "control_ok c \<Longrightarrow> control_meaning svc c d = Some (b, d1) \<Longrightarrow> cached s d1 = cached s d"
  using cached_run_command [of svc "control_text c"] by (simp add: control_understood)

lemma still_serving:
  assumes "serving env n pid d w" "control_ok c" "control_meaning svc c d = Some (b, d1)" "\<not> quitting d1"
  shows "serving env n pid d1 (snd (sendCmd env svc n (control_text c) w))"
  using assms control_meaning_sysd [OF assms(2,3)] control_meaning_cached [OF assms(2,3)]
  by (auto simp: sendCmd_serving [OF assms(1-3)] serving_def connectTo_def split: if_splits)

lemma flags_logged [simp]: "flag_set f (logMessage m ty d) = flag_set f d" "flag_set f (log_messages ms d) = flag_set f d"
proof -
  show one: "flag_set f (logMessage m ty d) = flag_set f d" for m ty and d :: "'a daemon"
    by (simp add: logMessage_def flag_set_def Let_def split: option.splits)
  show "flag_set f (log_messages ms d) = flag_set f d"
    by (induction ms d rule: log_messages.induct) (simp_all add: one)
qed

lemma logs_sysd [simp]: "(sysd (log_messages ms d) = None) = (sysd d = None)" "app (log_messages ms d) = app d"
  "quitting (log_messages ms d) = quitting d"
  by (induction ms d rule: log_messages.induct) (auto simp: logMessage_def Let_def split: option.splits)

text \<open>A new process of the program, with the arguments and the marker it was started with.\<close>

definition new_process :: "nat \<Rightarrow> service_base \<Rightarrow> bool \<Rightarrow> ('a, 'e) unix \<Rightarrow> ('a, 'e) unix" where
  "new_process pid b marker w =
     w\<lparr>self := pid, run_marker := marker, posted := [], agenda := [],
       procs := (procs w)(pid \<mapsto> \<lparr>base = b, sysd = None, app = None, quitting = False, syslog = []\<rparr>)\<rparr>"

definition network_ok :: "unix_env \<Rightarrow> string \<Rightarrow> bool" where
  "network_ok env n =
     (can_socket env \<and> can_bind env \<and> NUL \<notin> set (login env) \<and> length (socketPath env n) < sun_path_size)"

lemma connectTo_ok: "network_ok env n \<Longrightarrow> connectTo env (socketPath env n) w = listeners w (socketPath env n)"
  by (simp add: network_ok_def connectTo_def sun_name_short socketPath_no_NUL)

text \<open>The detached process binds the socket, calls \<open>start\<close> and serves.\<close>

lemma detached_process_serves:
  assumes "network_ok env (service_name b)" "request_of (args b) = Launch" "on_start svc (fresh svc) = Lives a False ms"
    "v = new_process pid b True w"
  shows "\<exists>w' d. exec_service (unix_platform env svc) b v = (None, [], w') \<and> serving env (service_name b) pid d w' \<and>
    app d = Some a \<and> spawned w' = spawned w \<and> (\<forall>f. flag_set f d = has_flag (serviceFlags b) f)"
proof -
  let ?n = "service_name b" and ?p = "socketPath env (service_name b)"
  define d0 where "d0 = \<lparr>base = b, sysd = Some ((new_sysd (serviceFlags b))\<lparr>bound_path := ?p, listening := True\<rparr>),
    app = Some (fresh svc), quitting = False, syslog = []\<rparr>"
  define u where "u = w\<lparr>self := pid, run_marker := True, posted := [Begin], agenda := [],
    procs := (procs w)(pid \<mapsto> d0), listeners := (listeners w)(?p \<mapsto> pid)\<rparr>"
  define d where "d = (log_messages ms d0)\<lparr>app := Some a, quitting := False\<rparr>"
  have nm: "sun_name env ?p = ?p" "length ?p \<le> sun_path_size"
    using assms(1) by (simp_all add: network_ok_def sun_name_short socketPath_no_NUL)
  have boot: "sysSetPath env b (snd (createApplication svc (snd (sysInit b v)))) = u\<lparr>posted := []\<rparr>"
    using assms(1) nm
    by (simp add: assms(4) sysInit_def createApplication_def sysSetPath_def setPath_def on_own_def new_process_def u_def
        d0_def network_ok_def new_sysd_def Let_def)
  have "absorb (on_start svc) d0 = Some d"
    using assms(3) by (simp add: absorb_def d_def) (simp add: d0_def)
  then have loop: "executeApplication svc u = (None, u\<lparr>posted := [], agenda := [], procs := (procs w)(pid \<mapsto> d)\<rparr>)"
    by (simp add: executeApplication_def u_def on_own_def d_def Let_def)
  have "exec_service (unix_platform env svc) b v =
      (None, [], u\<lparr>posted := [], agenda := [], procs := (procs w)(pid \<mapsto> d)\<rparr>)" (is "_ = (None, [], ?w)")
  proof -
    have "p_postStart (unix_platform env svc) (u\<lparr>posted := []\<rparr>) = u" by (simp add: u_def)
    then have "run_loop (unix_platform env svc) True (u\<lparr>posted := []\<rparr>) = (None, ?w)"
      using loop by (simp add: run_loop_def)
    moreover have "run_marker v" by (simp add: assms(4) new_process_def)
    ultimately show ?thesis using boot assms(2)
      by (simp add: exec_performs exec_start_def run_service_def split_def Let_def sysInit_def createApplication_def)
  qed
  moreover have "serving env ?n pid d ?w"
  proof -
    have "(sysd d = None) = (sysd d0 = None)" by (simp add: d_def)
    moreover have "cached s d = cached s d0" for s by (simp add: d_def)
    ultimately have "sysd d \<noteq> None" "cached s d = []" "\<not> quitting d" for s
      by (simp_all add: d0_def cached_def new_sysd_def d_def)
    then show ?thesis by (auto simp: serving_def connectTo_ok [OF assms(1)] u_def)
  qed
  moreover have "flag_set f d = has_flag (serviceFlags b) f" for f
  proof -
    have "flag_set f d = flag_set f (log_messages ms d0)" by (simp add: d_def flag_set_def)
    also have "\<dots> = flag_set f d0" by simp
    also have "\<dots> = has_flag (serviceFlags b) f" by (simp add: flag_set_def d0_def new_sysd_def)
    finally show ?thesis .
  qed
  moreover have "app d = Some a" "spawned ?w = spawned w" by (simp_all add: d_def u_def)
  ultimately show ?thesis by blast
qed

section \<open>Properties\<close>

text \<open>A system to try the definitions on: a service whose state is a number.\<close>

definition sample_uenv :: unix_env where
  "sample_uenv =
     \<lparr>login = ''root'', current_dir = ''/'', env_path = Some ''/bin:/usr/sbin'',
      exists = (\<lambda>f. f = ''/usr/sbin/wizd''), change_dir = (\<lambda>d r. d @ r), absolute = (\<lambda>d. d),
      can_detach = True, conf_status = NoError, can_socket = True, can_bind = True, beyond = ''x'',
      socket_at = (\<lambda>n. n)\<rparr>"

definition counting_service :: "(nat, nat) service" where
  "counting_service =
     \<lparr>on_start = (\<lambda>n. Lives n False []), on_stop = does_nothing, on_pause = (\<lambda>n. Lives (n + 1) False []),
      on_resume = (\<lambda>n. Lives (n + 2) False []), on_command = (\<lambda>c n. Lives (n + nat c) False []),
      on_event = (\<lambda>e n. Lives e False []), fresh = 0\<rparr>"

definition sample_base :: service_base where
  "sample_base =
     \<lparr>service_name = ''Wizd'', serviceDescription = ''a service'', startupType = ManualStartup,
      serviceFlags = CanBeSuspended, args = [''/usr/sbin/wizd'', ''-i'']\<rparr>"

definition sample_daemon :: "nat daemon" where
  "sample_daemon =
     \<lparr>base = sample_base, sysd = Some (new_sysd CanBeSuspended), app = Some 0, quitting = False, syslog = []\<rparr>"

definition sample_unix :: "(nat, nat) unix" where
  "sample_unix =
     \<lparr>conf = [], procs = [1 \<mapsto> sample_daemon], listeners = [''/var/tmp/wizd.root'' \<mapsto> 1], self = 2,
      run_marker = False, spawned = [], connections = 0, posted = [], agenda = []\<rparr>"

lemma sample_daemon_simps [simp]: "sysd sample_daemon \<noteq> None" "cached s sample_daemon = []"
  "app sample_daemon = Some 0" "\<not> quitting sample_daemon"
  by (simp_all add: sample_daemon_def cached_def new_sysd_def)

lemma sample_path: "socketPath sample_uenv ''Wizd'' = ''/var/tmp/wizd.root''"
  by code_simp

lemma chunked_commands_witness:
  "slotReady counting_service 7 (''pau'' @ ''se'' @ crlf) sample_daemon =
    (case slotReady counting_service 7 ''pau'' sample_daemon of
       None \<Rightarrow> None
     | Some (rs, d1) \<Rightarrow> map_option (\<lambda>(rs', d2). (rs @ rs', d2)) (slotReady counting_service 7 (''se'' @ crlf) d1))"
  by (rule chunked_commands) (simp, subst no_empty_line.simps, simp)

lemma empty_line_stalls_witness:
  "slotReady counting_service 7 (crlf @ ''terminate'' @ crlf) sample_daemon =
     Some ([], on_cache (\<lambda>_. ''terminate'' @ crlf) 7 sample_daemon)"
  by (rule empty_line_stalls) simp_all

text \<open>C21: on Unix the list of installed services changes only as the arguments say: after \<open>exec\<close> a name is
  installed if it was before, or it is the service's own and -i ended with 0; it is not when it is
  the service's own and -u ended with 0. No other argument, and no run of the service, changes it.\<close>

theorem exec_registry:
  assumes "exec_service (unix_platform env svc) b w = (code, out, w')" "plain_name (service_name b)"
  shows "fst (isInstalled n w') =
    (if n = service_name b \<and> code = Some 0 \<and> request_of (args b) = Install then True
     else if n = service_name b \<and> code = Some 0 \<and> request_of (args b) = Uninstall then False
     else fst (isInstalled n w))"
proof -
  have "fst (isInstalled m v) = registered v m" for m and v :: "('a, 'b) unix"
    by (simp add: isInstalled_def registered_def list_ex_iff)
  then show ?thesis using unix_registry.exec_registered [OF assms] by simp
qed

lemma exec_registry_witness: "\<exists>out w'. exec_service (unix_platform sample_uenv counting_service) sample_base sample_unix = (Some 0, out, w') \<and>
  fst (isInstalled ''Wizd'' w')"
proof -
  obtain code out w' where e: "exec_service (unix_platform sample_uenv counting_service) sample_base sample_unix = (code, out, w')"
    by (cases "exec_service (unix_platform sample_uenv counting_service) sample_base sample_unix") auto
  then have "code = Some 0"
    by (auto simp: exec_performs sample_base_def documented_arguments_def exec_install_def unix_platform_def isInstalled_def
        base_install_def sample_unix_def sample_uenv_def childGroups_def List.map_filter_def Let_def)
  moreover have "plain_name (service_name sample_base)" "request_of (args sample_base) = Install" "service_name sample_base = ''Wizd''"
    by (simp_all add: plain_name_def sample_base_def documented_arguments_def)
  ultimately show ?thesis using e exec_registry [OF e, of "''Wizd''"] by simp
qed

text \<open>C35: what an installation on Unix records can be read back by a controller: the service is installed,
  with its description and the path of its program, and after a removal neither is left. The
  startup type is not: it is stored under one key and read under another, so whatever type the
  service asks for, the controller reads what it would have read without the installation.\<close>

theorem install_recorded:
  assumes "base_install env b account password w = (True, w1)" "plain_name (service_name b)"
  shows "fst (isInstalled (service_name b) w1) \<and> serviceFilePath (service_name b) w1 = filePath env b \<and>
    service_description (service_name b) w1 = serviceDescription b \<and>
    startup_type_of (service_name b) w1 = startup_type_of (service_name b) w \<and>
    (\<forall>w2. uninstall env (service_name b) w1 = (True, w2) \<longrightarrow>
       \<not> fst (isInstalled (service_name b) w2) \<and> serviceFilePath (service_name b) w2 = [] \<and>
       service_description (service_name b) w2 = [])"
proof -
  let ?n = "service_name b"
  have inst: "fst (isInstalled m v) = registered v m" for m and v :: "('a, 'b) unix"
    by (simp add: isInstalled_def registered_def list_ex_iff)
  have ok: "conf_status env = NoError" using assms(1) by (simp add: base_install_def Let_def)
  have c: "conf w1 = qinsert (services_key ?n ''automaticStartup'') (VInt (startup_code (startupType b)))
      (qinsert (services_key ?n ''description'') (VStr (serviceDescription b))
        (qinsert (services_key ?n ''path'') (VStr (filePath env b)) (conf w)))"
    using assms(1) ok by (auto simp: base_install_def Let_def)
  have keys: "services_key ?n j = services_key ?n k \<longleftrightarrow> j = k" for j k by (simp add: services_key_def)
  have removed: "qlookup (conf_remove ?n cc) (services_key ?n k) = None" for cc k
  proof -
    have "take (length (services_key ?n [])) (services_key ?n k) = services_key ?n []"
      by (subst services_key_split) simp
    then have "services_key ?n k \<notin> fst ` set (conf_remove ?n cc)"
      using assms(2) by (auto simp: conf_remove_def plain_name_def)
    then show ?thesis by (simp add: map_of_eq_None_iff)
  qed
  have v: "conf_value ?n ''path'' (conf w1) = VStr (filePath env b)"
    "conf_value ?n ''description'' (conf w1) = VStr (serviceDescription b)"
    "conf_value ?n ''startupType'' (conf w1) = conf_value ?n ''startupType'' (conf w)"
    by (simp_all add: conf_value_def c keys)
  have here: "registered w1 ?n" using registered_install [OF assms] by simp
  have gone: "\<not> registered w2 ?n \<and> conf_value ?n k (conf w2) = VInvalid"
    if u: "uninstall env ?n w1 = (True, w2)" for w2 k
  proof
    show "\<not> registered w2 ?n" using registered_uninstall [OF u assms(2)] by simp
    have "conf w2 = conf_remove ?n (conf w1)" using u by (auto simp: uninstall_def)
    then show "conf_value ?n k (conf w2) = VInvalid" by (simp only: conf_value_def removed option.case)
  qed
  show ?thesis
    using here gone by (simp add: inst serviceFilePath_def service_description_def startup_type_of_def v)
qed

lemma install_recorded_witness:
  "\<exists>w. base_install sample_uenv sample_base [] [] sample_unix = (True, w) \<and> serviceFilePath ''Wizd'' w = ''/usr/sbin/wizd'' \<and>
     startup_type_of ''Wizd'' w = AutoStartup \<and> startupType sample_base = ManualStartup"
proof -
  obtain w where w: "base_install sample_uenv sample_base [] [] sample_unix = (True, w)"
    by (simp add: base_install_def sample_uenv_def Let_def)
  have n: "plain_name (service_name sample_base)" "service_name sample_base = ''Wizd''"
    by (simp_all add: plain_name_def sample_base_def)
  have "filePath sample_uenv sample_base = ''/usr/sbin/wizd''"
    by (simp add: filePath_def sample_base_def absPath_def dir_part_def file_name_def in_dir_def Let_def)
  moreover have "startup_type_of ''Wizd'' sample_unix = AutoStartup"
    by (simp add: startup_type_of_def conf_value_def sample_unix_def)
  ultimately show ?thesis using w install_recorded [OF w n(1)] n(2) by (simp add: sample_base_def)
qed

text \<open>C11: a command sent by a controller reaches the daemon bound to the service's address as exactly
  the callback it stands for, once, with its number intact, and the controller's answer is the daemon's:
  false when the flags forbid it, or when the daemon dies of it.\<close>

theorem controller_talks:
  assumes "connectTo env (socketPath env n) w = Some pid" "procs w pid = Some d" "sysd d \<noteq> None" "\<not> quitting d"
    "cached (socket_at env (connections w)) d = []" "control_ok c"
  shows "sendCmd env svc n (control_text c) w =
    (case control_meaning svc c d of
       None \<Rightarrow> (False, w\<lparr>connections := Suc (connections w), procs := (procs w)(pid := None),
                      listeners := (\<lambda>a. if listeners w a = Some pid then None else listeners w a)\<rparr>)
     | Some (b, d1) \<Rightarrow> (b, w\<lparr>connections := Suc (connections w), procs := (procs w)(pid \<mapsto> d1)\<rparr>))"
  using assms(1,2,4) controls.command_delivered [OF assms(6,3,5), of svc]
  by (auto simp: sendCmd_def deliver_def reply_text_def Let_def split: option.splits prod.splits)

lemma controller_talks_witness:
  "sendCmd sample_uenv counting_service ''Wizd'' (control_text (Send 41)) sample_unix =
     (True, sample_unix\<lparr>connections := 1, procs := [1 \<mapsto> sample_daemon\<lparr>app := Some 41\<rparr>]\<rparr>)"
proof -
  have "connectTo sample_uenv (socketPath sample_uenv ''Wizd'') sample_unix = Some 1"
  proof -
    show ?thesis using sample_path
      by (simp add: connectTo_def sun_name_short sun_path_size_def NUL_def) (simp add: sample_unix_def sample_uenv_def)
  qed
  moreover have "procs sample_unix 1 = Some sample_daemon" by (simp add: sample_unix_def)
  ultimately show ?thesis
    using controller_talks [of sample_uenv "''Wizd''" sample_unix 1 sample_daemon "Send 41" counting_service]
    by (simp add: absorb_def counting_service_def int_ok_def) (simp add: sample_unix_def sample_daemon_def)
qed

text \<open>a daemon is found under its name: once it has bound the socket of its service, every controller
  of the same user connects to this process, as long as the path is shorter than the 108 bytes of
  the address; case and punctuation of the name do not matter.\<close>

theorem daemon_reachable:
  assumes "can_socket env" "can_bind env" "procs w (self w) = Some d" "sysd d \<noteq> None"
    "NUL \<notin> set (login env)" "length (socketPath env (service_name b)) < sun_path_size"
    "can_socket env'" "login env' = login env" "filter (legal False) (toLower n) = filter (legal False) (toLower (service_name b))"
  shows "connectTo env' (socketPath env' n) (sysSetPath env b w) = Some (self w)"
proof -
  let ?p = "socketPath env (service_name b)"
  have p: "socketPath env' n = ?p" using assms(8,9) by (simp add: socketPath_def encodeName_filter)
  have nm: "sun_name e ?p = ?p" for e using assms(5,6) by (intro sun_name_short socketPath_no_NUL)
  have "listeners (sysSetPath env b w) ?p = Some (self w)"
    using assms(1-6) by (auto simp: sysSetPath_def setPath_def nm on_own_def Let_def)
  then show ?thesis using assms(6,7) by (simp add: connectTo_def p nm)
qed

lemma daemon_reachable_witness:
  "connectTo sample_uenv (socketPath sample_uenv ''WIZ-D'') (sysSetPath sample_uenv sample_base (sample_unix\<lparr>self := 1\<rparr>)) = Some 1"
proof -
  have "length (socketPath sample_uenv (service_name sample_base)) < sun_path_size"
    using sample_path by (simp add: sample_base_def sun_path_size_def)
  moreover have "filter (legal False) (toLower ''WIZ-D'') = filter (legal False) (toLower (service_name sample_base))"
    by code_simp
  ultimately show ?thesis
    using daemon_reachable [of sample_uenv "sample_unix\<lparr>self := 1\<rparr>" sample_daemon sample_base sample_uenv "''WIZ-D''"]
    by (simp add: sample_uenv_def sample_unix_def NUL_def)
qed


text \<open>What \<open>run\<close> does in the process of the daemon once its event loop has returned.\<close>

definition loop_returned :: "nat \<Rightarrow> ('a, 'e) unix \<Rightarrow> ('a, 'e) unix" where
  "loop_returned pid w = sysCleanup (on_own (\<lambda>d. d\<lparr>app := None\<rparr>) (w\<lparr>self := pid\<rparr>))"

lemma launch_spawns:
  assumes "network_ok env (service_name b)" "listeners w (socketPath env (service_name b)) = None" "\<not> run_marker w"
    "can_detach env" "request_of (args b) = Launch"
  shows "exec_service (unix_platform env svc) b w =
    (Some 0, [], w\<lparr>run_marker := True, spawned := spawned w @ [(filePath env b, drop 1 (args b), ''/'', True)]\<rparr>)"
  using assms by (simp add: exec_performs exec_start_def base_start_def sendCmd_def connectTo_ok startDetached_def Let_def)

lemma second_launch_fails:
  assumes "serving env (service_name b) pid d w" "\<not> run_marker w" "request_of (args b) = Launch"
  shows "\<exists>out w'. exec_service (unix_platform env svc) b w = (Some (- 4), out, w') \<and> serving env (service_name b) pid d w' \<and>
    spawned w' = spawned w"
proof -
  have "sendCmd env svc (service_name b) ''alive'' w = (True, w\<lparr>connections := Suc (connections w), procs := (procs w)(pid \<mapsto> d)\<rparr>)"
    using sendCmd_serving [OF assms(1), of Ask svc True d] by simp
  moreover have "serving env (service_name b) pid d
      (w\<lparr>connections := Suc (connections w), procs := (procs w)(pid \<mapsto> d)\<rparr>)"
    using assms(1) by (auto simp: serving_def connectTo_def split: if_splits)
  ultimately show ?thesis using assms(2,3)
    by (simp add: exec_performs exec_start_def base_start_def Let_def)
qed

lemma terminate_stops:
  assumes "serving env (service_name b) pid d w" "request_of (args b) = Terminate"
    "\<not> flag_set CannotBeStopped d" "app d = Some a" "on_stop svc a = Lives a' q ms" "network_ok env (service_name b)"
  shows "\<exists>w'. exec_service (unix_platform env svc) b w = (Some 0, [], w') \<and>
    (\<exists>d'. procs w' pid = Some d' \<and> quitting d') \<and>
    \<not> fst (isRunning env (service_name b) (loop_returned pid w'))"
proof -
  define d1 where "d1 = (log_messages ms d)\<lparr>app := Some a', quitting := True\<rparr>"
  define w' where "w' = w\<lparr>connections := Suc (connections w), procs := (procs w)(pid \<mapsto> d1)\<rparr>"
  have "control_meaning svc StopIt d = Some (True, d1)"
    using assms(3-5) by (simp add: absorb_def d1_def)
  then have "sendCmd env svc (service_name b) ''terminate'' w = (True, w')"
    using sendCmd_serving [OF assms(1), of StopIt svc True d1] by (simp add: w'_def)
  then have "exec_service (unix_platform env svc) b w = (Some 0, [], w')"
    using assms(2) by (simp add: exec_performs exec_terminate_def controller_stop_def Let_def)
  moreover have "procs w' pid = Some d1" "quitting d1" by (simp_all add: w'_def d1_def)
  moreover have "\<not> fst (isRunning env (service_name b) (loop_returned pid w'))"
  proof -
    let ?v = "on_own (\<lambda>d. d\<lparr>app := None\<rparr>) (w'\<lparr>self := pid\<rparr>)"
    have "(sysd d1 = None) = (sysd d = None)" by (simp add: d1_def)
    then have "sysd d1 \<noteq> None" using assms(1) by (auto simp: serving_def)
    then have r: "listeners (loop_returned pid w') = listeners (unix_close ?v)"
      by (auto simp: loop_returned_def sysCleanup_def on_own_def w'_def)
    have "listeners w' (socketPath env (service_name b)) = Some pid"
      using assms(1,6) by (simp add: serving_def connectTo_ok w'_def)
    then have "listeners (unix_close ?v) (socketPath env (service_name b)) = None"
      by (simp add: unix_close_def Let_def on_own_def)
    then show ?thesis by (simp add: isRunning_def connectTo_ok [OF assms(6)] r)
  qed
  ultimately show ?thesis by blast
qed

text \<open>The life of the service on Unix. Started while no daemon holds its address, the program leaves
  one detached process behind, with its own absolute path and the mark that makes it the service. That
  process binds the address, starts the service and stays; the controller then finds it running; a
  second start ends with -4 and changes nothing; -t stops it, and once its loop has returned it is
  not found any more.\<close>

lemma service_lifecycle:
  assumes "network_ok env (service_name b)" "can_detach env" "args b = prog # rest" "request_of (args b) = Launch"
    "listeners w (socketPath env (service_name b)) = None" "\<not> run_marker w"
    "on_start svc (fresh svc) = Lives a False ms" "\<not> has_flag (serviceFlags b) CannotBeStopped"
    "on_stop svc a = Lives a' q ms'" "p3 \<noteq> pid" "p4 \<noteq> pid"
  shows "\<exists>w1 w2 w3 w4 out d.
    exec_service (unix_platform env svc) b w = (Some 0, [], w1) \<and>
    spawned w1 = spawned w @ [(filePath env b, rest, ''/'', True)] \<and>
    exec_service (unix_platform env svc) (b\<lparr>args := filePath env b # rest\<rparr>)
      (new_process pid (b\<lparr>args := filePath env b # rest\<rparr>) True w1) = (None, [], w2) \<and>
    procs w2 pid = Some d \<and> app d = Some a \<and> fst (isRunning env (service_name b) w2) \<and>
    exec_service (unix_platform env svc) b (new_process p3 b False w2) = (Some (- 4), out, w3) \<and> spawned w3 = spawned w1 \<and>
    exec_service (unix_platform env svc) (b\<lparr>args := [prog, ''-t'']\<rparr>)
      (new_process p4 (b\<lparr>args := [prog, ''-t'']\<rparr>) False w3) = (Some 0, [], w4) \<and>
    \<not> fst (isRunning env (service_name b) (loop_returned pid w4))"
proof -
  let ?n = "service_name b" and ?b2 = "b\<lparr>args := filePath env b # rest\<rparr>" and ?b4 = "b\<lparr>args := [prog, ''-t'']\<rparr>"
  define w1 where "w1 = w\<lparr>run_marker := True, spawned := spawned w @ [(filePath env b, rest, ''/'', True)]\<rparr>"
  have w1: "exec_service (unix_platform env svc) b w = (Some 0, [], w1)"
    using launch_spawns [of env b w svc] assms by (simp add: w1_def)
  have r2: "request_of (args ?b2) = Launch" using assms(3,4) by (cases rest) simp_all
  obtain w2 d where w2: "exec_service (unix_platform env svc) ?b2 (new_process pid ?b2 True w1) = (None, [], w2)"
    "serving env ?n pid d w2" "app d = Some a" "spawned w2 = spawned w1" "\<And>f. flag_set f d = has_flag (serviceFlags b) f"
    using detached_process_serves [OF _ r2 assms(7) refl, of env pid w1] assms(1) by auto
  have new: "serving env ?n pid d (new_process p b' False v)" if "serving env ?n pid d v" "p \<noteq> pid" for p b' v
    using that by (auto simp: serving_def new_process_def connectTo_def split: if_splits)
  obtain out w3 where w3: "exec_service (unix_platform env svc) b (new_process p3 b False w2) = (Some (- 4), out, w3)"
    "serving env ?n pid d w3" "spawned w3 = spawned w2"
    using second_launch_fails [OF new [OF w2(2) assms(10)] _ assms(4), of b svc] by (auto simp: new_process_def)
  obtain w4 where w4: "exec_service (unix_platform env svc) ?b4 (new_process p4 ?b4 False w3) = (Some 0, [], w4)"
    "\<not> fst (isRunning env ?n (loop_returned pid w4))"
    using terminate_stops [of env ?b4 pid d "new_process p4 ?b4 False w3" a svc a' q ms'] new [OF w3(2) assms(11), of ?b4]
      assms(1,8,9) w2(3,5) by (auto simp: documented_arguments_def)
  have "fst (isRunning env ?n w2)" "procs w2 pid = Some d" using w2(2) by (simp_all add: serving_def isRunning_def)
  then show ?thesis using w1 w2 w3 w4 by (intro exI conjI) (auto simp: w1_def)
qed


lemma service_lifecycle_example:
  "\<exists>w1 w2. exec_service (unix_platform sample_uenv counting_service) (sample_base\<lparr>args := [''/usr/sbin/wizd'']\<rparr>)
       (sample_unix\<lparr>listeners := (\<lambda>_. None)\<rparr>) = (Some 0, [], w1) \<and>
     exec_service (unix_platform sample_uenv counting_service) (sample_base\<lparr>args := [''/usr/sbin/wizd'']\<rparr>)
       (new_process 5 (sample_base\<lparr>args := [''/usr/sbin/wizd'']\<rparr>) True w1) = (None, [], w2) \<and>
     fst (isRunning sample_uenv ''Wizd'' w2)"
proof -
  let ?b = "sample_base\<lparr>args := [''/usr/sbin/wizd'']\<rparr>" and ?w = "sample_unix\<lparr>listeners := (\<lambda>_. None)\<rparr>"
  have n: "service_name ?b = ''Wizd''" "args ?b = ''/usr/sbin/wizd'' # []" "request_of (args ?b) = Launch"
    "\<not> has_flag (serviceFlags ?b) CannotBeStopped"
    by (simp_all add: sample_base_def)
  have "network_ok sample_uenv (service_name ?b)"
    using sample_path by (simp add: n(1) network_ok_def sun_path_size_def) (simp add: sample_uenv_def NUL_def)
  moreover have "filePath sample_uenv ?b = ''/usr/sbin/wizd''"
    by (simp add: filePath_def absPath_def dir_part_def file_name_def in_dir_def Let_def)
  moreover have "on_start counting_service (fresh counting_service) = Lives 0 False []"
    "on_stop counting_service 0 = Lives 0 False []"
    by (simp_all add: counting_service_def does_nothing_def)
  moreover have "can_detach sample_uenv" "listeners ?w x = None" "\<not> run_marker ?w" for x
    by (simp_all add: sample_uenv_def sample_unix_def)
  ultimately show ?thesis
    using service_lifecycle [where env = sample_uenv and b = ?b and prog = "''/usr/sbin/wizd''" and q = False and rest = "[]" and w = ?w and svc = counting_service
        and a = 0 and a' = 0 and ms = "[]" and ms' = "[]" and ?p3.0 = 6 and pid = 5 and ?p4.0 = 7] n by auto
qed

end
