(* ===== verification/Daemon.thy ===== *)
theory Daemon
  imports ServiceUnix Server
begin

text \<open>
  \<open>server/main.cpp\<close>: the service \<open>OpenNICService\<close>, its virtual functions on the server of
  \<open>opennicserver.cpp\<close>, and \<open>main\<close>, composed with the framework of \<open>qtservice.cpp\<close> and
  \<open>qtservice_unix.cpp\<close>. The state of the application is the pointer \<open>mServer\<close>: None until
  \<open>start\<close> has run. The last part shows that pausing the service does nothing.
\<close>

section \<open>The service\<close>

definition service_title :: string where
  "service_title = ''OpenNICWizard''"

definition service_text :: string where
  "service_text = ''An OpenNIC resolver locator and sevice deamon''"

definition opennic_base :: "string list \<Rightarrow> service_base" where
  "opennic_base argv = (new_base argv service_title)\<lparr>serviceDescription := service_text, serviceFlags := CanBeSuspended\<rparr>"

record launch_env =
  l_server :: server_env
  l_null :: bool                                \<comment> \<open>the memory of the new server reads as a null pointer\<close>
  l_files :: file_map
  l_junk :: int
  l_statics :: query_statics
  l_stored :: "string \<Rightarrow> variant option"   \<comment> \<open>the settings file\<close>
  l_fuel :: nat

text \<open>
  \<open>start\<close>: a server that could not bind its port is reported and the application told to quit;
  the first run follows all the same. \<open>serverPort()\<close> is 0 while nothing listens. An end of
  the process, and a call that does not come back, are both \<open>Dies\<close>.
\<close>

definition bind_failure :: "server \<Rightarrow> (string \<times> message_type) list" where
  "bind_failure s =
     (if \<not> mListening s then [(''Failed to bind to port '' @ number 0, Error)] else [])"

definition opennic_start :: "launch_env \<Rightarrow> server option \<Rightarrow> server option fate" where
  "opennic_start le a =
     (case new_server (l_null le) (l_server le) (l_files le)
             (blank_server (l_junk le) (l_statics le) (l_stored le) []) of
        None \<Rightarrow> Dies
      | Some s \<Rightarrow>
          (case runOnce (l_fuel le) (l_server le) (handle_event (l_fuel le) (l_server le)) s of
             Runs t \<Rightarrow> Lives (Some t) (\<not> mListening s) (bind_failure s)
           | _ \<Rightarrow> Dies))"

definition opennic_pause :: "server option \<Rightarrow> server option fate" where
  "opennic_pause a = (case a of None \<Rightarrow> Dies | Some s \<Rightarrow> Lives (Some (service_pause s)) False [])"

definition opennic_resume :: "server option \<Rightarrow> server option fate" where
  "opennic_resume a = (case a of None \<Rightarrow> Dies | Some s \<Rightarrow> Lives (Some (service_resume s)) False [])"

definition opennic_event :: "launch_env \<Rightarrow> event \<Rightarrow> server option \<Rightarrow> server option fate" where
  "opennic_event le e a =
     (case a of
        None \<Rightarrow> Lives None False []
      | Some s \<Rightarrow>
          (case handle_event (l_fuel le) (l_server le) e s of
             Runs t \<Rightarrow> Lives (Some t) False []
           | _ \<Rightarrow> Dies))"

definition opennic_service :: "launch_env \<Rightarrow> (server option, event) service" where
  "opennic_service le =
     \<lparr>on_start = opennic_start le, on_stop = does_nothing, on_pause = opennic_pause,
      on_resume = opennic_resume, on_command = (\<lambda>c. does_nothing), on_event = opennic_event le, fresh = None\<rparr>"

definition opennic_main ::
  "unix_env \<Rightarrow> launch_env \<Rightarrow> string list \<Rightarrow> (server option, event) unix \<Rightarrow> (server option, event) unix exec_result" where
  "opennic_main env le argv w = exec_service (unix_platform env (opennic_service le)) (opennic_base argv) w"

section \<open>Signals\<close>

text \<open>\<open>main\<close> installs the handlers before it makes the service, and ignores whether that worked.\<close>

datatype unix_signal = SIGHUP | SIGTERM

type_synonym signal_table = "unix_signal \<Rightarrow> (server \<Rightarrow> server) option"  \<comment> \<open>None: what the system does\<close>

definition hupSignalHandler :: "server \<Rightarrow> server" where
  "hupSignalHandler s = s\<lparr>GlobalShutdown := True\<rparr>"

definition termSignalHandler :: "server \<Rightarrow> server" where
  "termSignalHandler s = s\<lparr>GlobalShutdown := True\<rparr>"

definition setup_unix_signal_handlers :: "(unix_signal \<Rightarrow> bool) \<Rightarrow> signal_table \<Rightarrow> int \<times> signal_table" where
  \<comment> \<open>\<open>takes\<close>: \<open>sigaction\<close> accepts the handler\<close>
  "setup_unix_signal_handlers takes tab =
     (if \<not> takes SIGHUP then (1, tab)
      else
        (let tab1 = tab(SIGHUP \<mapsto> hupSignalHandler)
         in if \<not> takes SIGTERM then (2, tab1) else (0, tab1(SIGTERM \<mapsto> termSignalHandler))))"

text \<open>A signal is not acted on at once: the next timer of the server, whichever it is and whether the
  service is enabled or not, gives the resolvers back and ends the program.\<close>

lemma signal_ends:
  assumes "fst (setup_unix_signal_handlers takes tab) = 0" "mSystem s \<noteq> None"
  shows "\<exists>h. snd (setup_unix_signal_handlers takes tab) sig = Some h \<and> h s = signal_handler s \<and>
    (\<exists>t. server_timerEvent k env handle i (h s) = Exits t)"
proof -
  have "\<exists>h. snd (setup_unix_signal_handlers takes tab) sig = Some h \<and> h s = signal_handler s"
    using assms(1) by (cases sig)
      (auto simp: setup_unix_signal_handlers_def hupSignalHandler_def termSignalHandler_def signal_handler_def Let_def split: if_splits)
  moreover have "\<exists>t. shut_down env (signal_handler s) = Exits t"
    using assms(2) by (auto simp: shut_down_def with_system_def signal_handler_def Let_def split: prod.splits)
  moreover have "GlobalShutdown (signal_handler s)" by (simp add: signal_handler_def)
  ultimately show ?thesis by (auto simp: server_timerEvent_def)
qed

lemma opennic_base_simps [simp]: "service_name (opennic_base argv) = service_title" "args (opennic_base argv) = argv"
  "serviceFlags (opennic_base argv) = CanBeSuspended" "plain_name service_title"
  "(opennic_base argv)\<lparr>args := argv'\<rparr> = opennic_base argv'"
proof -
  have "clean_name service_title = service_title"
    by (rule clean_name_id) (simp_all add: service_title_def max_name_def backslash_def)
  then show "service_name (opennic_base argv) = service_title" by (simp add: opennic_base_def new_base_def)
qed (simp_all add: opennic_base_def new_base_def plain_name_def service_title_def)

lemma opennic_service_simps [simp]: "on_start (opennic_service le) = opennic_start le"
  "on_stop (opennic_service le) a = Lives a False []" "on_pause (opennic_service le) = opennic_pause"
  "on_resume (opennic_service le) = opennic_resume" "on_command (opennic_service le) c a = Lives a False []"
  "on_event (opennic_service le) = opennic_event le" "fresh (opennic_service le) = None"
  by (simp_all add: opennic_service_def does_nothing_def)

lemma opennic_path: "socketPath env service_title = ''/var/tmp/opennicwizard.'' @ login env"
proof -
  have "encodeName service_title False = ''opennicwizard''" by code_simp
  then show ?thesis by (simp add: socketPath_def)
qed

lemma opennic_network: "can_socket env \<Longrightarrow> can_bind env \<Longrightarrow> NUL \<notin> set (login env) \<Longrightarrow> length (login env) < 85 \<Longrightarrow>
  network_ok env service_title"
  by (simp add: network_ok_def opennic_path sun_path_size_def)

section \<open>From the first start to a running service\<close>

definition flags_kept :: "server \<Rightarrow> server \<Rightarrow> bool" where
  "flags_kept t s = (mListening t = mListening s \<and> mInColdBoot t = mInColdBoot s)"

lemma masked_flags: "masked t = masked s \<Longrightarrow> flags_kept t s"
proof -
  assume m: "masked t = masked s"
  show ?thesis using arg_cong [OF m, of mInColdBoot] arg_cong [OF m, of mListening] by (simp add: masked_def flags_kept_def)
qed

lemma log_flags [simp]: "mListening (log_msg env m s) = mListening s" "mListening (log_all env ms s) = mListening s"
  "mInColdBoot (log_msg env m s) = mInColdBoot s" "mInColdBoot (log_all env ms s) = mInColdBoot s"
proof -
  show one: "mListening (log_msg env m s) = mListening s" "mInColdBoot (log_msg env m s) = mInColdBoot s" for m s
    by (simp_all add: log_msg_def)
  show "mListening (log_all env ms s) = mListening s" "mInColdBoot (log_all env ms s) = mInColdBoot s"
    by (induction ms arbitrary: s) (simp_all add: one)
qed

lemma setRefreshPeriod_flags: "setRefreshPeriod env n s = Some t \<Longrightarrow> flags_kept t s"
  by (auto simp: setRefreshPeriod_def Let_def stop_refresh_def start_refresh_def start_timer_msecs_def kill_timer_def
      flags_kept_def split: if_splits)

lemma updateDNS_flags: "updateDNS env n s = Some (t, rc) \<Longrightarrow> flags_kept t s"
  by (intro masked_flags updateDNS_masked)

lemma setResolverCacheSize_flags:
  assumes "setResolverCacheSize env n s = Some t" shows "flags_kept t s"
proof (cases "mResolverCacheSize s \<noteq> n \<and> 0 \<le> n")
  case True
  define l where "l = log_msg env (''** ACTIVE CACHE SET TO '' @ number n @ '' RESOLVERS **'') (s\<lparr>mResolverCacheSize := n\<rparr>)"
  have "setResolverCacheSize env n s = map_option fst (updateDNS env (mResolverCacheSize l) l)"
    using True unfolding setResolverCacheSize_def Let_def l_def by simp
  then have "map_option fst (updateDNS env (mResolverCacheSize l) l) = Some t" using assms by simp
  then obtain rc where "updateDNS env (mResolverCacheSize l) l = Some (t, rc)" by (auto simp: map_option_case split: option.splits)
  from updateDNS_flags [OF this] show ?thesis by (simp add: flags_kept_def l_def)
qed (use assms in \<open>auto simp: setResolverCacheSize_def flags_kept_def\<close>)

lemma readSettings_flags:
  assumes "readSettings env s = Some t" shows "flags_kept t s"
proof -
  obtain s1 s2 where s: "setRefreshPeriod env (to_int (setting s ''refresh_timer_period'' (VInt 1)))
        (s\<lparr>mTcpListenPort := to_int (setting s ''tcp_listen_port'' (VInt 19803))\<rparr>) = Some s1"
      "setResolverCacheSize env (to_int (setting s ''resolver_cache_size'' (VInt 3))) s1 = Some s2"
      "t = apply_options env (load_options s2)"
    using assms by (auto simp: readSettings_def bind_eq_Some_conv)
  have "flags_kept t s2" by (simp add: s(3) apply_options_def load_options_def flags_kept_def split: option.splits prod.splits)
  then show ?thesis
    using setRefreshPeriod_flags [OF s(1)] setResolverCacheSize_flags [OF s(2)] by (simp add: flags_kept_def)
qed

lemma refresh_active_listening: "refresh_active env force s = Some t \<Longrightarrow> mListening t = mListening s"
  by (auto simp: refresh_active_def testResolverCache_def flags_kept_def dest!: updateDNS_flags split: if_splits option.splits)

text \<open>The constructor, on a machine whose port is free.\<close>

lemma new_server_fresh:
  assumes "int_ok (to_int (setting b ''refresh_timer_period'' (VInt 1)) * 60 * 1000)"
    "b = blank_server junk st stored []"
    "y0 = \<lparr>sys_enabled = to_bool (setting b ''enabled'' (VBool True)),
           mInterfaceName = (if to_str (setting b ''network_interface'' (VStr [])) = [] then base_defaultInterfaceName (os env) else []),
           mTestDomains = [], mResolvers = [], mResolverIndex = 0, files = fs, commands = []\<rparr>"
  shows "\<exists>s. new_server True env fs b = Some s \<and> server_inv s \<and> mSystem s = Some (fst (startup (os env) y0)) \<and>
    mResolverPool s = [] \<and> \<not> mResolversInitialized s \<and> \<not> mInColdBoot s \<and> mListening s = can_listen env \<and> settings s = stored"
proof -
  have b: "mResolverPool b = []" "mSystem b = None" "\<not> mInColdBoot b" "settings b = stored" "\<not> mListening b"
    "\<not> mResolversInitialized b" using assms(2) by (simp_all add: blank_server_def)
  define b0 where "b0 = b\<lparr>mTcpListenPort := to_int (setting b ''tcp_listen_port'' (VInt 19803))\<rparr>"
  obtain s1 where s1: "setRefreshPeriod env (to_int (setting b ''refresh_timer_period'' (VInt 1))) b0 = Some s1"
      "core s1 = core b0" "mSystem s1 = mSystem b0"
    using setRefreshPeriod_returns [OF assms(1)] by blast
  have "mResolverPool s1 = []" using s1(2) b(1) by (simp add: core_def b0_def)
  then obtain s2 where s2: "setResolverCacheSize env (to_int (setting b ''resolver_cache_size'' (VInt 3))) s1 = Some s2"
      "core s2 = core s1" "mSystem s2 = mSystem s1"
    using setResolverCacheSize_empty [of s1 env] by blast
  define r where "r = apply_options env (load_options s2)"
  have r0: "readSettings env b = Some r" using s1(1) s2(1) by (simp add: readSettings_def b0_def r_def)
  have c2: "core s2 = core b" "mSystem s2 = None" using s1 s2 b(2) by (simp_all add: core_def b0_def)
  have r: "r = load_options s2" using c2(2) by (simp add: r_def apply_options_def load_options_def)
  have st: "settings s2 = settings b" using c2(1) by (simp add: core_def)
  have y: "new_system (os env) False fs (mEnabled r) (mNetworkInterface r) = Some y0"
    using st by (simp add: r load_options_def new_system_def assms(3) setting_def)
  define t where "t = install_system env y0 r"
  have new: "new_server True env fs b = Some t" using r0 y by (simp add: new_server_def t_def)
  have "server_inv b" unfolding assms(2) by (rule blank_server_inv)
  then have inv: "server_inv t" using new_server_inv [OF new] by blast
  obtain y1 msgs where u: "startup (os env) y0 = (y1, msgs)" by (cases "startup (os env) y0") auto
  define v where "v = initializeServer env (log_all env msgs (r\<lparr>mSystem := Some y1\<rparr>))"
  have t: "t = start_timers v" using u by (simp add: t_def install_system_def v_def)
  have "core r = core b" using c2(1) by (simp add: r load_options_def core_def)
  moreover have "flags_kept r b" by (rule readSettings_flags [OF r0])
  ultimately have "mSystem v = Some y1 \<and> mResolverPool v = [] \<and> \<not> mResolversInitialized v \<and> \<not> mInColdBoot v \<and>
      mListening v = can_listen env \<and> settings v = stored"
    using b by (simp add: v_def initializeServer_def core_def flags_kept_def)
  then show ?thesis using new inv u
    by (auto simp: t start_timers_def start_timer_msecs_def Let_def)
qed


text \<open>The system object of a new server, its list of resolvers preserved.\<close>

definition first_server :: "launch_env \<Rightarrow> server" where
  "first_server le = blank_server (l_junk le) (l_statics le) (l_stored le) []"

definition first_system :: "launch_env \<Rightarrow> sys" where
  "first_system le =
     fst (startup (os (l_server le))
       \<lparr>sys_enabled = to_bool (setting (first_server le) ''enabled'' (VBool True)),
        mInterfaceName = (if to_str (setting (first_server le) ''network_interface'' (VStr [])) = []
          then base_defaultInterfaceName (os (l_server le)) else []),
        mTestDomains = [], mResolvers = [], mResolverIndex = 0, files = l_files le, commands = []\<rparr>)"

text \<open>A machine on which the first start goes through.\<close>

definition can_boot :: "launch_env \<Rightarrow> bool" where
  "can_boot le =
     (l_null le \<and> l_fuel le \<noteq> 0 \<and> platform_of (os (l_server le)) = Linux \<and>
      can_write (os (l_server le)) resolve_conf \<and> draws_fair (l_server le) \<and>
      1 \<le> to_int (setting (first_server le) ''resolver_cache_size'' (VInt 3)) \<and>
      int_ok (to_int (setting (first_server le) ''refresh_timer_period'' (VInt 1)) * 60 * 1000) \<and>
      domains_short (snd (getTestDomains (os (l_server le)) (first_system le))))"

lemma runOnce_boots:
  assumes "can_boot le" "server_inv s" "mSystem s = Some (first_system le)" "mResolverPool s = []" "\<not> mResolversInitialized s"
    "\<not> mInColdBoot s" "settings s = l_stored le"
  shows "\<exists>t. runOnce (l_fuel le) (l_server le) handle s = Runs t \<and> in_service t \<and>
    (can_listen (l_server le) \<longrightarrow> mListening t)"
proof -
  let ?env = "l_server le" and ?y = "first_system le"
  obtain k where k: "l_fuel le = Suc k" using assms(1) by (auto simp: can_boot_def gr0_conv_Suc)
  have set: "setting x = setting (first_server le)" if "settings x = l_stored le" for x
    using that by (simp add: setting_def first_server_def blank_server_def fun_eq_iff)
  have en: "to_bool (setting s ''enabled'' (VBool True)) = sys_enabled ?y"
  proof -
    obtain y1 m where u: "startup (os ?env) \<lparr>sys_enabled = to_bool (setting (first_server le) ''enabled'' (VBool True)),
        mInterfaceName = (if to_str (setting (first_server le) ''network_interface'' (VStr [])) = []
          then base_defaultInterfaceName (os ?env) else []),
        mTestDomains = [], mResolvers = [], mResolverIndex = 0, files = l_files le, commands = []\<rparr> = (y1, m)" (is "?u = _")
      by (cases ?u) auto
    then show ?thesis using startup_frame [OF u] set [OF assms(7)] by (simp add: first_system_def)
  qed
  have ok: "1 \<le> to_int (setting s ''resolver_cache_size'' (VInt 3))"
    "int_ok (to_int (setting s ''refresh_timer_period'' (VInt 1)) * 60 * 1000)"
    using assms(1) set [OF assms(7)] by (simp_all add: can_boot_def)
  obtain s1 i where s1: "readSettings ?env s = Some s1" "core s1 = core s" "mSystem s1 = Some (setInterfaceName i ?y)"
    using readSettings_empty [OF assms(4,3) en, of ?env] ok by auto
  have f1: "mResolverPool s1 = []" "\<not> mResolversInitialized s1" "settings s1 = l_stored le"
    using s1(2) assms(4,5,7) by (simp_all add: core_def)
  have "flags_kept s1 s" by (rule readSettings_flags [OF s1(1)])
  then have cold: "\<not> mInColdBoot s1" using assms(6) by (simp add: flags_kept_def)
  have inv1: "server_inv s1" by (rule server_inv_readSettings [OF s1(1) assms(2)])
  have set1: "setting s1 = setting s" using set [OF f1(3)] set [OF assms(7)] by simp
  obtain t y' where t: "coldBoot (Suc k) ?env handle s1 = Runs t" "mResolversInitialized t" "can_listen ?env \<longrightarrow> mListening t"
      "mSystem t = Some y'" "settings t = settings s1"
    using cold_boot_outcome [OF inv1 s1(3) f1(1,2) cold, of ?env k handle] assms(1) ok en set1 domains_interface
    by (auto simp: can_boot_def setInterfaceName_def)
  have "setting t = setting s1" using t(5) by (simp add: setting_def fun_eq_iff)
  then have serv: "in_service t" using t ok(2) set1 by (simp add: in_service_def)
  have skip: "refreshResolvers (Suc k) ?env handle False t = returned (refresh_active ?env False t)"
    using t(2) by (simp add: refreshResolvers_def)
  obtain u where u: "refreshResolvers (Suc k) ?env handle False t = Runs u" "in_service u"
    using refreshResolvers_runs [OF serv] by blast
  then have act: "refresh_active ?env False t = Some u" using skip by (auto simp: returned_def split: option.splits)
  then have lis: "can_listen ?env \<longrightarrow> mListening u" using refresh_active_listening t(3) by blast
  have "refreshResolvers (Suc k) ?env handle False s1 = Runs u"
    using t(1) act f1(2) by (simp add: refreshResolvers_def returned_def)
  moreover have "in_service (pruneLog (purgeDeadSesssions ?env u)) \<and>
      mListening (pruneLog (purgeDeadSesssions ?env u)) = mListening u"
    using u(2) lis by (auto simp: pruneLog_def purgeDeadSesssions_def in_service_def setting_def split: prod.splits)
  ultimately show ?thesis using s1(1) u(2) lis k by (simp add: runOnce_def returned_def)
qed

lemma start_boots:
  assumes "can_boot le"
  shows "\<exists>t. opennic_start le a =
      Lives (Some t) (\<not> can_listen (l_server le))
        (if can_listen (l_server le) then [] else [(''Failed to bind to port '' @ number 0, Error)]) \<and>
    in_service t \<and> server_inv t \<and> (can_listen (l_server le) \<longrightarrow> mListening t)"
proof -
  obtain s where s: "new_server True (l_server le) (l_files le) (first_server le) = Some s" "server_inv s"
      "mSystem s = Some (first_system le)" "mResolverPool s = []" "\<not> mResolversInitialized s" "\<not> mInColdBoot s"
      "mListening s = can_listen (l_server le)" "settings s = l_stored le"
    using new_server_fresh [OF _ first_server_def refl, of le "l_server le" "l_files le"] assms
    by (auto simp: can_boot_def first_system_def)
  obtain t where t: "runOnce (l_fuel le) (l_server le) (handle_event (l_fuel le) (l_server le)) s = Runs t" "in_service t"
      "can_listen (l_server le) \<longrightarrow> mListening t"
    using runOnce_boots [OF assms s(2-6,8)] by blast
  have "server_inv t" using runOnce_inv [OF handle_event_ok s(2)] t(1) by (metis all_ok_simps(1))
  moreover have "opennic_start le a = Lives (Some t) (\<not> can_listen (l_server le))
      (if can_listen (l_server le) then [] else [(''Failed to bind to port '' @ number 0, Error)])"
    using s(1,7) t(1) assms by (simp add: opennic_start_def first_server_def bind_failure_def can_boot_def)
  ultimately show ?thesis using t(2,3) by blast
qed

section \<open>Pausing\<close>

named_theorems pause_simps \<open>the flag of the service passes through every operation\<close>

definition marked :: "bool \<Rightarrow> server \<Rightarrow> server" where
  \<comment> \<open>what pausing and resuming do\<close>
  "marked b s = s\<lparr>mEnabled := b\<rparr>"

lemma marked_fields [simp]:
  "srv_heap (marked b s) = srv_heap s" "mResolverPool (marked b s) = mResolverPool s"
  "mResolverCache (marked b s) = mResolverCache s" "mSystem (marked b s) = mSystem s"
  "mRefreshTimerPeriod (marked b s) = mRefreshTimerPeriod s" "mResolverCacheSize (marked b s) = mResolverCacheSize s"
  "mRefreshTimer (marked b s) = mRefreshTimer s" "mFastTimer (marked b s) = mFastTimer s"
  "mSecondTimer (marked b s) = mSecondTimer s" "mBootstrapTimer (marked b s) = mBootstrapTimer s"
  "mBootstrapTicks (marked b s) = mBootstrapTicks s" "mSeconds (marked b s) = mSeconds s"
  "mResolversInitialized (marked b s) = mResolversInitialized s" "mUpdatingDNS (marked b s) = mUpdatingDNS s"
  "mSessions (marked b s) = mSessions s" "mLog (marked b s) = mLog s" "settings (marked b s) = settings s"
  "timers (marked b s) = timers s" "next_timer (marked b s) = next_timer s" "mScoreRules (marked b s) = mScoreRules s"
  "mScoreInternal (marked b s) = mScoreInternal s" "GlobalShutdown (marked b s) = GlobalShutdown s"
  "mEnabled (marked b s) = b" "setting (marked b s) = setting s"
  by (simp_all add: marked_def setting_def fun_eq_iff)

lemma marked_updates [simp]:
  "(marked b s)\<lparr>srv_heap := h\<rparr> = marked b (s\<lparr>srv_heap := h\<rparr>)"
  "(marked b s)\<lparr>mResolverPool := p\<rparr> = marked b (s\<lparr>mResolverPool := p\<rparr>)"
  "(marked b s)\<lparr>mResolverCache := p\<rparr> = marked b (s\<lparr>mResolverCache := p\<rparr>)"
  "(marked b s)\<lparr>mSystem := y\<rparr> = marked b (s\<lparr>mSystem := y\<rparr>)"
  "(marked b s)\<lparr>mRefreshTimerPeriod := i\<rparr> = marked b (s\<lparr>mRefreshTimerPeriod := i\<rparr>)"
  "(marked b s)\<lparr>mRefreshTimer := i\<rparr> = marked b (s\<lparr>mRefreshTimer := i\<rparr>)"
  "(marked b s)\<lparr>mResolverCacheSize := i\<rparr> = marked b (s\<lparr>mResolverCacheSize := i\<rparr>)"
  "(marked b s)\<lparr>mTcpListenPort := i\<rparr> = marked b (s\<lparr>mTcpListenPort := i\<rparr>)"
  "(marked b s)\<lparr>mUpdatingDNS := u\<rparr> = marked b (s\<lparr>mUpdatingDNS := u\<rparr>)"
  "(marked b s)\<lparr>timers := ts\<rparr> = marked b (s\<lparr>timers := ts\<rparr>)"
  "(marked b s)\<lparr>timers := ts, next_timer := i\<rparr> = marked b (s\<lparr>timers := ts, next_timer := i\<rparr>)"
  "(marked b s)\<lparr>next_timer := i\<rparr> = marked b (s\<lparr>next_timer := i\<rparr>)"
  "(marked b s)\<lparr>mLog := l\<rparr> = marked b (s\<lparr>mLog := l\<rparr>)"
  "(marked b s)\<lparr>mSessions := ns\<rparr> = marked b (s\<lparr>mSessions := ns\<rparr>)"
  "(marked b s)\<lparr>mSeconds := n\<rparr> = marked b (s\<lparr>mSeconds := n\<rparr>)"
  "(marked b s)\<lparr>mBootstrapTicks := i\<rparr> = marked b (s\<lparr>mBootstrapTicks := i\<rparr>)"
  "(marked b s)\<lparr>mBootstrapTimer := i\<rparr> = marked b (s\<lparr>mBootstrapTimer := i\<rparr>)"
  by (simp_all add: marked_def)

lemma marked_log [pause_simps]: "log_msg env m (marked b s) = marked b (log_msg env m s)"
  by (simp add: log_msg_def)

lemma marked_logs [pause_simps]: "log_all env ms (marked b s) = marked b (log_all env ms s)"
  by (induction ms arbitrary: s) (simp_all add: marked_log)

lemma marked_logPool [pause_simps]: "logResolverPool env m p (marked b s) = marked b (logResolverPool env m p s)"
  by (simp add: logResolverPool_def pause_simps)

lemma marked_kill [pause_simps]: "kill_timer i (marked b s) = marked b (kill_timer i s)"
  by (simp add: kill_timer_def)

lemma marked_refresh [pause_simps]: "stop_refresh (marked b s) = marked b (stop_refresh s)"
  "start_refresh (marked b s) = marked b (start_refresh s)"
  by (simp_all add: stop_refresh_def marked_kill start_refresh_def start_timer_msecs_def Let_def)

lemma marked_period [pause_simps]: "setRefreshPeriod env n (marked b s) = map_option (marked b) (setRefreshPeriod env n s)"
  by (simp add: setRefreshPeriod_def Let_def pause_simps)

lemma marked_system [pause_simps]: "with_system f (marked b s) = map_option (map_prod (marked b) id) (with_system f s)"
  by (simp add: with_system_def split: option.splits prod.splits)

lemma marked_apply [pause_simps]: "apply_loop env rs (marked b s) = map_option (marked b) (apply_loop env rs s)"
proof (induction rs arbitrary: s)
  case (Cons r rs)
  show ?case
  proof (cases "with_system (updateResolver (os env) (host_of (srv_heap s) r)) s")
    case (Some x)
    obtain s1 applied msgs where "x = (s1, applied, msgs)" by (cases x) auto
    then show ?thesis using Some Cons
      by (simp add: Let_def split_def pause_simps del: log_all.simps)
  qed (simp add: pause_simps)
qed simp

lemma marked_commit [pause_simps]:
  "commit_servers env p (marked b s) = map_option (map_prod (marked b) id) (commit_servers env p s)"
proof (cases "with_system (beginUpdateResolvers (os env)) s")
  case (Some x)
  obtain s1 begun where x: "with_system (beginUpdateResolvers (os env)) s = Some (s1, begun)" using Some by (cases x) auto
  show ?thesis
  proof (cases "apply_loop env p s1")
    case None
    then show ?thesis using x by (simp add: commit_servers_def pause_simps)
  next
    case (Some s2)
    then show ?thesis using x
      by (cases "with_system (endUpdateResolvers (os env)) s2") (auto simp: commit_servers_def pause_simps)
  qed
qed (simp add: commit_servers_def pause_simps)

lemma marked_notes [pause_simps]: "begin_note env p (marked b s) = marked b (begin_note env p s)"
  "schedule_note env a (marked b s) = marked b (schedule_note env a s)"
  by (simp_all add: begin_note_def schedule_note_def pause_simps)

lemma marked_replace [pause_simps]: "replaceActiveResolvers env p (marked b s) =
  map_option (map_prod (marked b) id) (replaceActiveResolvers env p s)"
proof -
  let ?s = "s\<lparr>mResolverCache := pool_clear (mResolverCache s)\<rparr>" and ?p = "pool_sort (srv_heap s) p"
  show ?thesis
    by (cases "commit_servers env ?p (begin_note env ?p ?s)") (auto simp: replaceActiveResolvers_def Let_def pause_simps)
qed

lemma marked_should [pause_simps]: "shouldReplaceWithProposed env p (marked b s) =
  map_prod (marked b) id (shouldReplaceWithProposed env p s)"
  by (simp add: shouldReplaceWithProposed_def Let_def pause_simps)

lemma marked_pool [pause_simps]: "score_env_of env (marked b s) = score_env_of env s"
  "propose n (marked b s) = map_prod (marked b) id (propose n s)"
  "dispose p (marked b s) = marked b (dispose p s)"
  "score_pool env (marked b s) = marked b (score_pool env s)" "sort_pool (marked b s) = marked b (sort_pool s)"
  "update_pool env k (marked b s) = marked b (update_pool env k s)"
proof -
  show sc: "score_env_of env (marked b s) = score_env_of env s" for s by (simp add: score_env_of_def)
  show "propose n (marked b s) = map_prod (marked b) id (propose n s)" by (simp add: propose_def split: prod.splits)
  show "dispose p (marked b s) = marked b (dispose p s)" by (simp add: dispose_def)
  show sp: "score_pool env (marked b s) = marked b (score_pool env s)" for s
    by (simp add: score_pool_def sc pause_simps del: log_all.simps)
  show so: "sort_pool (marked b s) = marked b (sort_pool s)" for s by (simp add: sort_pool_def)
  show "update_pool env k (marked b s) = marked b (update_pool env k s)"
    by (simp add: update_pool_def sp so pause_simps del: log_all.simps)
qed

lemma marked_accept [pause_simps]: "accept_proposal env p (marked b s) =
  map_option (map_prod (marked b) id) (accept_proposal env p s)"
proof -
  obtain s1 ok where s1: "shouldReplaceWithProposed env p s = (s1, ok)" by (cases "shouldReplaceWithProposed env p s") auto
  show ?thesis
    by (cases "replaceActiveResolvers env p (log_msg env ''Proposal accepted.'' s1)")
       (auto simp: accept_proposal_def s1 pause_simps Let_def)
qed

lemma marked_run [pause_simps]: "run_update env n (marked b s) = map_option (map_prod (marked b) id) (run_update env n s)"
proof -
  obtain d q where d: "propose (nat n) (update_pool env n s) = (d, q)" by (cases "propose (nat n) (update_pool env n s)") auto
  show ?thesis by (cases "accept_proposal env q d") (auto simp: run_update_def d pause_simps)
qed

lemma marked_update [pause_simps]: "updateDNS env n (marked b s) = map_option (map_prod (marked b) id) (updateDNS env n s)"
  by (cases "run_update env n (log_msg env ''** UPDATE DNS **'' (s\<lparr>mUpdatingDNS := True\<rparr>))")
     (auto simp: updateDNS_def pause_simps)

lemma marked_size [pause_simps]: "setResolverCacheSize env n (marked b s) = map_option (marked b) (setResolverCacheSize env n s)"
  by (simp add: setResolverCacheSize_def Let_def pause_simps option.map_comp comp_def)

lemma marked_refresh_active [pause_simps]: "refresh_active env f (marked b s) = map_option (marked b) (refresh_active env f s)"
proof -
  have t: "testResolverCache env (marked b s) = map_prod (marked b) id (testResolverCache env s)" for s
    by (simp add: testResolverCache_def pause_simps split: option.splits)
  obtain s1 good where "testResolverCache env s = (s1, good)" by (cases "testResolverCache env s") auto
  then show ?thesis by (simp add: refresh_active_def t pause_simps option.map_comp comp_def)
qed

lemma load_marked: "load_options (marked b s) = load_options s"
  by (simp add: load_options_def marked_def setting_def)

text \<open>Reading the settings forgets the flag.\<close>

lemma readSettings_marked: "readSettings env (marked b s) = readSettings env s"
proof (cases "setRefreshPeriod env (to_int (setting s ''refresh_timer_period'' (VInt 1)))
    (s\<lparr>mTcpListenPort := to_int (setting s ''tcp_listen_port'' (VInt 19803))\<rparr>)")
  case (Some s1)
  then show ?thesis
    by (cases "setResolverCacheSize env (to_int (setting s ''resolver_cache_size'' (VInt 3))) s1")
       (simp_all add: readSettings_def pause_simps load_marked)
qed (simp add: readSettings_def pause_simps)


definition map_run :: "(server \<Rightarrow> server) \<Rightarrow> run_result \<Rightarrow> run_result" where
  "map_run f r = (case r of Runs s \<Rightarrow> Runs (f s) | Exits s \<Rightarrow> Exits (f s) | Stuck \<Rightarrow> Stuck)"

lemma map_run_simps [simp]: "map_run f (Runs s) = Runs (f s)" "map_run f (Exits s) = Exits (f s)" "map_run f Stuck = Stuck"
  by (simp_all add: map_run_def)

lemma returned_map [simp]: "returned (map_option f x) = map_run f (returned x)"
  by (cases x) (simp_all add: returned_def)

lemma marked_resolvers: "mResolversInitialized s \<Longrightarrow>
  refreshResolvers k env handle force (marked b s) = map_run (marked b) (refreshResolvers k env handle force s)"
  by (simp add: refreshResolvers_def pause_simps)

lemma marked_shutdown: "shut_down env (marked b s) = map_run (marked b) (shut_down env s)"
  by (cases "with_system (shutdown (os env)) s") (auto simp: shut_down_def pause_simps simp del: log_all.simps)

lemma marked_tick: "bootstrap_tick (marked b s) = marked b (bootstrap_tick s)"
  by (simp add: bootstrap_tick_def pause_simps Let_def)


lemma timer_marked:
  assumes "mResolversInitialized s"
  shows "server_timerEvent k env handle i (service_pause s) =
    (if \<not> GlobalShutdown s \<and> i = mFastTimer s then server_timerEvent k env handle i s
     else map_run service_pause (server_timerEvent k env handle i s))"
proof -
  have p: "service_pause v = marked False v" for v by (simp add: service_pause_def marked_def)
  have "map_run service_pause r = map_run (marked False) r" for r by (cases r) (simp_all add: p)
  moreover have "after (map_run (marked False) r) (\<lambda>s1. Runs (bootstrap_tick s1)) =
      map_run (marked False) (after r (\<lambda>s1. Runs (bootstrap_tick s1)))" for r
    by (cases r) (simp_all add: marked_tick)
  ultimately show ?thesis
    using assms by (simp add: server_timerEvent_def p marked_shutdown marked_resolvers marked_tick runOnce_def readSettings_marked Let_def)
qed

section \<open>Properties\<close>

text \<open>A Linux machine on which the service starts for the first time.\<close>

definition sample_boot :: launch_env where
  "sample_boot =
     \<lparr>l_server = sample_senv, l_null = True, l_files = sample_files, l_junk = 0,
      l_statics = \<lparr>mQueryCount = 0, mMasterTid = 0\<rparr>, l_stored = (\<lambda>_. None), l_fuel = 1\<rparr>"

lemma sample_can_boot: "can_boot sample_boot"
proof -
  have b: "setting (first_server sample_boot) k v = v" for k v
    by (simp add: setting_def first_server_def blank_server_def sample_boot_def)
  define fs where "fs = sample_files(resolve_conf_backup \<mapsto> overwrite (''nameserver 8.8.8.8'' @ [nl]) (content sample_files resolve_conf_backup))"
  have "mTestDomains (first_system sample_boot) = [] \<and> files (first_system sample_boot) = fs"
    by (simp add: first_system_def b startup_def preserveResolverCache_def fileCopy_def open_read_def fs_def sample_boot_def
        split: prod.splits) (simp add: resolve_conf_def resolve_conf_backup_def)
  moreover have "bootstrapDomainsPath sample_os fs = ''/etc/bootstrap.domains''"
    by (simp add: bootstrapDomainsPath_def linux_path_def install_dirs_def fileExists_def sample_files_def resolve_conf_def
        resolve_conf_backup_def fs_def)
  moreover have "fs ''/etc/bootstrap.domains'' = Some (''icann;a.b'' @ [nl])"
    by (simp add: fs_def resolve_conf_backup_def)
  ultimately have "domains_short (snd (getTestDomains sample_os (first_system sample_boot)))"
    by (intro sample_domains_in) simp_all
  then show ?thesis using sample_draws_fair
    by (simp add: can_boot_def b int_ok_def) (simp add: sample_boot_def sample_senv_def)
qed

text \<open>C4: the life of the program on Linux, \<open>main\<close> included, on a machine on which the first start goes
  through: the uninitialised member \<open>mSystem\<close> that the constructor reads happens to be null, the TCP port
  is free, \<open>resolv.conf\<close> can be written, the random numbers reach every domain, the test domains are
  short, the stored cache size is positive and the stored period of the refresh timer fits an int. Called without arguments while no daemon holds
  its socket, it leaves one detached process behind, started by its own absolute path and marked as the
  service. That process binds the socket, boots the server and stays in its event loop, its server
  listening and in service; a controller finds it running; a second call ends with -4 and starts
  nothing; -t ends with 0, and once the loop has returned the service is not found any more.\<close>

theorem program_lifecycle:
  assumes "can_boot le" "can_listen (l_server le)" "can_socket env" "can_bind env" "can_detach env" "NUL \<notin> set (login env)" "length (login env) < 85"
    "listeners w (''/var/tmp/opennicwizard.'' @ login env) = None" "\<not> run_marker w" "p3 \<noteq> pid" "p4 \<noteq> pid"
    "path = filePath env (opennic_base [prog])"
  shows "\<exists>w1 w2 w3 w4 out d t.
    opennic_main env le [prog] w = (Some 0, [], w1) \<and> spawned w1 = spawned w @ [(path, [], ''/'', True)] \<and>
    opennic_main env le [path] (new_process pid (opennic_base [path]) True w1) = (None, [], w2) \<and>
    procs w2 pid = Some d \<and> app d = Some (Some t) \<and> in_service t \<and> mListening t \<and> fst (isRunning env service_title w2) \<and>
    opennic_main env le [prog] (new_process p3 (opennic_base [prog]) False w2) = (Some (- 4), out, w3) \<and>
    spawned w3 = spawned w1 \<and>
    opennic_main env le [prog, ''-t''] (new_process p4 (opennic_base [prog, ''-t'']) False w3) = (Some 0, [], w4) \<and>
    \<not> fst (isRunning env service_title (loop_returned pid w4))"
proof -
  obtain t where t: "opennic_start le None = Lives (Some t) False []" "in_service t" "mListening t"
    using start_boots [OF assms(1), of None] assms(2) by auto
  have net: "network_ok env (service_name (opennic_base [prog]))" using opennic_network assms(3,4,6,7) by simp
  have free: "listeners w (socketPath env (service_name (opennic_base [prog]))) = None"
    using assms(8) by (simp add: opennic_path)
  show ?thesis
    using service_lifecycle [OF net assms(5) _ _ free assms(9) _ _ _ assms(10,11), of prog "[]" "opennic_service le" "Some t" "[]" "Some t" False "[]"]
      t assms(12) unfolding opennic_main_def by simp blast
qed

definition idle_unix :: "(server option, event) unix" where
  "idle_unix =
     \<lparr>conf = [], procs = (\<lambda>_. None), listeners = (\<lambda>_. None), self = 2, run_marker = False,
      spawned = [], connections = 0, posted = [], agenda = []\<rparr>"

lemma sample_uenv_login: "can_socket sample_uenv" "can_bind sample_uenv" "can_detach sample_uenv"
  "NUL \<notin> set (login sample_uenv)" "length (login sample_uenv) < 85"
  by (simp_all add: sample_uenv_def NUL_def)

lemma sample_can_listen: "can_listen (l_server sample_boot)"
  by (simp add: sample_boot_def sample_senv_def)

lemma program_lifecycle_witness:
  "\<exists>w1 w2. opennic_main sample_uenv sample_boot [''/usr/sbin/wizd''] idle_unix = (Some 0, [], w1) \<and>
     opennic_main sample_uenv sample_boot [''/usr/sbin/wizd'']
       (new_process 5 (opennic_base [''/usr/sbin/wizd'']) True w1) = (None, [], w2) \<and>
     fst (isRunning sample_uenv service_title w2)"
proof -
  have p: "''/usr/sbin/wizd'' = filePath sample_uenv (opennic_base [''/usr/sbin/wizd''])"
    by (simp add: filePath_def absPath_def dir_part_def file_name_def in_dir_def Let_def)
  have "listeners idle_unix x = None" "\<not> run_marker idle_unix" for x by (simp_all add: idle_unix_def)
  then show ?thesis
    using program_lifecycle [OF sample_can_boot sample_can_listen sample_uenv_login _ _ _ _ p, of idle_unix 6 5 7] by auto
qed

text \<open>C30: pausing the service is acknowledged and does nothing. The daemon answers true to the controller and
  its server's flag is cleared, but no timer handler of that server depends on the flag: the fast timer
  gives the very result it would have given without the pause, every other timer the same up to the flag.\<close>

theorem pause_ignored:
  assumes "serving env service_title pid d w" "app d = Some (Some s)" "flag_set CanBeSuspended d" "mResolversInitialized s"
  shows "\<exists>w' d'. controller_pause env (opennic_service le) service_title w = (True, w') \<and> procs w' pid = Some d' \<and>
    app d' = Some (Some (service_pause s)) \<and>
    (\<forall>k senv handle i. server_timerEvent k senv handle i (service_pause s) =
       (if \<not> GlobalShutdown s \<and> i = mFastTimer s then server_timerEvent k senv handle i s
        else map_run service_pause (server_timerEvent k senv handle i s)))"
proof -
  have "control_meaning (opennic_service le) PauseIt d = Some (True, d\<lparr>app := Some (Some (service_pause s))\<rparr>)"
    using assms(1-3) by (simp add: absorb_def opennic_pause_def serving_def)
  from sendCmd_serving [OF assms(1) _ this] show ?thesis
    using timer_marked [OF assms(4)] by (simp add: controller_pause_def)
qed

text \<open>a pause that arrives before the service has started ends it: the socket is bound before the event
  loop calls \<open>start\<close>, and \<open>pause\<close> follows a pointer that is still null. The controller is told false and
  the process is gone.\<close>

theorem early_pause_kills:
  assumes "serving env service_title pid d w" "app d = Some None" "flag_set CanBeSuspended d"
  shows "\<exists>w'. controller_pause env (opennic_service le) service_title w = (False, w') \<and> procs w' pid = None \<and>
    \<not> fst (isRunning env service_title w')"
proof -
  have n: "control_meaning (opennic_service le) PauseIt d = None"
    using assms(2,3) by (simp add: absorb_def opennic_pause_def)
  have c: "connectTo env (socketPath env service_title) w = Some pid" using assms(1) by (simp add: serving_def)
  have "slotReady (opennic_service le) (socket_at env (connections w)) (''pause'' @ crlf) d = None"
    using controls.command_delivered [of PauseIt d "socket_at env (connections w)" "opennic_service le"] assms(1) n
    by (auto simp: serving_def)
  then show ?thesis
    using assms(1) c by (auto simp: serving_def controller_pause_def sendCmd_def deliver_def isRunning_def connectTo_def Let_def
      split: if_splits)
qed

text \<open>a service that cannot bind its port is told to quit, but only after its first run: when the event
  loop ends, with 0, the boot is complete, the name servers rewritten, and the message in the log of
  the system names port 0, whatever the port.\<close>

theorem unbound_start:
  assumes "can_boot le" "\<not> can_listen (l_server le)" "procs w (self w) = Some d" "app d = Some None" "sysd d = Some y"
  shows "\<exists>w' d' t. event_loop (opennic_service le) (Begin # es) w = (Some 0, w') \<and> procs w' (self w) = Some d' \<and>
    app d' = Some (Some t) \<and> mResolversInitialized t \<and>
    (\<exists>name. syslog d' = syslog d @ [(name, LOG_ERR, ''Failed to bind to port 0'')])"
proof -
  obtain t where t: "opennic_start le None = Lives (Some t) True [(''Failed to bind to port '' @ number 0, Error)]" "in_service t"
    using start_boots [OF assms(1), of None] assms(2) by auto
  have n: "number 0 = ''0''" by code_simp
  have "split_on nl ''Failed to bind to port 0'' = [''Failed to bind to port 0'']"
    by (rule split_on_no_sep) (simp add: nl_def)
  then show ?thesis
    using assms(3-5) t by (simp add: absorb_def on_own_def logMessage_def n Let_def in_service_def)
qed

definition sample_process :: "server option daemon" where
  "sample_process =
     \<lparr>base = opennic_base [''/usr/sbin/wizd''], sysd = Some (new_sysd CanBeSuspended), app = Some None, quitting = False,
      syslog = []\<rparr>"

lemma unbound_start_witness:
  "\<exists>w' d'. event_loop (opennic_service (sample_boot\<lparr>l_server := sample_senv\<lparr>can_listen := False\<rparr>\<rparr>)) [Begin]
       (idle_unix\<lparr>procs := [2 \<mapsto> sample_process]\<rparr>) = (Some 0, w') \<and> procs w' 2 = Some d' \<and>
     (\<exists>name. syslog d' = [(name, LOG_ERR, ''Failed to bind to port 0'')])"
proof -
  let ?le = "sample_boot\<lparr>l_server := sample_senv\<lparr>can_listen := False\<rparr>\<rparr>"
  have s: "l_server sample_boot = sample_senv" by (simp add: sample_boot_def)
  have f: "first_server ?le = first_server sample_boot" by (simp add: first_server_def)
  have "first_system ?le = first_system sample_boot" by (simp add: first_system_def f s)
  then have "can_boot ?le"
    using sample_can_boot by (simp add: can_boot_def f s draws_fair_def)
  then show ?thesis
    using unbound_start [of ?le "idle_unix\<lparr>procs := [2 \<mapsto> sample_process]\<rparr>" sample_process "new_sysd CanBeSuspended" "[]"]
    by (simp add: idle_unix_def sample_process_def) blast
qed

text \<open>A process that has bound its socket and not yet started, and one that serves.\<close>

definition early_unix :: "(server option, event) unix" where
  "early_unix = idle_unix\<lparr>procs := [3 \<mapsto> sample_process], listeners := [''/var/tmp/opennicwizard.root'' \<mapsto> 3]\<rparr>"

definition served_unix :: "(server option, event) unix" where
  "served_unix = early_unix\<lparr>procs := [3 \<mapsto> sample_process\<lparr>app := Some (Some sample_server)\<rparr>]\<rparr>"

lemma sample_serving: "serving sample_uenv service_title 3 sample_process early_unix"
  "serving sample_uenv service_title 3 (sample_process\<lparr>app := Some (Some sample_server)\<rparr>) served_unix"
proof -
  have net: "network_ok sample_uenv service_title" using opennic_network sample_uenv_login by blast
  have "login sample_uenv = ''root''" by (simp add: sample_uenv_def)
  then have "connectTo sample_uenv (socketPath sample_uenv service_title) w = listeners w ''/var/tmp/opennicwizard.root''"
    for w :: "(server option, event) unix"
    using connectTo_ok [OF net, of w] by (simp add: opennic_path)
  then show "serving sample_uenv service_title 3 sample_process early_unix"
    "serving sample_uenv service_title 3 (sample_process\<lparr>app := Some (Some sample_server)\<rparr>) served_unix"
    by (simp_all add: serving_def early_unix_def served_unix_def sample_process_def cached_def new_sysd_def)
qed

lemma early_pause_kills_witness:
  "\<exists>w'. controller_pause sample_uenv (opennic_service sample_boot) service_title early_unix = (False, w') \<and>
     \<not> fst (isRunning sample_uenv service_title w')"
  using early_pause_kills [OF sample_serving(1), of sample_boot]
  by (simp add: sample_process_def flag_set_def new_sysd_def) blast

lemma pause_ignored_witness:
  "\<exists>w'. controller_pause sample_uenv (opennic_service sample_boot) service_title served_unix = (True, w')"
proof -
  let ?d = "sample_process\<lparr>app := Some (Some sample_server)\<rparr>"
  have "app ?d = Some (Some sample_server)" "flag_set CanBeSuspended ?d" "mResolversInitialized sample_server"
    by (simp_all add: sample_process_def flag_set_def new_sysd_def sample_server_def)
  from pause_ignored [OF sample_serving(2) this, of sample_boot] show ?thesis by blast
qed

end
