(* ===== verification/ServiceWindows.thy ===== *)
theory ServiceWindows
  imports ServiceFramework
begin

text \<open>
  \<open>server/qtservice_win.cpp\<close>: the controller and the service on the service control manager of
  Windows. The manager is not part of the program: the model keeps the list of the calls made to
  it, newest first, and \<open>env\<close> answers each call, in whatever way, from the calls before it. A handle of 0 is the
  null handle. The second half is the service's own side: the control handler that the manager
  calls, the event it posts to the main thread, and the status it reports.
\<close>

section \<open>The calls to the service control manager\<close>

datatype scm_call =
    OpenSCManager nat
  | OpenService nat string nat
  | CreateService nat string nat nat string "string option" "string option"
      \<comment> \<open>manager, name, service type, start type, path, account, password\<close>
  | CloseServiceHandle nat
  | QueryServiceStatus nat
  | QueryServiceConfig nat
  | QueryDescription nat
  | ChangeDescription nat string
  | DeleteService nat
  | StartService nat "string list"
  | ControlService nat int
  | Sleep nat
  | RegisterEventSource string
  | ReportEvent nat nat nat int string string
  | DeregisterEventSource nat

record scm_env =
  resolves :: bool                                     \<comment> \<open>the functions of advapi32 were found\<close>
  handle_for :: "scm_call list \<Rightarrow> scm_call \<Rightarrow> nat"
  succeeds :: "scm_call list \<Rightarrow> scm_call \<Rightarrow> bool"
  current_state :: "scm_call list \<Rightarrow> scm_call \<Rightarrow> nat"
  binary_path :: "scm_call list \<Rightarrow> string"
  start_type :: "scm_call list \<Rightarrow> nat"
  description :: "scm_call list \<Rightarrow> string option"
  module_path :: string
  registers :: bool                                    \<comment> \<open>the control handler can be registered\<close>
  last_error :: string
  schedule :: "bool list"
    \<comment> \<open>which thread goes on, once the main loop has ended: the handler's, or the main one\<close>

text \<open>The state of one process: the calls it has made, and, when it is the service, its status
  structure, its application and the statuses it has reported.\<close>

record 'a win =
  owner :: service_base
  calls :: "scm_call list"
  current :: nat            \<comment> \<open>\<open>dwCurrentState\<close>\<close>
  accepted :: flags         \<comment> \<open>\<open>dwControlsAccepted\<close>\<close>
  exit_code :: int
  serviceArgs :: "string list"
  wapp :: "'a option"
  wquit :: bool
  reports :: "(nat \<times> flags) list"

definition opened :: "scm_env \<Rightarrow> scm_call \<Rightarrow> scm_call list \<Rightarrow> nat \<times> scm_call list" where
  "opened env c tr = (handle_for env tr c, c # tr)"

definition tried :: "scm_env \<Rightarrow> scm_call \<Rightarrow> scm_call list \<Rightarrow> bool \<times> scm_call list" where
  "tried env c tr = (succeeds env tr c, c # tr)"

definition winServiceInit :: "scm_env \<Rightarrow> bool" where
  "winServiceInit env = resolves env"

definition SERVICE_STOPPED :: nat where "SERVICE_STOPPED = 1"
definition SERVICE_START_PENDING :: nat where "SERVICE_START_PENDING = 2"
definition SERVICE_STOP_PENDING :: nat where "SERVICE_STOP_PENDING = 3"
definition SERVICE_RUNNING :: nat where "SERVICE_RUNNING = 4"
definition SERVICE_CONTINUE_PENDING :: nat where "SERVICE_CONTINUE_PENDING = 5"
definition SERVICE_PAUSE_PENDING :: nat where "SERVICE_PAUSE_PENDING = 6"
definition SERVICE_PAUSED :: nat where "SERVICE_PAUSED = 7"

definition SERVICE_CONTROL_STOP :: int where "SERVICE_CONTROL_STOP = 1"
definition SERVICE_CONTROL_PAUSE :: int where "SERVICE_CONTROL_PAUSE = 2"
definition SERVICE_CONTROL_CONTINUE :: int where "SERVICE_CONTROL_CONTINUE = 3"
definition SERVICE_CONTROL_INTERROGATE :: int where "SERVICE_CONTROL_INTERROGATE = 4"
definition SERVICE_CONTROL_SHUTDOWN :: int where "SERVICE_CONTROL_SHUTDOWN = 5"
definition QTSERVICE_STARTUP :: int where "QTSERVICE_STARTUP = 256"

lemmas control_codes = SERVICE_CONTROL_STOP_def SERVICE_CONTROL_PAUSE_def SERVICE_CONTROL_CONTINUE_def
  SERVICE_CONTROL_INTERROGATE_def SERVICE_CONTROL_SHUTDOWN_def QTSERVICE_STARTUP_def

lemmas service_states = SERVICE_STOPPED_def SERVICE_START_PENDING_def SERVICE_STOP_PENDING_def SERVICE_RUNNING_def
  SERVICE_CONTINUE_PENDING_def SERVICE_PAUSE_PENDING_def SERVICE_PAUSED_def

definition SC_MANAGER_CONNECT :: nat where "SC_MANAGER_CONNECT = 1"
definition SC_MANAGER_ALL_ACCESS :: nat where "SC_MANAGER_ALL_ACCESS = 983103"
definition SERVICE_QUERY_CONFIG :: nat where "SERVICE_QUERY_CONFIG = 1"
definition SERVICE_QUERY_STATUS :: nat where "SERVICE_QUERY_STATUS = 4"
definition SERVICE_START_ACCESS :: nat where "SERVICE_START_ACCESS = 16"
definition SERVICE_STOP_ACCESS :: nat where "SERVICE_STOP_ACCESS = 32"
definition SERVICE_PAUSE_CONTINUE :: nat where "SERVICE_PAUSE_CONTINUE = 64"
definition SERVICE_USER_DEFINED_CONTROL :: nat where "SERVICE_USER_DEFINED_CONTROL = 256"
definition DELETE_ACCESS :: nat where "DELETE_ACCESS = 65536"

section \<open>The controller\<close>

text \<open>Every operation opens the manager, opens the service, and closes both.\<close>

definition with_service ::
  "scm_env \<Rightarrow> nat \<Rightarrow> nat \<Rightarrow> string \<Rightarrow> 'r \<Rightarrow> (nat \<Rightarrow> scm_call list \<Rightarrow> 'r \<times> scm_call list) \<Rightarrow>
   scm_call list \<Rightarrow> 'r \<times> scm_call list" where
  "with_service env manager_access service_access n result body tr =
     (if \<not> winServiceInit env then (result, tr)
      else
        (let (hSCM, tr1) = opened env (OpenSCManager manager_access) tr
         in if hSCM = 0 then (result, tr1)
            else
              (let (hService, tr2) = opened env (OpenService hSCM n service_access) tr1
               in if hService = 0 then (result, CloseServiceHandle hSCM # tr2)
                  else (let (r, tr3) = body hService tr2
                        in (r, CloseServiceHandle hSCM # CloseServiceHandle hService # tr3)))))"

definition win_isInstalled :: "scm_env \<Rightarrow> string \<Rightarrow> scm_call list \<Rightarrow> bool \<times> scm_call list" where
  "win_isInstalled env n = with_service env 0 SERVICE_QUERY_CONFIG n False (\<lambda>h tr. (True, tr))"

definition query_status :: "scm_env \<Rightarrow> nat \<Rightarrow> scm_call list \<Rightarrow> nat option \<times> scm_call list" where
  "query_status env h tr =
     (let c = QueryServiceStatus h; (ok, tr1) = tried env c tr
      in (if ok then Some (current_state env tr c) else None, tr1))"

definition win_isRunning :: "scm_env \<Rightarrow> string \<Rightarrow> scm_call list \<Rightarrow> bool \<times> scm_call list" where
  "win_isRunning env n = with_service env 0 SERVICE_QUERY_STATUS n False
     (\<lambda>h tr. let (st, tr1) = query_status env h tr
             in (case st of None \<Rightarrow> False | Some s \<Rightarrow> s \<noteq> SERVICE_STOPPED, tr1))"

definition win_serviceFilePath :: "scm_env \<Rightarrow> string \<Rightarrow> scm_call list \<Rightarrow> string \<times> scm_call list" where
  "win_serviceFilePath env n = with_service env 0 SERVICE_QUERY_CONFIG n []
     (\<lambda>h tr. let (ok, tr1) = tried env (QueryServiceConfig h) tr in (if ok then binary_path env tr else [], tr1))"

definition win_serviceDescription :: "scm_env \<Rightarrow> string \<Rightarrow> scm_call list \<Rightarrow> string \<times> scm_call list" where
  "win_serviceDescription env n = with_service env 0 SERVICE_QUERY_CONFIG n []
     (\<lambda>h tr. let (ok, tr1) = tried env (QueryDescription h) tr
             in (if ok then (case description env tr of None \<Rightarrow> [] | Some d \<Rightarrow> d) else [], tr1))"

definition SERVICE_AUTO_START :: nat where "SERVICE_AUTO_START = 2"
definition SERVICE_DEMAND_START :: nat where "SERVICE_DEMAND_START = 3"

definition win_startupType :: "scm_env \<Rightarrow> string \<Rightarrow> scm_call list \<Rightarrow> startup_type \<times> scm_call list" where
  "win_startupType env n = with_service env 0 SERVICE_QUERY_CONFIG n ManualStartup
     (\<lambda>h tr. let (ok, tr1) = tried env (QueryServiceConfig h) tr
             in (if ok then (if start_type env tr = SERVICE_DEMAND_START then ManualStartup else AutoStartup)
                 else ManualStartup, tr1))"

definition win_uninstall :: "scm_env \<Rightarrow> string \<Rightarrow> scm_call list \<Rightarrow> bool \<times> scm_call list" where
  "win_uninstall env n = with_service env SC_MANAGER_ALL_ACCESS DELETE_ACCESS n False
     (\<lambda>h. tried env (DeleteService h))"

definition win_controller_start :: "scm_env \<Rightarrow> string \<Rightarrow> string list \<Rightarrow> scm_call list \<Rightarrow> bool \<times> scm_call list" where
  "win_controller_start env n arguments = with_service env SC_MANAGER_CONNECT SERVICE_START_ACCESS n False
     (\<lambda>h. tried env (StartService h arguments))"

function stop_loop :: "scm_env \<Rightarrow> nat \<Rightarrow> bool \<Rightarrow> nat \<Rightarrow> scm_call list \<Rightarrow> bool \<times> scm_call list" where
  "stop_loop env h stopped i tr =
     (if \<not> stopped \<and> i < 10 then
        (let tr1 = Sleep 200 # tr; (st, tr2) = query_status env h tr1
         in case st of
              None \<Rightarrow> (stopped, tr2)
            | Some s \<Rightarrow> stop_loop env h (s = SERVICE_STOPPED) (Suc i) tr2)
      else (stopped, tr))"
  by pat_completeness auto
termination by (relation "measure (\<lambda>(env, h, stopped, i, tr). 10 - i)") auto

declare stop_loop.simps [simp del]

definition win_stop :: "scm_env \<Rightarrow> string \<Rightarrow> scm_call list \<Rightarrow> bool \<times> scm_call list" where
  "win_stop env n =
     with_service env SC_MANAGER_CONNECT (SERVICE_STOP_ACCESS + SERVICE_QUERY_STATUS) n False
       (\<lambda>h tr. let c = ControlService h SERVICE_CONTROL_STOP; (ok, tr1) = tried env c tr
               in if ok then stop_loop env h (current_state env tr c = SERVICE_STOPPED) 0 tr1 else (False, tr1))"

definition win_pause :: "scm_env \<Rightarrow> string \<Rightarrow> scm_call list \<Rightarrow> bool \<times> scm_call list" where
  "win_pause env n = with_service env SC_MANAGER_CONNECT SERVICE_PAUSE_CONTINUE n False
     (\<lambda>h. tried env (ControlService h SERVICE_CONTROL_PAUSE))"

definition win_resume :: "scm_env \<Rightarrow> string \<Rightarrow> scm_call list \<Rightarrow> bool \<times> scm_call list" where
  "win_resume env n = with_service env SC_MANAGER_CONNECT SERVICE_PAUSE_CONTINUE n False
     (\<lambda>h. tried env (ControlService h SERVICE_CONTROL_CONTINUE))"

definition win_sendCommand :: "scm_env \<Rightarrow> string \<Rightarrow> int \<Rightarrow> scm_call list \<Rightarrow> bool \<times> scm_call list" where
  "win_sendCommand env n code tr =
     (if \<not> winServiceInit env \<or> code < 0 \<or> code > 127 then (False, tr)
      else (let (running, tr1) = win_isRunning env n tr
            in if \<not> running then (False, tr1)
               else with_service env SC_MANAGER_CONNECT SERVICE_USER_DEFINED_CONTROL n False
                      (\<lambda>h. tried env (ControlService h (128 + code))) tr1))"

section \<open>Installation and the event log\<close>

definition local_system :: string where
  "local_system = backslash # ''LocalSystem''"

definition ends_with :: "string \<Rightarrow> string \<Rightarrow> bool" where
  "ends_with s suffix = (length suffix \<le> length s \<and> drop (length s - length suffix) s = suffix)"

definition account_of :: "string \<Rightarrow> string option" where
  \<comment> \<open>\<open>act\<close>: None is the null pointer, the account LocalSystem\<close>
  "account_of account =
     (if account = [] then None
      else
        (let acc = (if backslash \<notin> set account then CHR ''.'' # backslash # account else account)
         in if \<not> ends_with acc local_system then Some acc else None))"

definition password_of :: "string option \<Rightarrow> string \<Rightarrow> string option" where
  "password_of act password = (if password \<noteq> [] \<and> act \<noteq> None then Some password else None)"

definition SERVICE_WIN32_OWN_PROCESS :: nat where "SERVICE_WIN32_OWN_PROCESS = 16"
definition SERVICE_INTERACTIVE_PROCESS :: nat where "SERVICE_INTERACTIVE_PROCESS = 256"

definition service_type :: "string option \<Rightarrow> nat" where
  "service_type act =
     (if act = None then SERVICE_WIN32_OWN_PROCESS + SERVICE_INTERACTIVE_PROCESS else SERVICE_WIN32_OWN_PROCESS)"

definition max_path :: nat where
  "max_path = 260"

text \<open>
  \<open>GetModuleFileNameW\<close> is told the size of the array in bytes, twice the number of characters
  it holds: it copies up to 519 characters and a zero.
\<close>

definition win_filePath :: "scm_env \<Rightarrow> string" where
  "win_filePath env = take (2 * max_path - 1) (module_path env)"

definition filePath_overruns :: "scm_env \<Rightarrow> bool" where
  "filePath_overruns env = (length (win_filePath env) + 1 > max_path)"

definition win_install :: "scm_env \<Rightarrow> service_base \<Rightarrow> string \<Rightarrow> string \<Rightarrow> scm_call list \<Rightarrow> bool \<times> scm_call list" where
  "win_install env b account password tr =
     (if \<not> winServiceInit env then (False, tr)
      else
        (let (hSCM, tr1) = opened env (OpenSCManager SC_MANAGER_ALL_ACCESS) tr
         in if hSCM = 0 then (False, tr1)
            else
              (let act = account_of account;
                   (hService, tr2) = opened env (CreateService hSCM (service_name b) (service_type act)
                     (if startupType b = AutoStartup then SERVICE_AUTO_START else SERVICE_DEMAND_START)
                     (win_filePath env) act (password_of act password)) tr1
               in if hService = 0 then (False, CloseServiceHandle hSCM # tr2)
                  else
                    (let tr3 = (if serviceDescription b \<noteq> []
                                then ChangeDescription hService (serviceDescription b) # tr2 else tr2)
                     in (True, CloseServiceHandle hSCM # CloseServiceHandle hService # tr3)))))"

fun event_type :: "message_type \<Rightarrow> nat" where
  "event_type Error = 1"
| "event_type Warning = 2"
| "event_type Information = 4"
| "event_type Success = 0"

text \<open>Every message goes to the debug log too, with a type that has no severity of its own.\<close>

fun logged_prefix :: "message_type \<Rightarrow> string" where
  "logged_prefix Error = ''[LOGGED Error] ''"
| "logged_prefix Warning = ''[LOGGED Warning] ''"
| "logged_prefix Success = ''[LOGGED Success] ''"
| "logged_prefix Information = ''[LOGGED Information] ''"

definition win_debug_copy :: "debug_env \<Rightarrow> string \<Rightarrow> message_type \<Rightarrow> debug_log \<Rightarrow> debug_log" where
  "win_debug_copy env message ty d = fst (qtServiceLogDebug env OtherMsg (logged_prefix ty @ message) d)"

text \<open>A message of the service never ends the process, and what the debug log held before stays.\<close>

lemma debug_copy_kept: "\<exists>new. log_text (win_debug_copy env message ty d) = log_text d @ new"
  "\<not> snd (qtServiceLogDebug env OtherMsg (logged_prefix ty @ message) d)"
  using debug_log_grows [OF prod.collapse [symmetric], of env OtherMsg "logged_prefix ty @ message" d]
  by (auto simp: win_debug_copy_def)

definition win_logMessage ::
  "scm_env \<Rightarrow> service_base \<Rightarrow> string \<Rightarrow> message_type \<Rightarrow> int \<Rightarrow> nat \<Rightarrow> string \<Rightarrow> scm_call list \<Rightarrow> scm_call list" where
  "win_logMessage env b message ty ident category bindata tr =
     (if \<not> winServiceInit env then tr
      else
        (let (h, tr1) = opened env (RegisterEventSource (service_name b)) tr
         in if h \<noteq> 0
            then DeregisterEventSource h # ReportEvent h (event_type ty) category ident message bindata # tr1
            else tr1))"


unbundle bit_operations_syntax

section \<open>The service's side\<close>

definition SERVICE_ACCEPT_STOP :: flags where "SERVICE_ACCEPT_STOP = 1"
definition SERVICE_ACCEPT_PAUSE_CONTINUE :: flags where "SERVICE_ACCEPT_PAUSE_CONTINUE = 2"
definition SERVICE_ACCEPT_SHUTDOWN :: flags where "SERVICE_ACCEPT_SHUTDOWN = 4"

definition accepted_controls :: "flags \<Rightarrow> flags" where
  \<comment> \<open>\<open>QtServiceSysPrivate::serviceFlags\<close>\<close>
  "accepted_controls fl =
     (let c1 = (if has_flag fl CanBeSuspended then 0 OR SERVICE_ACCEPT_PAUSE_CONTINUE else 0);
          c2 = (if \<not> has_flag fl CannotBeStopped then c1 OR SERVICE_ACCEPT_STOP else c1)
      in if has_flag fl NeedsStopOnShutdown then c2 OR SERVICE_ACCEPT_SHUTDOWN else c2)"

definition reported :: "'a win \<Rightarrow> 'a win" where
  "reported w = w\<lparr>reports := reports w @ [(current w, accepted w)]\<rparr>"

text \<open>
  Two threads change and report the status: the one that runs \<open>handler\<close> and the main one. The
  steps each of them takes one at a time: the store into \<open>dwCurrentState\<close>, the call of
  \<open>SetServiceStatus\<close> with the structure as it is then, and the test and the report at the end of
  \<open>handler\<close>; the flag is the result of the last test.
\<close>

datatype status_act = Store nat | Tell | Test | Tell_If

fun take_act :: "status_act \<Rightarrow> 'a win \<times> bool \<Rightarrow> 'a win \<times> bool" where
  "take_act (Store st) (w, ok) = (w\<lparr>current := st\<rparr>, ok)"
| "take_act Tell (w, ok) = (reported w, ok)"
| "take_act Test (w, ok) = (w, current w \<noteq> SERVICE_STOPPED)"
| "take_act Tell_If (w, ok) = (if ok then reported w else w, ok)"

definition performs :: "status_act list \<Rightarrow> 'a win \<Rightarrow> 'a win" where
  "performs acts w = fst (fold take_act acts (w, False))"

definition setStatus :: "scm_env \<Rightarrow> nat \<Rightarrow> status_act list" where
  "setStatus env st = (if \<not> winServiceInit env then [] else [Store st, Tell])"

definition win_setServiceFlags :: "scm_env \<Rightarrow> flags \<Rightarrow> 'a win \<Rightarrow> 'a win" where
  "win_setServiceFlags env fl w =
     (if \<not> winServiceInit env then w else reported (w\<lparr>accepted := accepted_controls fl\<rparr>))"

definition win_base_setServiceFlags :: "scm_env \<Rightarrow> flags \<Rightarrow> service_base \<Rightarrow> 'a win \<Rightarrow> service_base \<times> 'a win" where
  \<comment> \<open>\<open>QtServiceBase::setServiceFlags\<close>, once \<open>sysInit\<close> has run\<close>
  "win_base_setServiceFlags env fl b w =
     (if serviceFlags b = fl then (b, w) else (b\<lparr>serviceFlags := fl\<rparr>, win_setServiceFlags env fl w))"

definition win_sysInit :: "service_base \<Rightarrow> 'a win \<Rightarrow> 'a win" where
  "win_sysInit b w = w\<lparr>current := SERVICE_STOPPED, accepted := accepted_controls (serviceFlags b), exit_code := 0\<rparr>"

fun log_events :: "scm_env \<Rightarrow> service_base \<Rightarrow> (string \<times> message_type) list \<Rightarrow> 'a win \<Rightarrow> 'a win" where
  "log_events env b [] w = w"
| "log_events env b ((message, ty) # ms) w =
     log_events env b ms (w\<lparr>calls := win_logMessage env b message ty 0 0 [] (calls w)\<rparr>)"

definition callback :: "scm_env \<Rightarrow> service_base \<Rightarrow> ('a \<Rightarrow> 'a fate) \<Rightarrow> 'a win \<Rightarrow> 'a win option" where
  "callback env b f w =
     (case wapp w of
        None \<Rightarrow> None
      | Some a \<Rightarrow>
          (case f a of
             Dies \<Rightarrow> None
           | Lives a' q ms \<Rightarrow> Some ((log_events env b ms w)\<lparr>wapp := Some a', wquit := wquit w \<or> q\<rparr>)))"

definition handleCustomEvent :: "scm_env \<Rightarrow> service_base \<Rightarrow> ('a, 'e) service \<Rightarrow> int \<Rightarrow> 'a win \<Rightarrow> 'a win option" where
  "handleCustomEvent env b svc code w =
     (if code = QTSERVICE_STARTUP then callback env b (on_start svc) w
      else if code = SERVICE_CONTROL_STOP
      then map_option (\<lambda>w1. w1\<lparr>wquit := True\<rparr>) (callback env b (on_stop svc) w)
      else if code = SERVICE_CONTROL_PAUSE then callback env b (on_pause svc) w
      else if code = SERVICE_CONTROL_CONTINUE then callback env b (on_resume svc) w
      else if 128 \<le> code \<and> code \<le> 255 then callback env b (on_command svc (code - 128)) w
      else Some w)"

text \<open>
  What \<open>handler\<close> does for a control: the steps before it posts an event and waits, that event, and
  the steps after the wait. At its end it reports the current status, unless that is stopped.
\<close>

definition control :: "scm_env \<Rightarrow> int \<Rightarrow> status_act list \<times> int option \<times> status_act list" where
  "control env code =
     (if code = QTSERVICE_STARTUP then
        (setStatus env SERVICE_START_PENDING, Some code, setStatus env SERVICE_RUNNING)
      else if code = SERVICE_CONTROL_STOP then (setStatus env SERVICE_STOP_PENDING, Some code, [])
      else if code = SERVICE_CONTROL_PAUSE then
        (setStatus env SERVICE_PAUSE_PENDING, Some code, setStatus env SERVICE_PAUSED)
      else if code = SERVICE_CONTROL_CONTINUE then
        (setStatus env SERVICE_CONTINUE_PENDING, Some code, setStatus env SERVICE_RUNNING)
      else if code = SERVICE_CONTROL_INTERROGATE then ([], None, [])
      else if code = SERVICE_CONTROL_SHUTDOWN then ([], Some SERVICE_CONTROL_STOP, [])
      else if 128 \<le> code \<and> code \<le> 255 then ([], Some code, [])
      else ([], None, []))"

definition last_report :: "scm_env \<Rightarrow> status_act list" where
  "last_report env = (if winServiceInit env then [Test, Tell_If] else [])"

text \<open>
  The handler up to the moment it goes on after its wait, with the steps it has left; None: the
  callback has brought the process down.
\<close>

definition win_handler ::
  "scm_env \<Rightarrow> service_base \<Rightarrow> ('a, 'e) service \<Rightarrow> int \<Rightarrow> 'a win \<Rightarrow> 'a win \<times> status_act list option" where
  "win_handler env b svc code w =
     (let (before, event, after) = control env code;
          w1 = performs before w
      in case event of
           None \<Rightarrow> (w1, Some (after @ last_report env))
         | Some e \<Rightarrow>
             (case handleCustomEvent env b svc e w1 of
                None \<Rightarrow> (w1, None)
              | Some w2 \<Rightarrow> (w2, Some (after @ last_report env))))"

text \<open>
  The steps of the handler for controls that arrive when the loop of the main thread has ended:
  an event that is posted now is never handled, so the wait for it has no end.
\<close>

fun late_steps :: "scm_env \<Rightarrow> int list \<Rightarrow> status_act list" where
  "late_steps env [] = []"
| "late_steps env (c # cs) =
     (let (before, event, after) = control env c
      in before @ (if event = None then after @ last_report env @ late_steps env cs else []))"

text \<open>
  The steps of the two threads in the order of a schedule (true: the handler's thread takes its
  next step). The main thread always comes to its end, and the process with it; the steps the
  handler has not taken by then are lost.
\<close>

fun interleave :: "bool list \<Rightarrow> 'b list \<Rightarrow> 'b list \<Rightarrow> 'b list" where
  "interleave (True # s) (h # hs) ms = h # interleave s hs ms"
| "interleave (False # s) hs (m # ms) = m # interleave s hs ms"
| "interleave (_ # s) hs ms = interleave s hs ms"
| "interleave [] hs ms = ms"

text \<open>What becomes of \<open>StartServiceCtrlDispatcher\<close>: it calls \<open>serviceMain\<close>, or it returns an error,
  perhaps the one that means the program was started from a console, or nothing comes of it.\<close>

datatype dispatcher = Dispatched "string list" | Refused bool | Silent

definition failed_text :: "scm_env \<Rightarrow> string" where
  "failed_text env = ''The Service failed to start ['' @ last_error env @ '']''"

text \<open>
  The main loop of the service: \<open>start\<close>, then the controls in the order they come. While the loop
  runs, the main thread reports nothing, so the handler ends before the next control is handled
  (the start-up runs the handler on the thread of \<open>serviceMain\<close>; the first control is taken to come
  when that has returned).
  When a callback has ended the loop, the main thread leaves \<open>exec\<close> and reports that the service
  has stopped, at the same time as the handler takes the steps it has left and serves the
  controls that still come (the manager sends none to a service that has a stop pending). The
  first result: the main loop has ended.
\<close>

fun serve_controls :: "scm_env \<Rightarrow> service_base \<Rightarrow> ('a, 'e) service \<Rightarrow> int list \<Rightarrow> 'a win \<Rightarrow> bool \<times> 'a win" where
  "serve_controls env b svc [] w = (False, w)"
| "serve_controls env b svc (c # cs) w =
     (case win_handler env b svc c w of
        (w1, None) \<Rightarrow> (False, w1)
      | (w1, Some rest) \<Rightarrow>
          if wquit w1
          then (let late = (if c = SERVICE_CONTROL_STOP then [] else late_steps env cs)
                in (True, performs (interleave (schedule env) (rest @ late) (setStatus env SERVICE_STOPPED))
                            (w1\<lparr>exit_code := 0\<rparr>)))
          else serve_controls env b svc cs (performs rest w1))"

definition service_main :: "scm_env \<Rightarrow> service_base \<Rightarrow> ('a, 'e) service \<Rightarrow> string list \<Rightarrow> int list \<Rightarrow> 'a win \<Rightarrow> bool option \<times> 'a win" where
  "service_main env b svc sargs cs w =
     (let w1 = w\<lparr>serviceArgs := serviceArgs w @ sargs, wapp := Some (fresh svc)\<rparr>
      in if \<not> registers env then (None, w1)
         else
           (let (ended, w2) = serve_controls env b svc (QTSERVICE_STARTUP # cs) w1
            in if ended then (Some True, w2\<lparr>wapp := None\<rparr>) else (None, w2)))"

definition win_base_start ::
  "scm_env \<Rightarrow> ('a, 'e) service \<Rightarrow> dispatcher \<Rightarrow> int list \<Rightarrow> service_base \<Rightarrow> 'a win \<Rightarrow> bool option \<times> 'a win" where
  "win_base_start env svc outcome cs b w =
     (let w1 = win_sysInit b w
      in if \<not> winServiceInit env then (Some False, w1)
         else
           (case outcome of
              Silent \<Rightarrow> (Some False, w1)
            | Refused console \<Rightarrow>
                (if console
                 then (let (ok, tr) = win_controller_start env (service_name b) (drop 1 (args b)) (calls w1)
                       in (Some ok, w1\<lparr>calls := tr\<rparr>))
                 else (Some False, log_events env b [(failed_text env, Error)] w1))
            | Dispatched sargs \<Rightarrow> service_main env b svc sargs cs w1))"

definition on_calls :: "(scm_call list \<Rightarrow> 'r \<times> scm_call list) \<Rightarrow> 'a win \<Rightarrow> 'r \<times> 'a win" where
  "on_calls f w = (let (r, tr) = f (calls w) in (r, w\<lparr>calls := tr\<rparr>))"

definition win_execute :: "scm_env \<Rightarrow> ('a, 'e) service \<Rightarrow> bool \<Rightarrow> 'a win \<Rightarrow> int option \<times> 'a win" where
  "win_execute env svc ends w =
     (case callback env (owner w) (on_start svc) w of
        None \<Rightarrow> (None, w)
      | Some w1 \<Rightarrow> (if wquit w1 \<or> ends then Some 0 else None, w1))"

definition win_platform :: "scm_env \<Rightarrow> ('a, 'e) service \<Rightarrow> dispatcher \<Rightarrow> int list \<Rightarrow> bool \<Rightarrow> 'a win service_ops" where
  \<comment> \<open>the flag says whether the loop of an application run with -e has an end\<close>
  "win_platform env svc outcome cs ends =
     \<lparr>p_isInstalled = (\<lambda>n. on_calls (win_isInstalled env n)), p_isRunning = (\<lambda>n. on_calls (win_isRunning env n)),
      p_install = (\<lambda>b account password. on_calls (win_install env b account password)),
      p_uninstall = (\<lambda>n. on_calls (win_uninstall env n)), p_stop = (\<lambda>n. on_calls (win_stop env n)),
      p_pause = (\<lambda>n. on_calls (win_pause env n)), p_resume = (\<lambda>n. on_calls (win_resume env n)),
      p_sendCommand = (\<lambda>n c. on_calls (win_sendCommand env n c)), p_start = win_base_start env svc outcome cs,
      p_detached = (\<lambda>w. False), p_filePath = (\<lambda>b w. win_filePath env), p_sysInit = (\<lambda>b w. (True, win_sysInit b w)),
      p_createApplication = (\<lambda>b argv w. (True, w\<lparr>owner := b, wapp := Some (fresh svc)\<rparr>)), p_sysSetPath = (\<lambda>b w. w),
      p_postStart = (\<lambda>w. w),
      p_executeApplication = win_execute env svc ends,
      p_deleteApplication = (\<lambda>w. w\<lparr>wapp := None\<rparr>), p_sysCleanup = (\<lambda>w. w)\<rparr>"

definition nativeEventFilter :: "nat \<Rightarrow> 64 word \<Rightarrow> bool option" where
  \<comment> \<open>the result of the message, when the filter takes it: WM_ENDSESSION with ENDSESSION_LOGOFF\<close>
  "nativeEventFilter message lParam =
     (if message = 22 \<and> lParam AND 2147483648 \<noteq> 0 then Some True else None)"


section \<open>Every handle is closed\<close>

fun needs :: "scm_call \<Rightarrow> nat option" where
  \<comment> \<open>the handle a call works on\<close>
  "needs (OpenService h n acc) = Some h"
| "needs (CreateService h n ty st path act pwd) = Some h"
| "needs (CloseServiceHandle h) = Some h"
| "needs (QueryServiceStatus h) = Some h"
| "needs (QueryServiceConfig h) = Some h"
| "needs (QueryDescription h) = Some h"
| "needs (ChangeDescription h text) = Some h"
| "needs (DeleteService h) = Some h"
| "needs (StartService h argv) = Some h"
| "needs (ControlService h code) = Some h"
| "needs (ReportEvent h ty cat i msg bin) = Some h"
| "needs (DeregisterEventSource h) = Some h"
| "needs _ = None"

fun opens :: "scm_call \<Rightarrow> bool" where
  "opens (OpenSCManager acc) = True"
| "opens (OpenService h n acc) = True"
| "opens (CreateService h n ty st path act pwd) = True"
| "opens (RegisterEventSource n) = True"
| "opens _ = False"

fun frees :: "scm_call \<Rightarrow> nat option" where
  "frees (CloseServiceHandle h) = Some h"
| "frees (DeregisterEventSource h) = Some h"
| "frees _ = None"

text \<open>The handles a process holds after its calls, and whether every call worked on a handle that
  was held at that moment.\<close>

fun held :: "scm_env \<Rightarrow> scm_call list \<Rightarrow> nat multiset" where
  "held env [] = {#}"
| "held env (c # tr) =
     (if opens c then (let h = handle_for env tr c in if h \<noteq> 0 then add_mset h (held env tr) else held env tr)
      else (case frees c of None \<Rightarrow> held env tr | Some h \<Rightarrow> held env tr - {#h#}))"

fun valid :: "scm_env \<Rightarrow> scm_call list \<Rightarrow> bool" where
  "valid env [] = True"
| "valid env (c # tr) = (valid env tr \<and> (case needs c of None \<Rightarrow> True | Some h \<Rightarrow> h \<in># held env tr))"

text \<open>\<open>tidy\<close>: an operation that keeps to the rules and leaves the handles as it found them;
  \<open>polite\<close>: the same for what is done with one open handle.\<close>

definition tidy :: "scm_env \<Rightarrow> (scm_call list \<Rightarrow> 'r \<times> scm_call list) \<Rightarrow> bool" where
  "tidy env f = (\<forall>tr. valid env tr \<longrightarrow> valid env (snd (f tr)) \<and> held env (snd (f tr)) = held env tr)"

definition polite :: "scm_env \<Rightarrow> (nat \<Rightarrow> scm_call list \<Rightarrow> 'r \<times> scm_call list) \<Rightarrow> bool" where
  "polite env body = (\<forall>h tr. valid env tr \<longrightarrow> h \<in># held env tr \<longrightarrow>
     valid env (snd (body h tr)) \<and> held env (snd (body h tr)) = held env tr)"

lemma politeD: "polite env body \<Longrightarrow> valid env tr \<Longrightarrow> h \<in># held env tr \<Longrightarrow>
    valid env (snd (body h tr)) \<and> held env (snd (body h tr)) = held env tr"
  by (simp add: polite_def)

lemma tidyD: "tidy env f \<Longrightarrow> valid env tr \<Longrightarrow> valid env (snd (f tr)) \<and> held env (snd (f tr)) = held env tr"
  by (simp add: tidy_def)

lemma tidy_with_service:
  assumes "polite env body" shows "tidy env (with_service env ma sa n r body)"
  unfolding tidy_def
proof (intro allI impI)
  fix tr assume ok: "valid env tr"
  define hM where "hM = handle_for env tr (OpenSCManager ma)"
  define t1 where "t1 = OpenSCManager ma # tr"
  define hS where "hS = handle_for env t1 (OpenService hM n sa)"
  define t2 where "t2 = OpenService hM n sa # t1"
  let ?ok = "\<lambda>x. valid env (snd x) \<and> held env (snd x) = held env tr"
  have unf: "with_service env ma sa n r body tr =
    (if \<not> winServiceInit env then (r, tr) else if hM = 0 then (r, t1)
     else if hS = 0 then (r, CloseServiceHandle hM # t2)
     else (fst (body hS t2), CloseServiceHandle hM # CloseServiceHandle hS # snd (body hS t2)))"
    by (simp add: with_service_def opened_def hM_def hS_def t1_def t2_def Let_def split_def)
  have h1: "held env t1 = (if hM = 0 then held env tr else add_mset hM (held env tr))" "valid env t1"
    using ok by (simp_all add: t1_def hM_def Let_def)
  have h2: "hM \<noteq> 0 \<Longrightarrow> held env t2 = (if hS = 0 then held env t1 else add_mset hS (held env t1))"
    "hM \<noteq> 0 \<Longrightarrow> valid env t2"
    using h1 by (simp_all add: t2_def hS_def Let_def)
  have h3: "hM \<noteq> 0 \<Longrightarrow> hS \<noteq> 0 \<Longrightarrow> valid env (snd (body hS t2)) \<and> held env (snd (body hS t2)) = held env t2"
    using politeD [OF assms h2(2), of hS] h2(1) by simp
  show "?ok (with_service env ma sa n r body tr)"
    unfolding unf using ok h1 h2 h3 by simp
qed

lemma polite_call: "needs c = Some h \<Longrightarrow> \<not> opens c \<Longrightarrow> frees c = None \<Longrightarrow> valid env tr \<Longrightarrow> h \<in># held env tr \<Longrightarrow>
    valid env (c # tr) \<and> held env (c # tr) = held env tr"
  by simp

lemma polite_query: "polite env (query_status env)"
  by (simp add: polite_def query_status_def tried_def Let_def)

lemma polite_stop_loop:
  "valid env tr \<Longrightarrow> h \<in># held env tr \<Longrightarrow>
   valid env (snd (stop_loop env h s i tr)) \<and> held env (snd (stop_loop env h s i tr)) = held env tr"
proof (induction env h s i tr rule: stop_loop.induct)
  case (1 env h s i tr)
  show ?case
  proof (cases "fst (query_status env h (Sleep 200 # tr))")
    case None
    then show ?thesis using 1(2,3)
      by (simp add: stop_loop.simps [of env h s i tr] Let_def split_def query_status_def tried_def split: if_splits)
  next
    case (Some st)
    let ?t = "snd (query_status env h (Sleep 200 # tr))"
    have t: "valid env ?t" "held env ?t = held env tr"
      using 1(2,3) by (simp_all add: query_status_def tried_def Let_def)
    have "\<not> s \<and> i < 10 \<Longrightarrow> valid env (snd (stop_loop env h (st = SERVICE_STOPPED) (Suc i) ?t)) \<and>
        held env (snd (stop_loop env h (st = SERVICE_STOPPED) (Suc i) ?t)) = held env tr"
      using 1(1) [of "Sleep 200 # tr" "(Some st, ?t)" "Some st" ?t st] Some t 1(3)
      by (metis prod.collapse)
    then show ?thesis using Some 1(2,3)
      by (simp add: stop_loop.simps [of env h s i tr] Let_def split_def)
  qed
qed

lemma tidy_controller:
  "tidy env (win_isInstalled env n)" "tidy env (win_isRunning env n)" "tidy env (win_uninstall env n)"
  "tidy env (win_stop env n)" "tidy env (win_pause env n)" "tidy env (win_resume env n)"
  "tidy env (win_controller_start env n argv)"
  unfolding win_isInstalled_def win_isRunning_def win_uninstall_def win_stop_def win_pause_def win_resume_def
    win_controller_start_def
  by (rule tidy_with_service,
      simp add: polite_def query_status_def tried_def Let_def polite_stop_loop)+

lemma tidy_sendCommand: "tidy env (win_sendCommand env n code)"
proof -
  have "tidy env (with_service env SC_MANAGER_CONNECT SERVICE_USER_DEFINED_CONTROL n False
      (\<lambda>h. tried env (ControlService h (128 + code))))"
    by (rule tidy_with_service) (simp add: polite_def tried_def)
  then show ?thesis
    using tidy_controller(2) [of env n] by (simp add: tidy_def win_sendCommand_def Let_def split_def)
qed

lemma tidy_install: "tidy env (win_install env b account password)"
  by (simp add: tidy_def win_install_def opened_def Let_def)

lemma tidy_log: "valid env tr \<Longrightarrow>
    valid env (win_logMessage env b m ty i cat bin tr) \<and> held env (win_logMessage env b m ty i cat bin tr) = held env tr"
  by (simp add: win_logMessage_def opened_def Let_def)

text \<open>The state of the service's side: the invariant of a process that holds the handles \<open>H\<close>.\<close>

definition handles :: "scm_env \<Rightarrow> nat multiset \<Rightarrow> 'a win \<Rightarrow> bool" where
  "handles env H w = (valid env (calls w) \<and> held env (calls w) = H)"

lemma handles_log: "handles env H w \<Longrightarrow> handles env H (log_events env b ms w)"
  by (induction env b ms w rule: log_events.induct) (simp_all add: handles_def tidy_log)

lemma handles_update [simp]:
  "handles env H (w\<lparr>current := st\<rparr>) = handles env H w" "handles env H (w\<lparr>accepted := fl\<rparr>) = handles env H w"
  "handles env H (w\<lparr>exit_code := k\<rparr>) = handles env H w" "handles env H (w\<lparr>wapp := a\<rparr>) = handles env H w"
  "handles env H (w\<lparr>wquit := q\<rparr>) = handles env H w" "handles env H (w\<lparr>owner := b\<rparr>) = handles env H w"
  "handles env H (w\<lparr>serviceArgs := argv\<rparr>) = handles env H w" "handles env H (reported w) = handles env H w"
  "handles env H (win_sysInit b w) = handles env H w"
  by (simp_all add: handles_def reported_def win_sysInit_def)

lemma handles_callback: "callback env b f w = Some w' \<Longrightarrow> handles env H w \<Longrightarrow> handles env H w'"
  by (auto simp: callback_def handles_log split: option.splits fate.splits)

lemma handles_event: "handleCustomEvent env b svc code w = Some w' \<Longrightarrow> handles env H w \<Longrightarrow> handles env H w'"
  by (auto simp: handleCustomEvent_def dest: handles_callback split: if_splits)

lemma handles_performs [simp]: "handles env H (performs acts w) = handles env H w"
proof -
  have "handles env H (fst (fold take_act acts (w, ok))) = handles env H w" for ok
  proof (induction acts arbitrary: w ok)
    case (Cons a acts)
    then show ?case by (cases a) simp_all
  qed simp
  then show ?thesis by (simp add: performs_def)
qed

lemma handles_handler: "win_handler env b svc code w = (w1, rest) \<Longrightarrow> handles env H w \<Longrightarrow> handles env H w1"
  by (auto simp: win_handler_def Let_def split_def dest!: handles_event split: option.splits)

lemma handles_serve: "handles env H w \<Longrightarrow> handles env H (snd (serve_controls env b svc cs w))"
proof (induction cs arbitrary: w)
  case (Cons c cs)
  obtain w1 rest where h: "win_handler env b svc c w = (w1, rest)" by fastforce
  then have "handles env H w1" using handles_handler Cons.prems by blast
  then show ?case using h Cons.IH by (cases rest) (simp_all add: Let_def)
qed simp

lemma handles_main: "handles env H w \<Longrightarrow> handles env H (snd (service_main env b svc sargs cs w))"
  by (simp add: service_main_def Let_def split_def handles_serve del: serve_controls.simps)

lemma handles_on_calls: "tidy env f \<Longrightarrow> handles env H w \<Longrightarrow> handles env H (snd (on_calls f w))"
  using tidyD [of env f "calls w"] by (simp add: on_calls_def handles_def split_def Let_def)

lemma handles_start: "handles env H w \<Longrightarrow> handles env H (snd (win_base_start env svc outcome cs b w))"
proof -
  assume w: "handles env H w"
  then have "handles env H (snd (on_calls (win_controller_start env (service_name b) (drop 1 (args b))) (win_sysInit b w)))"
    by (intro handles_on_calls tidy_controller) simp
  then show ?thesis
    using w by (auto simp: win_base_start_def on_calls_def Let_def split_def handles_log handles_main simp del: log_events.simps
      split: dispatcher.splits)
qed

lemma handles_execute: "handles env H w \<Longrightarrow> handles env H (snd (win_execute env svc ends w))"
  by (auto simp: win_execute_def dest: handles_callback split: option.splits)

interpretation scm: service_invariant "win_platform env svc outcome cs ends" "handles env H" for env svc outcome cs ends H
  by unfold_locales
     (simp_all add: win_platform_def handles_on_calls tidy_controller tidy_sendCommand tidy_install handles_start handles_execute)

text \<open>C17: The handles of the service control manager. Whatever the program is run for, and whatever the
  manager answers to any call, every call is made on a handle that is open at that moment and not
  null, and at the end exactly the handles held before are held: none is leaked, none is closed
  twice or used after it was closed, on every early return.\<close>

theorem handles_closed:
  assumes "exec_service (win_platform env svc outcome cs ends) b w = (code, out, w')" "valid env (calls w)"
  shows "valid env (calls w') \<and> held env (calls w') = held env (calls w)"
  using scm.exec_inv [where env = env and H = "held env (calls w)" and w = w and svc = svc and outcome = outcome and cs = cs
      and ends = ends and b = b] assms
  by (simp add: handles_def)

text \<open>An environment in which everything goes well: handles are numbered, and the service is running
  until it has been told to stop.\<close>

definition fine_scm :: scm_env where
  "fine_scm = \<lparr>resolves = True, handle_for = (\<lambda>tr c. Suc (length tr)), succeeds = (\<lambda>tr c. True),
     current_state = (\<lambda>tr c. if \<exists>d \<in> set tr. (case d of Sleep ms \<Rightarrow> True | _ \<Rightarrow> False) then 1 else 4),
     binary_path = (\<lambda>tr. ''nic.exe''), start_type = (\<lambda>tr. 2), description = (\<lambda>tr. None),
     module_path = ''nic.exe'', registers = True, last_error = [], schedule = []\<rparr>"

definition idle_service :: "(nat, nat) service" where
  "idle_service = \<lparr>on_start = does_nothing, on_stop = does_nothing, on_pause = does_nothing, on_resume = does_nothing,
     on_command = (\<lambda>k a. Lives (a + nat k) False []), on_event = (\<lambda>e. does_nothing), fresh = 0\<rparr>"

definition idle_base :: service_base where
  "idle_base = (new_base [''nic.exe'', ''-u''] ''nic'')\<lparr>serviceFlags := CanBeSuspended\<rparr>"

definition idle_win :: "nat win" where
  "idle_win = \<lparr>owner = idle_base, calls = [], current = SERVICE_STOPPED, accepted = 0, exit_code = 0, serviceArgs = [],
     wapp = None, wquit = False, reports = []\<rparr>"

lemma handles_closed_witness:
  "\<exists>code out w'. exec_service (win_platform fine_scm idle_service Silent [] True) idle_base idle_win = (code, out, w') \<and>
     length (calls w') = 9 \<and> valid fine_scm (calls w') \<and> held fine_scm (calls w') = {#}"
proof -
  obtain code out w' where e: "exec_service (win_platform fine_scm idle_service Silent [] True) idle_base idle_win = (code, out, w')"
    using prod_cases3 by blast
  moreover have "length (calls w') = 9"
    using e by (auto simp: exec_performs idle_base_def new_base_def documented_arguments_def exec_uninstall_def win_platform_def
      on_calls_def win_isInstalled_def win_uninstall_def with_service_def winServiceInit_def opened_def tried_def Let_def
      fine_scm_def idle_win_def)
  ultimately show ?thesis
    using handles_closed [OF e] by (simp add: idle_win_def)
qed

section \<open>The wait for the service to stop\<close>

fun is_sleep :: "scm_call \<Rightarrow> bool" where
  "is_sleep (Sleep ms) = True"
| "is_sleep _ = False"

fun asks_status :: "scm_call \<Rightarrow> bool" where
  "asks_status (QueryServiceStatus h) = True"
| "asks_status (ControlService h c) = True"
| "asks_status _ = False"

text \<open>\<open>said_stopped env old tr\<close>: in the calls added to \<open>old\<close> the manager has said that the service
  has stopped.\<close>

definition said_stopped :: "scm_env \<Rightarrow> scm_call list \<Rightarrow> scm_call list \<Rightarrow> bool" where
  "said_stopped env old tr =
     (\<exists>later c before. tr = later @ c # before @ old \<and> asks_status c \<and> succeeds env (before @ old) c \<and>
        current_state env (before @ old) c = SERVICE_STOPPED)"

lemma said_stopped_more [simp]: "said_stopped env old tr \<Longrightarrow> said_stopped env old (c # tr)"
  unfolding said_stopped_def by (metis append_Cons)

lemma stop_loop_bounded:
  assumes "stop_loop env h s i (mid @ old) = (r, tr')" "i \<le> 10" "s \<Longrightarrow> said_stopped env old (mid @ old)"
  shows "\<exists>new. tr' = new @ mid @ old \<and> length (filter is_sleep new) \<le> 10 - i \<and> (r \<longrightarrow> said_stopped env old tr')"
  using assms
proof (induction "10 - i" arbitrary: i s mid)
  case 0
  then show ?case by (simp add: stop_loop.simps [of env h s 10])
next
  case (Suc k)
  have lt: "i < 10" using Suc.hyps(2) by simp
  let ?c = "QueryServiceStatus h"
  let ?t = "Sleep 200 # mid @ old"
  consider "s" | "\<not> s" "\<not> succeeds env ?t ?c" | "\<not> s" "succeeds env ?t ?c" by blast
  then show ?case
  proof cases
    case 3
    let ?s = "current_state env ?t ?c = SERVICE_STOPPED"
    have "stop_loop env h ?s (Suc i) ((?c # Sleep 200 # mid) @ old) = (r, tr')"
      using Suc.prems(1) Suc.hyps(2) 3
      by (simp add: stop_loop.simps [of env h False i] lt query_status_def tried_def Let_def)
    moreover have "said_stopped env old ((?c # Sleep 200 # mid) @ old)" if ?s
      unfolding said_stopped_def using that 3(2)
      by (intro exI [of _ "[]"] exI [of _ ?c] exI [of _ "Sleep 200 # mid"]) simp
    ultimately obtain new where "tr' = new @ (?c # Sleep 200 # mid) @ old" "length (filter is_sleep new) \<le> 10 - Suc i"
        "r \<longrightarrow> said_stopped env old tr'"
      using Suc.hyps(1) [of "Suc i" ?s "?c # Sleep 200 # mid"] Suc.hyps(2) by fastforce
    then show ?thesis
      using Suc.hyps(2) by (intro exI [of _ "new @ [?c, Sleep 200]"]) simp
  next
    case 2
    then show ?thesis using Suc.prems(1) Suc.hyps(2)
      by (intro exI [of _ "[?c, Sleep 200]"])
         (auto simp: stop_loop.simps [of env h False i] lt query_status_def tried_def Let_def)
  qed (use Suc.prems in \<open>auto simp: stop_loop.simps [of env h True i]\<close>)
qed

text \<open>C38: Stopping a Windows service. The controller asks the manager once and then looks at most ten
  times, a fifth of a second apart, whatever it is told; it returns true only when the manager has
  said, in an answer to one of these calls, that the service has stopped.\<close>

theorem stop_bounded:
  assumes "win_stop env n tr = (r, tr')"
  shows "\<exists>new. tr' = new @ tr \<and> length (filter is_sleep new) \<le> 10 \<and> (r \<longrightarrow> said_stopped env tr tr')"
proof -
  define hM where "hM = handle_for env tr (OpenSCManager SC_MANAGER_CONNECT)"
  define o1 where "o1 = OpenSCManager SC_MANAGER_CONNECT"
  define o2 where "o2 = OpenService hM n (SERVICE_STOP_ACCESS + SERVICE_QUERY_STATUS)"
  define hS where "hS = handle_for env (o1 # tr) o2"
  define c where "c = ControlService hS SERVICE_CONTROL_STOP"
  let ?t = "o2 # o1 # tr"
  have unf: "win_stop env n tr =
    (if \<not> winServiceInit env then (False, tr) else if hM = 0 then (False, o1 # tr)
     else if hS = 0 then (False, CloseServiceHandle hM # ?t)
     else if \<not> succeeds env ?t c then (False, CloseServiceHandle hM # CloseServiceHandle hS # c # ?t)
     else (let (r, t3) = stop_loop env hS (current_state env ?t c = SERVICE_STOPPED) 0 ([c, o2, o1] @ tr)
           in (r, CloseServiceHandle hM # CloseServiceHandle hS # t3)))"
    by (simp add: win_stop_def with_service_def opened_def tried_def hM_def hS_def o1_def o2_def c_def Let_def)
  have quiet: "\<not> is_sleep o1" "\<not> is_sleep o2" "\<not> is_sleep c" "asks_status c"
    by (simp_all add: o1_def o2_def c_def)
  show ?thesis
  proof (cases "winServiceInit env \<and> hM \<noteq> 0 \<and> hS \<noteq> 0 \<and> succeeds env ?t c")
    case True
    obtain r3 t3 where l: "stop_loop env hS (current_state env ?t c = SERVICE_STOPPED) 0 ([c, o2, o1] @ tr) = (r3, t3)"
      by fastforce
    have "said_stopped env tr ([c, o2, o1] @ tr)" if "current_state env ?t c = SERVICE_STOPPED"
      unfolding said_stopped_def using that True quiet by (intro exI [of _ "[]"] exI [of _ c] exI [of _ "[o2, o1]"]) simp
    from stop_loop_bounded [OF l _ this]
    obtain new where n: "t3 = new @ [c, o2, o1] @ tr" "length (filter is_sleep new) \<le> 10" "r3 \<longrightarrow> said_stopped env tr t3"
      by auto
    have "r = r3" "tr' = CloseServiceHandle hM # CloseServiceHandle hS # t3"
      using assms True l by (simp_all add: unf)
    then show ?thesis
      using n quiet by (intro exI [of _ "CloseServiceHandle hM # CloseServiceHandle hS # new @ [c, o2, o1]"]) simp
  next
    case False
    then have "\<not> r \<and> tr' \<in> {tr, o1 # tr, CloseServiceHandle hM # ?t, CloseServiceHandle hM # CloseServiceHandle hS # c # ?t}"
      using assms by (auto simp: unf split: if_splits)
    then show ?thesis
      using quiet by (elim conjE insertE)
        (auto intro: exI [of _ "[]"] exI [of _ "[o1]"] exI [of _ "[CloseServiceHandle hM, o2, o1]"]
          exI [of _ "[CloseServiceHandle hM, CloseServiceHandle hS, c, o2, o1]"])
  qed
qed

lemma stop_bounded_witness:
  "fst (win_stop fine_scm ''nic'' []) \<and> said_stopped fine_scm [] (snd (win_stop fine_scm ''nic'' []))"
proof -
  have r: "fst (win_stop fine_scm ''nic'' [])"
    by (simp add: win_stop_def with_service_def winServiceInit_def opened_def tried_def Let_def fine_scm_def stop_loop.simps
      query_status_def service_states)
  show ?thesis
    using stop_bounded [of fine_scm "''nic''" "[]", OF prod.collapse [symmetric]] r by auto
qed

section \<open>The statuses the manager hears of\<close>

text \<open>The answers of the handler to one control, the last of them the state the service is left in.\<close>

definition answers :: "int \<Rightarrow> nat \<Rightarrow> nat list" where
  "answers code st =
     (if code = QTSERVICE_STARTUP then [SERVICE_START_PENDING, SERVICE_RUNNING, SERVICE_RUNNING]
      else if code = SERVICE_CONTROL_STOP then [SERVICE_STOP_PENDING, SERVICE_STOP_PENDING]
      else if code = SERVICE_CONTROL_PAUSE then [SERVICE_PAUSE_PENDING, SERVICE_PAUSED, SERVICE_PAUSED]
      else if code = SERVICE_CONTROL_CONTINUE then [SERVICE_CONTINUE_PENDING, SERVICE_RUNNING, SERVICE_RUNNING]
      else if st \<noteq> SERVICE_STOPPED then [st] else [])"

definition heard :: "'a win \<Rightarrow> nat list \<Rightarrow> 'a win \<Rightarrow> bool" where
  "heard w sts w' = (reports w' = reports w @ map (\<lambda>st. (st, accepted w)) sts \<and> accepted w' = accepted w)"

lemma heard_trans: "heard w s1 w1 \<Longrightarrow> heard w1 s2 w2 \<Longrightarrow> heard w (s1 @ s2) w2"
  by (simp add: heard_def)

lemma log_events_quiet [simp]:
  "reports (log_events env b ms w) = reports w" "current (log_events env b ms w) = current w"
  "accepted (log_events env b ms w) = accepted w"
  by (induction env b ms w rule: log_events.induct) simp_all

lemma callback_quiet: "callback env b f w = Some w' \<Longrightarrow>
    reports w' = reports w \<and> current w' = current w \<and> accepted w' = accepted w \<and> (wquit w \<longrightarrow> wquit w')"
  by (auto simp: callback_def split: option.splits fate.splits)

lemma event_quiet: "handleCustomEvent env b svc code w = Some w' \<Longrightarrow>
    reports w' = reports w \<and> current w' = current w \<and> accepted w' = accepted w \<and>
    (code = SERVICE_CONTROL_STOP \<longrightarrow> wquit w')"
  by (auto simp: handleCustomEvent_def control_codes dest!: callback_quiet split: if_splits)

text \<open>A run of steps seen from outside: what it tells the manager, and the status it leaves.\<close>

fun told :: "status_act list \<Rightarrow> nat \<Rightarrow> bool \<Rightarrow> nat list" where
  "told [] st ok = []"
| "told (Store st' # acts) st ok = told acts st' ok"
| "told (Tell # acts) st ok = st # told acts st ok"
| "told (Test # acts) st ok = told acts st (st \<noteq> SERVICE_STOPPED)"
| "told (Tell_If # acts) st ok = (if ok then st # told acts st ok else told acts st ok)"

fun left_in :: "status_act list \<Rightarrow> nat \<Rightarrow> nat" where
  "left_in [] st = st"
| "left_in (Store st' # acts) st = left_in acts st'"
| "left_in (_ # acts) st = left_in acts st"

lemma performs_heard:
  "heard w (told acts (current w) False) (performs acts w)"
  "current (performs acts w) = left_in acts (current w)"
proof -
  have "heard w (told acts (current w) ok) (fst (fold take_act acts (w, ok))) \<and>
      current (fst (fold take_act acts (w, ok))) = left_in acts (current w)" for ok
  proof (induction acts arbitrary: w ok)
    case (Cons a acts)
    obtain w1 ok1 where 1: "take_act a (w, ok) = (w1, ok1)" by fastforce
    then show ?case using Cons.IH [of w1 ok1] by (cases a) (auto simp: heard_def reported_def)
  qed (simp add: heard_def)
  then show "heard w (told acts (current w) False) (performs acts w)"
    "current (performs acts w) = left_in acts (current w)" by (simp_all add: performs_def)
qed

lemma performs_quiet [simp]: "wquit (performs acts w) = wquit w" "wapp (performs acts w) = wapp w"
proof -
  have "wquit (fst (fold take_act acts (w, ok))) = wquit w \<and> wapp (fst (fold take_act acts (w, ok))) = wapp w" for ok
  proof (induction acts arbitrary: w ok)
    case (Cons a acts)
    then show ?case by (cases a) (simp_all add: reported_def)
  qed simp
  then show "wquit (performs acts w) = wquit w" "wapp (performs acts w) = wapp w" by (simp_all add: performs_def)
qed

text \<open>Every order in which the main thread can end while the handler takes some of its steps.\<close>

fun orders :: "'b list \<Rightarrow> 'b list \<Rightarrow> 'b list list" where
  "orders [] ms = [ms]"
| "orders (h # hs) [] = [] # map (Cons h) (orders hs [])"
| "orders (h # hs) (m # ms) = map (Cons h) (orders hs (m # ms)) @ map (Cons m) (orders (h # hs) ms)"

lemma main_alone: "ms \<in> set (orders hs ms)"
  by (induction hs ms rule: orders.induct) auto

lemma interleave_order: "interleave s hs ms \<in> set (orders hs ms)"
proof (induction s hs ms rule: interleave.induct)
  case (1 s h hs ms)
  then show ?case by (cases ms) auto
next
  case (2 s hs m ms)
  then show ?case by (cases hs) auto
qed (auto simp: main_alone elim: list.set_cases split: list.splits)

text \<open>The end of a service that has been told to stop, in every order of the two threads.\<close>

definition stop_seen :: "nat \<Rightarrow> nat list \<Rightarrow> bool" where
  "stop_seen st sts = (sts \<in> set [[SERVICE_STOPPED], [st, SERVICE_STOPPED], [SERVICE_STOPPED, SERVICE_STOPPED]])"

lemma stop_orders:
  assumes "resolves env" "st \<noteq> SERVICE_STOPPED"
  shows "stop_seen st (told (interleave s (last_report env) (setStatus env SERVICE_STOPPED)) st False)"
    "left_in (interleave s (last_report env) (setStatus env SERVICE_STOPPED)) st = SERVICE_STOPPED"
proof -
  have "interleave s [Test, Tell_If] [Store SERVICE_STOPPED, Tell] \<in> set (orders [Test, Tell_If] [Store SERVICE_STOPPED, Tell])"
    by (rule interleave_order)
  then show "stop_seen st (told (interleave s (last_report env) (setStatus env SERVICE_STOPPED)) st False)"
    "left_in (interleave s (last_report env) (setStatus env SERVICE_STOPPED)) st = SERVICE_STOPPED"
    using assms by (auto simp: last_report_def setStatus_def winServiceInit_def stop_seen_def)
qed

text \<open>What the manager hears of a control while the main loop runs.\<close>

lemma control_told:
  assumes "resolves env" "control env code = (before, event, after)" "st \<noteq> SERVICE_STOPPED \<or> code = QTSERVICE_STARTUP"
  shows "told before st False @ told (after @ last_report env) (left_in before st) False = answers code st"
    "left_in (after @ last_report env) (left_in before st) = last (st # answers code st)"
    "left_in before st = last (st # told before st False)"
  using assms
  by (auto simp: control_def setStatus_def last_report_def winServiceInit_def answers_def service_states control_codes
      split: if_splits)

text \<open>The state machine that the manager expects of a service: which status may be reported after
  which.\<close>

definition may_follow :: "nat \<Rightarrow> nat \<Rightarrow> bool" where
  "may_follow s t =
     (s = t \<or> (s, t) \<in> set
        [(SERVICE_STOPPED, SERVICE_START_PENDING), (SERVICE_START_PENDING, SERVICE_RUNNING),
         (SERVICE_RUNNING, SERVICE_PAUSE_PENDING), (SERVICE_PAUSED, SERVICE_PAUSE_PENDING),
         (SERVICE_PAUSE_PENDING, SERVICE_PAUSED),
         (SERVICE_RUNNING, SERVICE_CONTINUE_PENDING), (SERVICE_PAUSED, SERVICE_CONTINUE_PENDING),
         (SERVICE_CONTINUE_PENDING, SERVICE_RUNNING),
         (SERVICE_RUNNING, SERVICE_STOP_PENDING), (SERVICE_PAUSED, SERVICE_STOP_PENDING),
         (SERVICE_STOP_PENDING, SERVICE_STOPPED),
         (SERVICE_RUNNING, SERVICE_STOPPED), (SERVICE_PAUSED, SERVICE_STOPPED)])"

lemma may_follow_refl [simp]: "may_follow s s"
  by (simp add: may_follow_def)

definition on_duty :: "nat \<Rightarrow> bool" where
  "on_duty st = (st \<in> {SERVICE_RUNNING, SERVICE_PAUSED})"

lemma answers_follow:
  assumes "on_duty s" "c < 256"
  shows "successively may_follow (s # answers c s)"
    "c \<noteq> SERVICE_CONTROL_STOP \<Longrightarrow> on_duty (last (s # answers c s))"
  using assms by (auto simp: on_duty_def answers_def may_follow_def control_codes service_states)

text \<open>A callback that leaves the main loop running.\<close>

definition stays :: "('a \<Rightarrow> 'a fate) \<Rightarrow> bool" where
  "stays f = (\<forall>a a' q ms. f a = Lives a' q ms \<longrightarrow> \<not> q)"

definition only_stop_ends :: "('a, 'e) service \<Rightarrow> bool" where
  "only_stop_ends svc =
     (stays (on_start svc) \<and> stays (on_pause svc) \<and> stays (on_resume svc) \<and> (\<forall>k. stays (on_command svc k)))"

lemma stays_callback: "callback env b f w = Some w' \<Longrightarrow> stays f \<Longrightarrow> wquit w' = wquit w"
proof -
  have "wquit (log_events env b ms w) = wquit w" for ms
    by (induction env b ms w rule: log_events.induct) simp_all
  then show "callback env b f w = Some w' \<Longrightarrow> stays f \<Longrightarrow> wquit w' = wquit w"
    unfolding callback_def stays_def by (fastforce split: option.splits fate.splits)
qed

lemma event_quits:
  assumes "handleCustomEvent env b svc code w = Some w'" "only_stop_ends svc"
  shows "wquit w' = (wquit w \<or> code = SERVICE_CONTROL_STOP)"
  using assms
  by (auto simp: handleCustomEvent_def only_stop_ends_def control_codes dest!: stays_callback split: if_splits)

text \<open>One control, from the manager's side.\<close>

lemma handler_heard:
  assumes "win_handler env b svc c w = (w1, rest)" "resolves env"
    "current w \<noteq> SERVICE_STOPPED \<or> c = QTSERVICE_STARTUP"
  shows "\<exists>p q. answers c (current w) = p @ q \<and> heard w p w1 \<and> current w1 = last (current w # p) \<and>
    (\<forall>acts. rest = Some acts \<longrightarrow> told acts (current w1) False = q \<and>
       left_in acts (current w1) = last (current w # answers c (current w)))"
proof -
  obtain before event after where c: "control env c = (before, event, after)" by (cases "control env c") auto
  note told = control_told [OF assms(2) c assms(3)]
  define v where "v = performs before w"
  have v: "heard w (told before (current w) False) v" "current v = left_in before (current w)"
    unfolding v_def by (rule performs_heard)+
  have w1: "reports w1 = reports v \<and> current w1 = current v \<and> accepted w1 = accepted v \<and>
      (\<forall>acts. rest = Some acts \<longrightarrow> acts = after @ last_report env)"
    using assms(1) c by (auto simp: win_handler_def v_def [symmetric] Let_def dest!: event_quiet split: option.splits)
  then have "heard w (told before (current w) False) w1" using v(1) by (simp add: heard_def)
  with w1 v(2) told show ?thesis
    by (intro exI [of _ "told before (current w) False"]
        exI [of _ "told (after @ last_report env) (left_in before (current w)) False"]) auto
qed

lemma handler_quits:
  assumes "win_handler env b svc c w = (w1, Some rest)" "only_stop_ends svc" "\<not> wquit w"
  shows "wquit w1 \<longleftrightarrow> c \<in> {SERVICE_CONTROL_STOP, SERVICE_CONTROL_SHUTDOWN}"
    "wquit w1 \<Longrightarrow> rest = last_report env"
  using assms
  by (auto simp: win_handler_def control_def Let_def control_codes dest!: event_quits split: option.splits if_splits)

lemma successively_join:
  "successively P (s # p) \<Longrightarrow> successively P (last (s # p) # q) \<Longrightarrow> successively P (s # p @ q)"
proof (induction p arbitrary: s)
  case (Cons x p)
  then show ?case by (cases p) auto
qed simp

lemma serve_heard:
  assumes "serve_controls env b svc cs w = (ended, w')" "resolves env" "only_stop_ends svc" "\<not> wquit w"
    "on_duty (current w)" "\<forall>c \<in> set cs. c < 256" "SERVICE_CONTROL_SHUTDOWN \<notin> set (butlast cs)"
  shows "\<exists>sts. heard w sts w' \<and> successively may_follow (current w # sts) \<and> current w' = last (current w # sts) \<and>
    (ended \<longrightarrow> current w' = SERVICE_STOPPED)"
  using assms
proof (induction env b svc cs w rule: serve_controls.induct)
  case (1 env b svc w)
  then show ?case by (intro exI [of _ "[]"]) (simp add: heard_def)
next
  case (2 env b svc c cs w)
  obtain w1 rest where w1: "win_handler env b svc c w = (w1, rest)" by fastforce
  have duty: "current w \<noteq> SERVICE_STOPPED" "c < 256" using 2(6,7) by (auto simp: on_duty_def service_states)
  obtain p q where h: "answers c (current w) = p @ q" "heard w p w1" "current w1 = last (current w # p)"
    "\<And>acts. rest = Some acts \<Longrightarrow> told acts (current w1) False = q \<and>
       left_in acts (current w1) = last (current w # answers c (current w))"
    using handler_heard [OF w1 2(3)] duty(1) by blast
  have a: "successively may_follow (current w # p @ q)" using answers_follow(1) [OF 2(6) duty(2)] h(1) by simp
  then have p: "successively may_follow (current w # p)"
    using successively_append_iff [of may_follow "current w # p" q] by simp
  consider "rest = None" | acts where "rest = Some acts" "wquit w1" | acts where "rest = Some acts" "\<not> wquit w1"
    by (cases rest) auto
  then show ?case
  proof cases
    case 1
    then have "\<not> ended \<and> w' = w1" using 2(2) w1 by simp
    then show ?thesis using h p by blast
  next
    case (2 acts)
    note quits = handler_quits [OF w1 [unfolded 2(1)] "2.prems"(3,4)]
    have acts: "acts = last_report env" using quits(2) 2(2) .
    have c: "c = SERVICE_CONTROL_STOP \<or> c = SERVICE_CONTROL_SHUTDOWN \<and> cs = []"
      using quits(1) 2(2) "2.prems"(7) by (cases cs) auto
    have st: "current w1 \<in> {SERVICE_RUNNING, SERVICE_PAUSED, SERVICE_STOP_PENDING}"
      using c h(1,3) "2.prems"(5) by (cases p) (auto simp: answers_def on_duty_def control_codes Cons_eq_append_conv split: if_splits)
    then have ns: "current w1 \<noteq> SERVICE_STOPPED" by (auto simp: service_states)
    define v where "v = w1\<lparr>exit_code := 0\<rparr>"
    let ?acts = "interleave (schedule env) (last_report env) (setStatus env SERVICE_STOPPED)"
    have w': "ended" "w' = performs ?acts v"
      using "2.prems"(1) w1 2 c acts by (auto simp: v_def)
    let ?sts = "told ?acts (current w1) False"
    have t: "heard w1 ?sts w'" "current w' = SERVICE_STOPPED" "stop_seen (current w1) ?sts"
      using performs_heard(1) [of v ?acts] performs_heard(2) [of ?acts v] stop_orders [OF "2.prems"(2) ns, of "schedule env"] w'(2)
      by (simp_all add: v_def heard_def)
    have "successively may_follow (current w1 # ?sts)" "last (current w1 # ?sts) = SERVICE_STOPPED"
      using t(3) st by (auto simp: stop_seen_def may_follow_def)
    then have "successively may_follow (current w # p @ ?sts)" "last (current w # p @ ?sts) = SERVICE_STOPPED"
      using successively_join [OF p] h(3) t(3) by (auto simp: stop_seen_def)
    then show ?thesis using heard_trans [OF h(2) t(1)] t(2) by (intro exI [of _ "p @ ?sts"]) simp
  next
    case (3 acts)
    let ?w2 = "performs acts w1"
    have s: "serve_controls env b svc cs ?w2 = (ended, w')" using "2.prems"(1) w1 3 by simp
    have c: "c \<noteq> SERVICE_CONTROL_STOP" using handler_quits(1) [OF w1 [unfolded 3(1)] "2.prems"(3,4)] 3(2) by simp
    have w2: "heard w1 q ?w2" "current ?w2 = last (current w # p @ q)"
      using performs_heard(1) [of w1 acts] performs_heard(2) [of acts w1] h(4) [OF 3(1)] h(1) by simp_all
    have "on_duty (current ?w2)" using answers_follow(2) [OF "2.prems"(5) duty(2) c] w2(2) h(1) by simp
    moreover have "SERVICE_CONTROL_SHUTDOWN \<notin> set (butlast cs)" using "2.prems"(7) by (cases cs) auto
    ultimately obtain sts where t: "heard ?w2 sts w'" "successively may_follow (current ?w2 # sts)"
        "current w' = last (current ?w2 # sts)" "ended \<longrightarrow> current w' = SERVICE_STOPPED"
      using "2.IH" [OF w1 [symmetric] 3(1) 3(2) s] "2.prems"(2,3,6) 3(2) by auto
    have "successively may_follow (current w # (p @ q) @ sts)"
      using successively_join [OF a] t(2) w2(2) by simp
    moreover have "current w' = last (current w # (p @ q) @ sts)" using t(3) w2(2) by (auto split: if_splits)
    ultimately show ?thesis
      using heard_trans [OF heard_trans [OF h(2) w2(1)] t(1)] t(4) by blast
  qed
qed

text \<open>The controls a service accepts, as the bits of Windows.\<close>

lemma accepted_controls_bits:
  "accepted_controls fl = (if has_flag fl CannotBeStopped then 0 else 1) + (if has_flag fl CanBeSuspended then 2 else 0) +
     (if has_flag fl NeedsStopOnShutdown then 4 else 0)"
  by (simp add: accepted_controls_def SERVICE_ACCEPT_STOP_def SERVICE_ACCEPT_PAUSE_CONTINUE_def SERVICE_ACCEPT_SHUTDOWN_def)

lemma main_heard:
  assumes "service_main env b svc sargs cs w = (ended, w')" "resolves env" "registers env" "only_stop_ends svc"
    "current w = SERVICE_STOPPED" "\<not> wquit w" "\<forall>c \<in> set cs. c < 256" "SERVICE_CONTROL_SHUTDOWN \<notin> set (butlast cs)"
  shows "\<exists>sts. heard w sts w' \<and> successively may_follow (SERVICE_STOPPED # sts) \<and>
    current w' = last (SERVICE_STOPPED # sts) \<and> (ended = Some True \<longrightarrow> current w' = SERVICE_STOPPED \<and> wapp w' = None)"
proof -
  define w0 where "w0 = w\<lparr>serviceArgs := serviceArgs w @ sargs, wapp := Some (fresh svc)\<rparr>"
  have w0: "heard w sts x = heard w0 sts x" "current w0 = SERVICE_STOPPED" "\<not> wquit w0" for sts x
    using assms(5,6) by (simp_all add: w0_def heard_def)
  obtain e w2 where s: "serve_controls env b svc (QTSERVICE_STARTUP # cs) w0 = (e, w2)" by fastforce
  have m: "ended = (if e then Some True else None)" "w' = (if e then w2\<lparr>wapp := None\<rparr> else w2)"
    using assms(1,3) s by (auto simp: service_main_def w0_def [symmetric] Let_def simp del: serve_controls.simps split: if_splits)
  obtain w1 rest where w1: "win_handler env b svc QTSERVICE_STARTUP w0 = (w1, rest)" by fastforce
  let ?a = "[SERVICE_START_PENDING, SERVICE_RUNNING, SERVICE_RUNNING]"
  obtain p q where h: "?a = p @ q" "heard w0 p w1" "current w1 = last (SERVICE_STOPPED # p)"
    "\<And>acts. rest = Some acts \<Longrightarrow> told acts (current w1) False = q \<and> left_in acts (current w1) = SERVICE_RUNNING"
    using handler_heard [OF w1 assms(2)] w0(2) by (auto simp: answers_def)
  have a: "successively may_follow (SERVICE_STOPPED # p @ q)"
    unfolding h(1) [symmetric] by (simp add: may_follow_def)
  show ?thesis
  proof (cases rest)
    case None
    then have "\<not> e \<and> w2 = w1" using s w1 by simp
    moreover have "successively may_follow (SERVICE_STOPPED # p)"
      using a successively_append_iff [of may_follow "SERVICE_STOPPED # p" q] by simp
    ultimately show ?thesis using m h(2,3) w0(1) by auto
  next
    case (Some acts)
    let ?w2 = "performs acts w1"
    have "\<not> wquit w1"
      using handler_quits(1) [OF w1 [unfolded Some] assms(4) w0(3)] by (simp add: control_codes)
    then have s2: "serve_controls env b svc cs ?w2 = (e, w2)" "\<not> wquit ?w2" using s w1 Some by simp_all
    have w2: "heard w1 q ?w2" "current ?w2 = SERVICE_RUNNING"
      using performs_heard(1) [of w1 acts] performs_heard(2) [of acts w1] h(4) [OF Some] by simp_all
    then have "on_duty (current ?w2)" by (simp add: on_duty_def)
    then obtain sts where t: "heard ?w2 sts w2" "successively may_follow (SERVICE_RUNNING # sts)"
        "current w2 = last (SERVICE_RUNNING # sts)" "e \<longrightarrow> current w2 = SERVICE_STOPPED"
      using serve_heard [OF s2(1) assms(2,4) s2(2) _ assms(7,8)] w2(2) by metis
    have l: "last (SERVICE_STOPPED # p @ q) = SERVICE_RUNNING" unfolding h(1) [symmetric] by simp
    have "successively may_follow (SERVICE_STOPPED # (p @ q) @ sts)"
      using successively_join [OF a] t(2) l by simp
    moreover have "current w2 = last (SERVICE_STOPPED # (p @ q) @ sts)" using t(3) l by (auto split: if_splits)
    moreover have "heard w0 ((p @ q) @ sts) w2" by (rule heard_trans [OF heard_trans [OF h(2) w2(1)] t(1)])
    moreover have gone: "heard w s (w2\<lparr>wapp := None\<rparr>) = heard w s w2" for s by (simp add: heard_def)
    ultimately show ?thesis
      using m t(4) w0(1) gone by (intro exI [of _ "(p @ q) @ sts"]) (auto simp del: append_assoc)
  qed
qed

text \<open>C16: The life of a Windows service, as its manager hears of it, in every order in which the
  handler's thread and the main thread take their steps. When only a stop ends the main loop (and
  a system shutdown, if it comes, is the last control): from the first report, that the service is
  starting, each status reported is one that may follow the one before (the first control is taken
  to come when \<open>serviceMain\<close> has returned); the service is running or
  paused between controls; and when \<open>start\<close> returns, the last report is that the service has
  stopped, and the application is gone. Every report carries the controls the service's flags
  allow. A service whose \<open>start\<close> callback ends the loop breaks this: the main thread can report
  stopped before the handler reports running, and then the last the manager hears of a process
  that has ended is that it runs.\<close>

theorem status_protocol:
  assumes "resolves env" "registers env" "\<not> wquit w"
    "\<forall>c \<in> set cs. c < 256" "SERVICE_CONTROL_SHUTDOWN \<notin> set (butlast cs)"
  shows "(win_base_start env svc (Dispatched sargs) cs b w = (ended, w') \<and> only_stop_ends svc \<longrightarrow>
      (\<exists>sts. reports w' = reports w @ map (\<lambda>st. (st, (if has_flag (serviceFlags b) CannotBeStopped then 0 else 1) +
            (if has_flag (serviceFlags b) CanBeSuspended then 2 else 0) +
            (if has_flag (serviceFlags b) NeedsStopOnShutdown then 4 else 0))) sts \<and>
        successively may_follow (SERVICE_STOPPED # sts) \<and> current w' = last (SERVICE_STOPPED # sts) \<and>
        (ended = Some True \<longrightarrow> current w' = SERVICE_STOPPED \<and> wapp w' = None))) \<and>
    (\<forall>a. on_start svc (fresh svc) = Lives a True [] \<longrightarrow>
      (let order = [False, False, True, True, True, True];
           (ended, w') = win_base_start (env\<lparr>schedule := order\<rparr>) svc (Dispatched sargs) [] b w
       in ended = Some True \<and> wapp w' = None \<and>
          map fst (reports w') = map fst (reports w) @
            [SERVICE_START_PENDING, SERVICE_STOPPED, SERVICE_RUNNING, SERVICE_RUNNING]))"
proof (intro conjI impI allI)
  assume a: "win_base_start env svc (Dispatched sargs) cs b w = (ended, w') \<and> only_stop_ends svc"
  then have m: "service_main env b svc sargs cs (win_sysInit b w) = (ended, w')"
    using assms(1) by (simp add: win_base_start_def winServiceInit_def Let_def)
  show "\<exists>sts. reports w' = reports w @ map (\<lambda>st. (st, (if has_flag (serviceFlags b) CannotBeStopped then 0 else 1) +
            (if has_flag (serviceFlags b) CanBeSuspended then 2 else 0) +
            (if has_flag (serviceFlags b) NeedsStopOnShutdown then 4 else 0))) sts \<and>
        successively may_follow (SERVICE_STOPPED # sts) \<and> current w' = last (SERVICE_STOPPED # sts) \<and>
        (ended = Some True \<longrightarrow> current w' = SERVICE_STOPPED \<and> wapp w' = None)"
    unfolding accepted_controls_bits [symmetric]
  proof -
    have i: "current (win_sysInit b w) = SERVICE_STOPPED" "\<not> wquit (win_sysInit b w)"
      "reports (win_sysInit b w) = reports w" "accepted (win_sysInit b w) = accepted_controls (serviceFlags b)"
      using assms(3) by (simp_all add: win_sysInit_def)
    from main_heard [OF m assms(1,2) conjunct2 [OF a] i(1,2) assms(4,5)]
    show "\<exists>sts. reports w' = reports w @ map (\<lambda>st. (st, accepted_controls (serviceFlags b))) sts \<and>
        successively may_follow (SERVICE_STOPPED # sts) \<and> current w' = last (SERVICE_STOPPED # sts) \<and>
        (ended = Some True \<longrightarrow> current w' = SERVICE_STOPPED \<and> wapp w' = None)"
      unfolding heard_def i(3,4) by blast
  qed
next
  fix a assume "on_start svc (fresh svc) = Lives a True []"
  then show "let order = [False, False, True, True, True, True];
           (ended, w') = win_base_start (env\<lparr>schedule := order\<rparr>) svc (Dispatched sargs) [] b w
       in ended = Some True \<and> wapp w' = None \<and>
          map fst (reports w') = map fst (reports w) @
            [SERVICE_START_PENDING, SERVICE_STOPPED, SERVICE_RUNNING, SERVICE_RUNNING]"
    using assms(1-3)
    by (simp add: win_base_start_def winServiceInit_def service_main_def win_handler_def control_def handleCustomEvent_def
        callback_def setStatus_def last_report_def performs_def reported_def win_sysInit_def control_codes service_states Let_def)
qed

lemma status_protocol_witness:
  "\<exists>w'. win_base_start fine_scm idle_service (Dispatched []) [2, 3, 1] idle_base idle_win = (Some True, w') \<and>
     map fst (reports w') = [2, 4, 4, 6, 7, 7, 5, 4, 4, 3, 1] \<and> set (map snd (reports w')) = {3} \<and>
     successively may_follow (1 # map fst (reports w'))"
proof -
  let ?w = "snd (win_base_start fine_scm idle_service (Dispatched []) [2, 3, 1] idle_base idle_win)"
  have r: "fst (win_base_start fine_scm idle_service (Dispatched []) [2, 3, 1] idle_base idle_win) = Some True \<and>
      map fst (reports ?w) = [2, 4, 4, 6, 7, 7, 5, 4, 4, 3, 1]"
    by (simp add: win_base_start_def service_main_def fine_scm_def idle_win_def idle_service_def win_handler_def control_def
      last_report_def performs_def win_sysInit_def handleCustomEvent_def callback_def does_nothing_def setStatus_def reported_def
      winServiceInit_def control_codes service_states Let_def)
  moreover have "only_stop_ends idle_service"
    by (simp add: only_stop_ends_def stays_def idle_service_def does_nothing_def)
  moreover have "(if has_flag (serviceFlags idle_base) CannotBeStopped then 0 else 1) +
      (if has_flag (serviceFlags idle_base) CanBeSuspended then 2 else 0) +
      (if has_flag (serviceFlags idle_base) NeedsStopOnShutdown then 4 else 0) = (3 :: flags)"
    by (simp add: idle_base_def has_flag_def CanBeSuspended_def CannotBeStopped_def NeedsStopOnShutdown_def)
  ultimately obtain sts where "reports ?w = reports idle_win @ map (\<lambda>st. (st, 3)) sts"
      "successively may_follow (SERVICE_STOPPED # sts)"
    using status_protocol [of fine_scm idle_win "[2, 3, 1]" idle_service "[]" idle_base "Some True" ?w]
    by (auto simp: fine_scm_def idle_win_def prod_eq_iff control_codes)
  then show ?thesis using r
    by (intro exI [of _ ?w]) (auto simp: prod_eq_iff idle_win_def SERVICE_STOPPED_def comp_def)
qed

section \<open>User-defined commands\<close>

fun code_sent :: "scm_call \<Rightarrow> int list" where
  "code_sent (ControlService h code) = [code]"
| "code_sent _ = []"

text \<open>The control codes a process has sent, newest first.\<close>

definition codes_sent :: "scm_call list \<Rightarrow> int list" where
  "codes_sent tr = concat (map code_sent tr)"

lemma codes_sent_simps [simp]: "codes_sent [] = []" "codes_sent (c # tr) = code_sent c @ codes_sent tr"
  by (simp_all add: codes_sent_def)

lemma isRunning_sends: "codes_sent (snd (win_isRunning env n tr)) = codes_sent tr"
  by (simp add: win_isRunning_def with_service_def opened_def query_status_def tried_def Let_def)

text \<open>User-defined commands on Windows. \<open>sendCommand\<close> sends nothing for a code outside 0 to 127; for
  a code in that range it sends at most one control, the code moved up by 128 into the range that
  Windows leaves to services, and it returns true only when it has. The service that receives this
  control gets the original code in \<open>processCommand\<close>, keeps its status, and reports it.\<close>

theorem user_codes:
  assumes "win_sendCommand env n code tr = (r, tr')"
  shows "(if codes_sent tr' = codes_sent tr then \<not> r
          else 0 \<le> code \<and> code \<le> 127 \<and> codes_sent tr' = (128 + code) # codes_sent tr) \<and>
    (0 \<le> code \<and> code \<le> 127 \<longrightarrow>
     win_handler env b svc (128 + code) w =
       (case callback env b (on_command svc code) w of
          None \<Rightarrow> (w, None)
        | Some w1 \<Rightarrow> (w1, Some (last_report env))))"
proof
  let ?body = "\<lambda>h. tried env (ControlService h (128 + code))"
  let ?send = "with_service env SC_MANAGER_CONNECT SERVICE_USER_DEFINED_CONTROL n False ?body (snd (win_isRunning env n tr))"
  have one: "codes_sent (snd ?send) = codes_sent tr \<and> \<not> fst ?send \<or> codes_sent (snd ?send) = (128 + code) # codes_sent tr"
    by (simp add: with_service_def opened_def tried_def Let_def isRunning_sends)
  have s: "win_sendCommand env n code tr =
      (if \<not> winServiceInit env \<or> code < 0 \<or> code > 127 then (False, tr)
       else if \<not> fst (win_isRunning env n tr) then (False, snd (win_isRunning env n tr)) else ?send)"
    by (simp add: win_sendCommand_def Let_def split_def)
  show "if codes_sent tr' = codes_sent tr then \<not> r
        else 0 \<le> code \<and> code \<le> 127 \<and> codes_sent tr' = (128 + code) # codes_sent tr"
    using assms one isRunning_sends [of env n tr] unfolding s
    by (auto split: if_splits)
qed (auto simp: win_handler_def control_def performs_def handleCustomEvent_def control_codes split: option.splits)

lemma user_codes_witness:
  "codes_sent (snd (win_sendCommand fine_scm ''nic'' 5 [])) = [133] \<and>
   wapp (fst (win_handler fine_scm idle_base idle_service 133 (idle_win\<lparr>wapp := Some 1\<rparr>))) = Some 6"
proof -
  have "fst (win_sendCommand fine_scm ''nic'' 5 [])"
    by (simp add: win_sendCommand_def win_isRunning_def with_service_def winServiceInit_def opened_def tried_def query_status_def
      Let_def fine_scm_def service_states)
  then show ?thesis
    using user_codes [of fine_scm "''nic''" 5 "[]", OF prod.collapse [symmetric], of idle_base idle_service "idle_win\<lparr>wapp := Some 1\<rparr>"]
    by (auto simp: callback_def idle_service_def idle_win_def split: if_splits)
qed

end
