(* ===== verification/Spec2Isabelle.thy ===== *)
theory Spec2Isabelle
  imports Display Dormant Daemon ServiceWindows
begin

text \<open>
  OpenNIC Wizard: a service that keeps a machine's list of DNS servers filled with the fastest
  live OpenNIC resolvers, and a tray applet that shows and configures it. Both are Qt programs;
  this development models their code (\<open>src/server\<close>, \<open>src/client\<close>, \<open>src/common\<close>), the service
  framework kept with it (\<open>server/qtservice*\<close>, \<open>server/qtunix*\<close>) included, and leaves Qt, the
  operating system and the script engine as parameters.

  How the program works. \<open>OpenNICServer\<close> (\<open>server/opennicserver.cpp\<close>) holds a pool of
  \<open>OpenNICResolver\<close> objects and a smaller cache of the active ones. Every resolver tests itself
  on a timer with an \<open>OpenNICDnsQuery\<close>, whose outcome the base class \<open>OpenNICDnsQueryListener\<close>
  keeps as a history. The service scores and sorts the pool, proposes the best, and hands them to
  \<open>OpenNICSystem\<close>, which writes \<open>resolv.conf\<close> or runs \<open>netsh\<close>. A cold boot fills the pool from a
  file of T1 servers and a command that lists T2 servers. The applet talks to the service over
  TCP with maps of keys and values (\<open>OpenNICPacket\<close>, \<open>OpenNICNet\<close>). \<open>main\<close> wraps the server in an
  \<open>OpenNICService\<close>, whose \<open>exec\<close> reads the argument: it installs, removes, starts, stops, pauses
  or runs the service, as a Unix daemon that listens on a local socket or as a Windows service.

  Theories, in the order of the code's own dependencies:

  \<^item> \<open>Prelude\<close>: QString, QList, QMap, QVariant and double as the sources use them, and the
    locales \<open>invariant_system\<close> (an invariant of a step relation) and \<open>codec\<close> (a format that can
    be read back).
  \<^item> \<open>DomainName\<close>: \<open>OpenNICDomainName\<close> and its pool without duplicates.
  \<^item> \<open>DnsWire\<close>: the byte level of \<open>opennicdnsquery.cpp\<close>: the question packet, \<open>fetch\<close>, the
    parsing of a datagram, byte by byte as the code reads and stores them. Every read or store
    outside a buffer is a value (None, or \<open>Undefined\<close>). \<open>reply_packet\<close> is the reference: a reply whose
    records have owners of any of the three forms of RFC 1035 (\<open>owner\<close>).
  \<^item> \<open>DnsQuery\<close>: the query object: constructors, \<open>lookup\<close>, timers, signals, \<open>terminate\<close>; its
    life as a step relation.
  \<^item> \<open>Resolver\<close>: the listener's history and the resolver: status, latency, tests, operators.
  \<^item> \<open>ResolverPool\<close>: resolver objects on an explicit heap with their reference counts, and the
    pool: append, insort, sort, randomize, scoring, export.
  \<^item> \<open>OsSystem\<close>: \<open>OpenNICSystem\<close> and its Linux and Windows versions: a map from file names to
    contents, the commands run so far, \<open>resolv.conf\<close>, backups, bootstrap lists, test domains.
  \<^item> \<open>Net\<close>: packets, their framing and the dispatch of polls.
  \<^item> \<open>ServerCore\<close>: the state of the service (a record with the fields of the class), the log,
    the update of the active resolvers, the bootstrap.
  \<^item> \<open>Server\<close>: settings, sessions, cold boot, timers, the event loop, and pause and resume.
  \<^item> \<open>Dormant\<close>: a service that has been disabled, which no event but a packet makes touch the machine.
  \<^item> \<open>Client\<close>: the applet: requests, slots for the service's data, the table with its rows and its
    sorting, the user's actions, history dialog.
  \<^item> \<open>Protocol\<close>: the kinds of the values the two programs send each other.
  \<^item> \<open>Applet\<close>: \<open>client/main.cpp\<close> and the applet as a process: its menu and dialogs, one step per event
    (\<open>applet_step\<close>), with every slot that the event's signals call, and the invariant of its life.
  \<^item> \<open>Display\<close>: what each entry of an answer shows in the dialog and keeps there; the table of
    resolvers.
  \<^item> \<open>ServiceFramework\<close>: the part of the framework common to all platforms (\<open>qtservice.cpp\<close>): the
    service object, the arguments, \<open>exec\<close> and \<open>run\<close> over a record of a platform's operations, the
    debug log; the locales \<open>service_registry\<close> and \<open>service_invariant\<close> say what \<open>exec\<close> makes of a
    platform's promises.
  \<^item> \<open>ServiceUnix\<close>: \<open>qtservice_unix.cpp\<close> and the two socket classes: controller, command socket,
    list of installed services, daemon, event loop.
  \<^item> \<open>ServiceWindows\<close>: \<open>qtservice_win.cpp\<close>: the calls to the service control manager, the control
    handler and the main thread with the interleavings of their steps, the statuses.
  \<^item> \<open>Daemon\<close>: \<open>main.cpp\<close>: the virtual functions of \<open>OpenNICService\<close> on the server, the signals,
    and \<open>main\<close>.
  \<^item> this theory: what applet and service do together: settings sent with Apply, polls and their
    answers, and the dialog after a whole exchange.

  State. A record has the fields of its class; objects that several lists share (resolvers) live
  on a heap and lists hold addresses. Timers are a list of running ids. A call on a null pointer,
  an overflow of an int, a division by zero, an access outside an array and a loop that does not
  end are the value None (or Stuck), so that a theorem that an operation returns says none of
  them happens.

  Fuel. \<open>handle_event\<close>, \<open>delay_loop\<close> and \<open>cold_loop\<close> take fuel, because a handler may wait in
  a nested event loop; \<open>cold_boot_serves\<close> holds with the fuel of one pass and any handler, and
  the invariant with any fuel. Two loops that may run for ever are partial functions, None when
  they do: \<open>fetch_loop\<close>, of which \<open>fetch_termination\<close> shows that it returns every name that fits
  its array, ends on every datagram without compression pointers and never on a pointer to itself, and \<open>draw_pair\<close>, which draws
  until two numbers differ and ends when the draws are fair (\<open>shuffle_permutes\<close>). All other
  recursions are shown to terminate by Isabelle.

  What the lemmas show. Each theory first proves that its operations keep the invariant of its
  state (\<open>query_inv\<close>, \<open>pools_ok\<close>, \<open>server_inv\<close>), then how each behaves, and its last section states
  the properties. \<open>pools_ok\<close> says that what a pool holds is allocated, that its reference count
  covers every place that holds it, and that no address occurs twice. \<open>update_contract\<close> is the
  contract of the three calls an update makes on the operating system, interpreted for each part
  of the system's state that an update keeps. \<open>server_life\<close> interprets \<open>invariant_system\<close> for
  the service, \<open>query_life\<close> for a query, \<open>applet_life\<close> for the applet, \<open>dormant\<close> for a disabled service. \<open>command_line\<close> is the contract between the two ends of the
  daemon's socket (\<open>controls\<close>), \<open>unix_registry\<close> interprets \<open>service_registry\<close> for the settings file of
  a Unix system, and \<open>scm\<close> interprets \<open>service_invariant\<close> for the handles of a Windows process.
  \<open>program_lifecycle\<close> composes all of it, from the first call of \<open>main\<close> to the end of the daemon;
  \<open>apply_button\<close> and \<open>display_in_sync\<close> compose the applet, in any state it can reach, with the service.

  The framework's state. On Unix the system is the settings file, the processes, the bound addresses
  and the process that acts; a process runs until it dies or its event loop returns, and a
  controller's command is handled by the daemon while the controller waits. On Windows the state of a
  process is the list of the calls it has made, newest first, each answered by the environment.
  A control of the manager has three parts (\<open>control\<close>): what the handler reports before it posts its
  event, what the main thread does with the event, and what the handler has left to report once the
  main thread has released its semaphore (\<open>late_steps\<close>). When the event has ended the main loop, these last steps run
  beside those with which the main thread leaves \<open>start\<close>, in the order the environment's
  \<open>schedule\<close> gives (\<open>interleave\<close>); otherwise the main loop has nothing to do and the handler goes first. The event loop gets its events as a
  list, so it needs no fuel; the ten polls of \<open>stop_loop\<close> end by themselves.

  Parameters. The address parser (QHostAddress), the stream format of a map (QDataStream; its
  promise is \<open>stream_ok\<close>), rounding of doubles, number and date formatting, the script engine,
  random numbers, the clock, the output of commands, which files can be read or written, and
  the status of the settings file; of the widgets, how a table sorts its rows and where a sorted
  table puts a changed one, and whether a radio button can be unchecked. Text is a list of bytes.

  Not modelled, and why. Of the framework: \<open>umask\<close>, the layout of what the program prints, the
  mutex, condition and semaphores of the Windows service, which appear only as the orders of steps
  they leave open, and the event filter for Qt 4. The icons and the
  geometry of the applet's windows, and what it prints to its error output. \<open>opennicsession.cpp\<close>,
  \<open>opennicresolvertest\<close>, \<open>opennicdnsclient.h\<close> and \<open>openniclog.h\<close>, which no other file uses. Events
  that arrive while a child process runs are taken to arrive after it.
\<close>

section \<open>Settings from the applet\<close>

lemma session_readable_ready:
  assumes "i < length (mSessions s)" "n = mSessions s ! i" "sock_in n = []" "mRXState (mRXPacket n) = 0"
    "stream_ok put (get_map env) m" "\<forall>e \<in> set m. fst e \<noteq> ''poll_keys''" "m \<noteq> []"
    "\<And>n'. mData (mRXPacket n') = m \<Longrightarrow> isLive n' = isLive n \<Longrightarrow> \<exists>t n''. dataReady env (s, n') = Some (t, n'') \<and> P t"
    "\<And>t ns. P t \<Longrightarrow> P (t\<lparr>mSessions := ns\<rparr>)"
  shows "\<exists>t. session_readable env i (frame put m) s = Some t \<and> P t"
proof -
  obtain p where p: "recv (get_map env) (frame put m @ []) (mRXPacket n) = (p, [], True)" "mData p = m"
    using recv_coalesced [OF assms(4,5)] by blast
  define n1 where "n1 = n\<lparr>mRXPacket := p, sock_in := []\<rparr>"
  have n1: "mData (mRXPacket n1) = m" "isLive n1 = isLive n" using p(2) by (simp_all add: n1_def isLive_def)
  obtain t n2 where t: "dataReady env (s, n1) = Some (t, n2)" "P t" using assms(8) [OF n1] by blast
  have still: "poll_entries poll es sn = sn" if "\<forall>e \<in> set es. fst e \<noteq> ''poll_keys''" for poll es and sn :: "server option \<times> net"
    using that by (induction es) auto
  have "readyRead (put_map env) (get_map env) (poll_slot env) (ready_slot env) (Some s, n\<lparr>sock_in := sock_in n @ frame put m\<rparr>)
      = net_dataReady (put_map env) (poll_slot env) (ready_slot env) (Some s, n1)"
    using p(1) assms(3) by (simp add: readyRead_def n1_def)
  also have "\<dots> = ready_slot env (Some s, n1)"
    using still [OF assms(6)] assms(6,7) n1(1) by (cases m) (auto simp: net_dataReady_def Let_def)
  also have "\<dots> = (Some t, n2)" using t(1) by (simp add: ready_slot_def)
  finally show ?thesis
    using assms(1,2,9) t(2) by (simp add: session_readable_def)
qed

text \<open>Each entry of such a packet takes effect and is kept by the ones after it.\<close>

abbreviation enabled_is :: "bool \<Rightarrow> server \<Rightarrow> bool" where
  "enabled_is b \<equiv> system_has (\<lambda>y. sys_enabled y = b)"

lemma interface_entry:
  assumes "mSystem s \<noteq> None" "server_inv s"
  shows "\<exists>t. data_entry env ''interface'' v (s, n) = Some (t, n) \<and> mSystem t \<noteq> None \<and> server_inv t"
proof -
  obtain t r where w: "with_system (\<lambda>y. (setInterfaceName (to_str v) y, ())) s = Some (t, r)"
    using with_system_returns [OF assms(1), of "\<lambda>y. (setInterfaceName (to_str v) y, ())"] by blast
  then have "data_entry env ''interface'' v (s, n) = Some (t, n)" by (simp add: data_entry_def Let_def)
  with server_inv_entry [OF this assms(2)] with_system_present [OF w] show ?thesis by blast
qed

lemma note_change_system [simp]: "mSystem (note_change c m s) = mSystem s"
  by (simp add: note_change_def)

lemma enabled_entry:
  assumes "mSystem s \<noteq> None" "server_inv s"
  shows "\<exists>t. data_entry env ''opennic_enabled'' (VBool b) (s, n) = Some (t, n) \<and> enabled_is b t \<and> server_inv t"
proof -
  obtain y where y: "mSystem s = Some y" using assms(1) by auto
  obtain y1 msgs where e: "OsSystem.setEnabled (os env) b y = (y1, msgs)"
    by (cases "OsSystem.setEnabled (os env) b y") auto
  obtain t where t: "enable_system env b s = Some t" "mSystem t = Some y1"
    using y e by (auto simp: enable_system_def with_system_def Let_def)
  then have d: "data_entry env ''opennic_enabled'' (VBool b) (s, n) = Some (t, n)"
    by (simp add: data_entry_def Let_def)
  have "enabled_is b t" using t(2) setEnabled_frame [OF e] by (simp add: system_has_def)
  with d server_inv_entry [OF d assms(2)] show ?thesis by blast
qed

lemma period_entry:
  assumes "0 \<le> p" "int_ok (p * 60 * 1000)" "server_inv s"
  shows "\<exists>t. data_entry env ''refresh_timer_period'' (VInt p) (s, n) = Some (t, n) \<and> mRefreshTimerPeriod t = p \<and>
    mSystem t = mSystem s \<and> server_inv t"
proof -
  define u where "u = note_change (mRefreshTimerPeriod s \<noteq> p) ''Settings Applied'' s"
  have u: "mSystem u = mSystem s" by (simp add: u_def note_change_def)
  obtain t where t: "setRefreshPeriod env p u = Some t" "mRefreshTimerPeriod t = p" "mSystem t = mSystem u"
    using setRefreshPeriod_returns [OF assms(2), of env u] assms(1) by blast
  then have d: "data_entry env ''refresh_timer_period'' (VInt p) (s, n) = Some (t, n)"
    by (simp add: data_entry_def Let_def u_def)
  with t u server_inv_entry [OF d assms(3)] show ?thesis by auto
qed

lemma size_entry:
  assumes "0 \<le> k" "enabled_is b s" "server_inv s"
  shows "\<exists>t. data_entry env ''resolver_cache_size'' (VInt k) (s, n) = Some (t, n) \<and> mResolverCacheSize t = k \<and>
    mRefreshTimerPeriod t = mRefreshTimerPeriod s \<and> enabled_is b t \<and> server_inv t"
proof -
  define u where "u = note_change (mResolverCacheSize s \<noteq> k) ''Settings Applied'' s"
  have u: "mSystem u = mSystem s" "mRefreshTimerPeriod u = mRefreshTimerPeriod s" "enabled_is b u"
    using assms(2) by (simp_all add: u_def note_change_def system_has_def)
  have inv: "server_inv u" using assms(3) by (simp add: u_def)
  obtain t where t: "setResolverCacheSize env k u = Some t" "mResolverCacheSize t = k"
    "mRefreshTimerPeriod t = mRefreshTimerPeriod u" "enabled_is b t"
  proof (cases "mResolverCacheSize u = k")
    case True
    then show ?thesis using that u by (auto simp: setResolverCacheSize_def)
  next
    case False
    define l where "l = log_msg env (''** ACTIVE CACHE SET TO '' @ number k @ '' RESOLVERS **'') (u\<lparr>mResolverCacheSize := k\<rparr>)"
    have l: "mResolverCacheSize l = k" "mRefreshTimerPeriod l = mRefreshTimerPeriod u" "mSystem l = mSystem u"
      by (simp_all add: l_def)
    have "server_inv (u\<lparr>mResolverCacheSize := k\<rparr>)" by (rule server_inv_cong [OF inv]) simp_all
    then have "server_inv l" unfolding l_def by (rule server_inv_log)
    then have ok: "srv_ok [] l" unfolding server_inv_def by blast
    have lb: "enabled_is b l" using u(3) l(3) by (simp add: system_has_def)
    then obtain t rc where d: "updateDNS env k l = Some (t, rc)" using updateDNS_returns system_has_present by blast
    have "setResolverCacheSize env k u = map_option fst (updateDNS env (mResolverCacheSize l) l)"
      using False assms(1) unfolding setResolverCacheSize_def Let_def l_def by simp
    then have "setResolverCacheSize env k u = Some t" using d l(1) by simp
    moreover have "config t = config l" using updateDNS_ok [OF d ok] by blast
    moreover have "enabled_is b t" using enabled_flag.updateDNS [OF d lb] .
    ultimately show ?thesis using that l by (simp add: config_def)
  qed
  then have d: "data_entry env ''resolver_cache_size'' (VInt k) (s, n) = Some (t, n)"
    by (simp add: data_entry_def Let_def u_def)
  with t u server_inv_entry [OF d assms(3)] show ?thesis by auto
qed

lemma score_entries:
  "data_entry env ''score_internal'' (VBool b) (s, n) = Some (s\<lparr>mScoreInternal := b\<rparr>, n)"
  "data_entry env ''score_rules'' (VStr x) (s, n) = Some (s\<lparr>mScoreRules := x\<rparr>, n)"
  by (simp_all add: data_entry_def Let_def)

lemma data_entries_append:
  "data_entries env (es @ es') sn = do { sn1 \<leftarrow> data_entries env es sn; data_entries env es' sn1 }"
  by (induction es arbitrary: sn) (auto simp: bind_eq_Some_conv split: Option.bind_splits)

definition applied_settings :: "client \<Rightarrow> server \<Rightarrow> bool" where
  "applied_settings c t =
     (mRefreshTimerPeriod t = w_refresh c \<and> mResolverCacheSize t = w_count c \<and> mScoreRules t = w_rules c \<and>
      mScoreInternal t = w_builtin c \<and> enabled_is (w_enabled c) t)"

lemma settings_entries:
  assumes "server_inv s" "mSystem s \<noteq> None" "0 \<le> w_refresh c" "int_ok (w_refresh c * 60 * 1000)" "0 \<le> w_count c"
  shows "\<exists>t. data_entries env (settings_map c) (s, n) = Some (t, n) \<and> applied_settings c t \<and> server_inv t"
proof -
  obtain s0 where s0: "data_entries env (if w_iface c \<noteq> [] then [(''interface'', VStr (w_iface c))] else []) (s, n) = Some (s0, n)"
    "mSystem s0 \<noteq> None" "server_inv s0"
    using interface_entry [OF assms(2,1), of env "VStr (w_iface c)" n] assms(1,2) by (cases "w_iface c = []") auto
  obtain s1 where s1: "data_entry env ''opennic_enabled'' (VBool (w_enabled c)) (s0, n) = Some (s1, n)"
    "enabled_is (w_enabled c) s1" "server_inv s1"
    using enabled_entry [OF s0(2,3)] by blast
  obtain s2 where s2: "data_entry env ''refresh_timer_period'' (VInt (w_refresh c)) (s1, n) = Some (s2, n)"
    "mRefreshTimerPeriod s2 = w_refresh c" "mSystem s2 = mSystem s1" "server_inv s2"
    using period_entry [OF assms(3,4) s1(3)] by blast
  have "enabled_is (w_enabled c) s2" using s1(2) s2(3) by (simp add: system_has_def)
  then obtain s3 where s3: "data_entry env ''resolver_cache_size'' (VInt (w_count c)) (s2, n) = Some (s3, n)"
    "mResolverCacheSize s3 = w_count c" "mRefreshTimerPeriod s3 = mRefreshTimerPeriod s2"
    "enabled_is (w_enabled c) s3" "server_inv s3"
    using size_entry [OF assms(5) _ s2(4)] by blast
  define t where "t = s3\<lparr>mScoreInternal := w_builtin c, mScoreRules := w_rules c\<rparr>"
  have "data_entries env (settings_map c) (s, n) = Some (t, n)"
    using s0(1) s1(1) s2(1) s3(1) by (simp add: settings_map_def data_entries_append score_entries t_def)
  moreover have "server_inv t" by (rule server_inv_cong [OF s3(5)]) (simp_all add: t_def)
  moreover have "applied_settings c t" using s2(2) s3(2-4) by (simp add: applied_settings_def t_def system_has_def)
  ultimately show ?thesis by blast
qed

definition stored_settings :: "client \<Rightarrow> server \<Rightarrow> bool" where
  \<comment> \<open>what the settings file holds\<close>
  "stored_settings c t =
     (settings t ''refresh_timer_period'' = Some (VInt (w_refresh c)) \<and>
      settings t ''resolver_cache_size'' = Some (VInt (w_count c)) \<and>
      settings t ''score_rules'' = Some (VStr (w_rules c)) \<and>
      settings t ''score_internal'' = Some (VBool (w_builtin c)) \<and>
      settings t ''enabled'' = Some (VBool (w_enabled c)))"

lemma settings_stored:
  assumes "applied_settings c s" "save_status env = NoError"
  shows "\<exists>t. writeSettings env s = Some t \<and> applied_settings c t \<and> stored_settings c t"
proof -
  obtain y where y: "mSystem s = Some y" "sys_enabled y = w_enabled c"
    using assms(1) by (auto simp: applied_settings_def system_has_def)
  obtain y1 i where i: "interfaceName (os env) y = (y1, i)" by (cases "interfaceName (os env) y") auto
  then have y1: "sys_enabled y1 = w_enabled c" using y(2) by (auto simp: interfaceName_def Let_def split: if_splits)
  define t where "t = store_settings (w_enabled c) i ((log_msg env (''>> '' @ settings_file env) s)\<lparr>mSystem := Some y1\<rparr>)"
  have "writeSettings env s = Some t"
    using y i y1 assms(2) by (simp add: writeSettings_def with_system_def t_def del: append.simps)
  then show ?thesis using assms(1) y1
    by (simp add: t_def store_settings_def applied_settings_def stored_settings_def system_has_def)
qed

lemma settings_received:
  assumes "server_inv s" "mSystem s \<noteq> None" "0 \<le> w_refresh c" "w_refresh c \<le> 9999" "0 \<le> w_count c"
    "save_status env = NoError" "i < length (mSessions s)" "sock_in (mSessions s ! i) = []"
    "mRXState (mRXPacket (mSessions s ! i)) = 0" "isLive (mSessions s ! i)"
    "stream_ok put (get_map env) (settings_map c)"
  shows "\<exists>t. session_readable env i (frame put (settings_map c)) s = Some t \<and> applied_settings c t \<and> stored_settings c t"
proof (rule session_readable_ready [OF assms(7) refl assms(8,9,11), of "\<lambda>t. applied_settings c t \<and> stored_settings c t"])
  have fits: "int_ok (w_refresh c * 60 * 1000)" using assms(3,4) by (simp add: int_ok_def)
  fix n' assume n': "mData (mRXPacket n') = settings_map c" "isLive n' = isLive (mSessions s ! i)"
  obtain s1 where s1: "data_entries env (settings_map c) (s, n') = Some (s1, n')" "applied_settings c s1"
    using settings_entries [OF assms(1-3) fits assms(5)] by blast
  obtain t where "writeSettings env s1 = Some t" "applied_settings c t" "stored_settings c t"
    using settings_stored [OF s1(2) assms(6)] by blast
  with s1(1) n' assms(10) show "\<exists>t n''. dataReady env (s, n') = Some (t, n'') \<and> applied_settings c t \<and> stored_settings c t"
    by (simp add: dataReady_def)
qed (auto simp: settings_map_def applied_settings_def stored_settings_def system_has_def)

text \<open>Settings made in the applet take effect in the service: the bytes \<open>update\<close> writes,
  received by a live session, give the service what the dialog shows.\<close>

lemma settings_applied:
  assumes "server_inv s" "mSystem s \<noteq> None" "i < length (mSessions s)" "sock_in (mSessions s ! i) = []"
    "mRXState (mRXPacket (mSessions s ! i)) = 0" "isLive (mSessions s ! i)"
    "isLive (mLocalNet c)" "window_ok c"
    "sock_out (mLocalNet (update_settings cenv c)) = sock_out (mLocalNet c) @ bytes"
    "stream_ok (cl_put_map cenv) (get_map env) (settings_map c)" "save_status env = NoError"
  shows "\<exists>t. session_readable env i bytes s = Some t \<and> applied_settings c t \<and> stored_settings c t"
proof -
  have w: "0 \<le> w_refresh c" "w_refresh c \<le> 9999" "0 \<le> w_count c" using assms(8) by (simp_all add: window_ok_def)
  have "bytes = frame (cl_put_map cenv) (settings_map c)"
    using update_settings_sends [of c cenv] net_okD [OF window_okD [OF assms(8)]] assms(7,9) by simp
  then show ?thesis
    using settings_received [OF assms(1,2) w assms(11) assms(3-6) assms(10)] by simp
qed

text \<open>C8: The Apply button works: in any state the applet can be in with a live connection, the bytes
  that pressing Apply writes, received by a live session, give the service exactly the refresh
  period, the number of resolvers, the score rules, the kind of score and the enabled flag the
  dialog shows, and the settings file then holds the same; pressing OK writes the same bytes.\<close>

theorem apply_button:
  assumes "reachable applet_init (applet_moves aenv) a" "isLive (mLocalNet (window a))"
    "server_inv s" "mSystem s \<noteq> None" "save_status env = NoError"
    "i < length (mSessions s)" "sock_in (mSessions s ! i) = []" "mRXState (mRXPacket (mSessions s ! i)) = 0"
    "isLive (mSessions s ! i)" "stream_ok (cl_put_map (a_env aenv)) (get_map env) (settings_map (window a))"
  shows "\<exists>b b' bytes t. applet_step aenv (Press ApplyRole) a = Some b \<and> applet_step aenv (Press AcceptRole) a = Some b' \<and>
    sock_out (mLocalNet (window b)) = sock_out (mLocalNet (window a)) @ bytes \<and>
    sock_out (mLocalNet (window b')) = sock_out (mLocalNet (window a)) @ bytes \<and>
    session_readable env i bytes s = Some t \<and> applied_settings (window a) t \<and> stored_settings (window a) t"
proof -
  let ?c = "window a" and ?d = "(window a)\<lparr>w_visible := False\<rparr>"
  let ?bytes = "frame (cl_put_map (a_env aenv)) (settings_map ?c)"
  have ok: "window_ok ?c" using applet_life.reach_inv [OF assms(1)] .
  have sent: "sock_out (mLocalNet (update_settings (a_env aenv) c)) = sock_out (mLocalNet ?c) @ ?bytes"
    if "mLocalNet c = mLocalNet ?c" "settings_map c = settings_map ?c" for c
    using update_settings_sends [of c "a_env aenv"] net_okD [OF window_okD [OF ok]] assms(2) that by simp
  obtain t where t: "session_readable env i ?bytes s = Some t" "applied_settings ?c t" "stored_settings ?c t"
    using settings_applied [OF assms(3,4,6-9,2) ok sent [OF refl refl] assms(10,5)] by blast
  have "settings_map ?d = settings_map ?c" by (simp add: settings_map_def)
  then show ?thesis
    using sent [OF refl refl] sent [of ?d] t
    by (auto simp: on_window_def clicked_def dialog_accepted_def writeClientSettings_def)
qed

section \<open>Settings for a disabled service\<close>

text \<open>Settings that turn the service off leave it in the state in which its own events do not touch the
  machine.\<close>

lemma applied_asleep:
  "applied_settings c t \<Longrightarrow> stored_settings c t \<Longrightarrow> \<not> w_enabled c \<Longrightarrow> \<not> GlobalShutdown t \<Longrightarrow> asleep t"
  by (auto simp: applied_settings_def stored_settings_def asleep_def system_has_def setting_def)

text \<open>What the entries before the number of resolvers leave alone.\<close>

definition same_run :: "server \<Rightarrow> server \<Rightarrow> bool" where
  "same_run s t =
     (srv_heap t = srv_heap s \<and> mResolverPool t = mResolverPool s \<and> mResolverCache t = mResolverCache s \<and>
      mUpdatingDNS t = mUpdatingDNS s \<and> mScoreInternal t = mScoreInternal s \<and> mResolverCacheSize t = mResolverCacheSize s)"

lemma same_run_trans: "same_run s t \<Longrightarrow> same_run t u \<Longrightarrow> same_run s u"
  by (simp add: same_run_def)

lemma same_run_system: "with_system f s = Some (t, r) \<Longrightarrow> same_run s t"
  by (erule with_system_upd) (simp add: same_run_def)

lemma same_run_entry:
  assumes "data_entry env k v (s, n) = Some (t, n')" "k \<in> {''interface'', ''opennic_enabled'', ''refresh_timer_period''}"
  shows "same_run s t"
  using assms(2)
proof (elim insertE emptyE)
  assume "k = ''interface''"
  then show ?thesis using assms(1) by (auto simp: data_entry_def Let_def intro: same_run_system)
next
  assume "k = ''opennic_enabled''"
  with assms(1) obtain s1 old s3 msgs where s: "with_system (\<lambda>y. (y, sys_enabled y)) s = Some (s1, old)"
    "with_system (OsSystem.setEnabled (os env) (to_bool v))
       (note_change (to_bool v \<noteq> old) (if old then ''OpenNIC Disabled'' else ''OpenNIC Enabled'') s1) = Some (s3, msgs)"
    "t = log_all env msgs s3"
    by (auto simp: data_entry_def enable_system_def bind_eq_Some_conv Let_def)
  have noted: "same_run s1 (note_change b m s1)" for b m by (simp add: note_change_def same_run_def)
  have logged: "same_run s3 t" by (simp add: s(3) same_run_def)
  show ?thesis
    by (rule same_run_trans [OF same_run_system [OF s(1)] same_run_trans [OF noted
          same_run_trans [OF same_run_system [OF s(2)] logged]]])
next
  assume "k = ''refresh_timer_period''"
  with assms(1) show ?thesis
    by (auto simp: data_entry_def Let_def setRefreshPeriod_def note_change_def same_run_def stop_refresh_def start_refresh_def
        start_timer_msecs_def kill_timer_def split: if_splits)
qed

lemma writeSettings_frame:
  assumes "writeSettings env s = Some t"
  shows "same_run s t \<and> (\<exists>y y'. mSystem s = Some y \<and> mSystem t = Some y' \<and> files y' = files y \<and> sys_enabled y' = sys_enabled y)"
proof -
  define l where "l = log_msg env (''>> '' @ settings_file env) s"
  obtain s1 i s2 b where w: "with_system (interfaceName (os env)) l = Some (s1, i)"
    "with_system (\<lambda>y. (y, sys_enabled y)) s1 = Some (s2, b)"
    "t = (if save_status env = NoError then store_settings b i s2
          else log_msg env (''** SETTINGS '' @ settings_file env @ '' -'' @ settings_reason (save_status env)) s2)"
    using assms unfolding writeSettings_def l_def [symmetric] by (auto simp: bind_eq_Some_conv)
  from w(1) obtain y y1 where y: "mSystem l = Some y" "interfaceName (os env) y = (y1, i)" "s1 = l\<lparr>mSystem := Some y1\<rparr>"
    by (rule with_system_upd)
  have "s2 = s1" using w(2) y(3) by (auto simp: with_system_def)
  moreover have "files y1 = files y \<and> sys_enabled y1 = sys_enabled y"
    using y(2) by (auto simp: interfaceName_def Let_def split: if_splits)
  ultimately show ?thesis
    using w(3) y(1,3) by (auto simp: l_def same_run_def store_settings_def)
qed

definition rewritten :: "server \<Rightarrow> int \<Rightarrow> server \<Rightarrow> bool" where
  \<comment> \<open>disabled, and yet the best of the pool are active and in the resolver's configuration\<close>
  "rewritten s k t =
     ((\<exists>y. mSystem t = Some y \<and> \<not> sys_enabled y \<and>
        files y resolve_conf = Some (conf_text (map (host_of (srv_heap t)) (mResolverCache t)))) \<and>
      mResolverCache t = take (nat k) (mResolverPool t) \<and> mset (mResolverPool t) = mset (mResolverPool s))"

lemma size_rewrites:
  assumes "server_inv s" "enabled_is False s" "\<not> mUpdatingDNS s" "mScoreInternal s" "mResolverPool s \<noteq> []"
    "platform_of (os env) = Linux" "can_write (os env) resolve_conf" "0 < k" "mResolverCacheSize s \<noteq> k"
    "length (mResolverCache s) \<noteq> min (nat k) (length (mResolverPool s))"
  shows "\<exists>t. data_entry env ''resolver_cache_size'' (VInt k) (s, n) = Some (t, n) \<and> rewritten s k t"
proof -
  define l where "l = log_msg env (''** ACTIVE CACHE SET TO '' @ number k @ '' RESOLVERS **'')
      ((note_change (mResolverCacheSize s \<noteq> k) ''Settings Applied'' s)\<lparr>mResolverCacheSize := k\<rparr>)"
  have l: "mResolverCacheSize l = k" "mSystem l = mSystem s" "mResolverPool l = mResolverPool s"
    "mResolverCache l = mResolverCache s" "mUpdatingDNS l = mUpdatingDNS s" "mScoreInternal l = mScoreInternal s"
    by (simp_all add: l_def note_change_def)
  obtain y where y: "mSystem l = Some y" "\<not> sys_enabled y" using assms(2) l(2) by (auto simp: system_has_def)
  have "server_inv l" unfolding l_def
    by (rule server_inv_log, rule server_inv_cong [OF assms(1)]) (simp_all add: note_change_def)
  then have ok: "srv_ok [] l" unfolding server_inv_def by blast
  obtain t rc where u: "updateDNS env k l = Some (t, rc)" using updateDNS_returns [of l env k] y(1) by auto
  have pre: "\<not> mUpdatingDNS l" "mResolverPool l \<noteq> []" "mScoreInternal l" using assms(3-5) l by simp_all
  note r = updateDNS_linux [OF u ok pre assms(8,6,7) y(1)]
  let ?best = "take (nat k) (mResolverPool t)"
  have m: "mset (mResolverPool t) = mset (mResolverPool s)" using r l(3) by simp
  then have "length ?best = min (nat k) (length (mResolverPool s))" by (metis length_take min.commute mset_eq_length)
  then have "length ?best \<noteq> length (mResolverCache l)" using assms(10) l(4) by simp
  then have worth: "worth_replacing (host_of (srv_heap t)) ?best (mResolverCache l)"
    unfolding worth_replacing_def by presburger
  have "mResolverCache t = ?best \<and> (\<exists>y'. mSystem t = Some y' \<and>
      files y' = (files y)(resolve_conf \<mapsto> conf_text (map (host_of (srv_heap t)) ?best)))"
    using r worth unfolding Let_def by (simp only: if_True)
  then obtain y' where y': "mResolverCache t = ?best" "mSystem t = Some y'"
    "files y' = (files y)(resolve_conf \<mapsto> conf_text (map (host_of (srv_heap t)) ?best))" by blast
  have "enabled_is False t" using enabled_flag.updateDNS [OF u] y by (simp add: system_has_def)
  then have "\<not> sys_enabled y'" using y'(2) by (simp add: system_has_def)
  with y' m have "rewritten s k t" by (simp add: rewritten_def)
  moreover have "data_entry env ''resolver_cache_size'' (VInt k) (s, n) = Some (t, n)"
    using assms(8,9) u l(1) by (simp add: data_entry_def Let_def setResolverCacheSize_def note_change_def l_def)
  ultimately show ?thesis by blast
qed

lemma rewritten_cong:
  assumes "rewritten s k t" "same_run t u" "mSystem t = Some y" "mSystem u = Some y'" "files y' = files y" "sys_enabled y' = sys_enabled y"
  shows "rewritten s k u"
  using assms by (simp add: rewritten_def same_run_def)

lemma rewritten_from: "rewritten s' k t \<Longrightarrow> mResolverPool s' = mResolverPool s \<Longrightarrow> rewritten s k t"
  by (auto simp: rewritten_def)

lemma disabled_entries:
  assumes "server_inv s" "mSystem s \<noteq> None" "\<not> mUpdatingDNS s" "mScoreInternal s" "mResolverPool s \<noteq> []"
    "platform_of (os env) = Linux" "can_write (os env) resolve_conf" "window_ok c" "\<not> w_enabled c"
    "mResolverCacheSize s \<noteq> w_count c" "length (mResolverCache s) \<noteq> min (nat (w_count c)) (length (mResolverPool s))"
  shows "\<exists>t. data_entries env (settings_map c) (s, n) = Some (t, n) \<and> rewritten s (w_count c) t"
proof -
  have w: "0 \<le> w_refresh c" "int_ok (w_refresh c * 60 * 1000)" "0 < w_count c"
    using assms(8) by (simp_all add: window_ok_def int_ok_def)
  have "\<exists>s0. data_entries env (if w_iface c \<noteq> [] then [(''interface'', VStr (w_iface c))] else []) (s, n) = Some (s0, n) \<and>
      mSystem s0 \<noteq> None \<and> server_inv s0 \<and> same_run s s0"
  proof (cases "w_iface c = []")
    case True
    then show ?thesis using assms(1,2) by (simp add: same_run_def)
  next
    case False
    then show ?thesis using interface_entry [OF assms(2,1), of env "VStr (w_iface c)" n] same_run_entry by fastforce
  qed
  then obtain s0 where s0: "data_entries env (if w_iface c \<noteq> [] then [(''interface'', VStr (w_iface c))] else []) (s, n) = Some (s0, n)"
    "mSystem s0 \<noteq> None" "server_inv s0" "same_run s s0" by blast
  obtain s1 where s1: "data_entry env ''opennic_enabled'' (VBool False) (s0, n) = Some (s1, n)"
    "enabled_is False s1" "server_inv s1"
    using enabled_entry [OF s0(2,3)] by blast
  obtain s2 where s2: "data_entry env ''refresh_timer_period'' (VInt (w_refresh c)) (s1, n) = Some (s2, n)"
    "mSystem s2 = mSystem s1" "server_inv s2"
    using period_entry [OF w(1,2) s1(3)] by blast
  have "same_run s s2"
    by (rule same_run_trans [OF s0(4) same_run_trans [OF same_run_entry [OF s1(1)] same_run_entry [OF s2(1)]]]) simp_all
  then have f: "\<not> mUpdatingDNS s2" "mScoreInternal s2" "mResolverPool s2 = mResolverPool s"
    "mResolverCacheSize s2 \<noteq> w_count c" "length (mResolverCache s2) \<noteq> min (nat (w_count c)) (length (mResolverPool s2))"
    using assms(3,4,10,11) by (simp_all add: same_run_def)
  have e2: "enabled_is False s2" using s1(2) s2(2) by (simp add: system_has_def)
  have ne: "mResolverPool s2 \<noteq> []" using f(3) assms(5) by simp
  obtain s3 where s3: "data_entry env ''resolver_cache_size'' (VInt (w_count c)) (s2, n) = Some (s3, n)" "rewritten s2 (w_count c) s3"
    using size_rewrites [OF s2(3) e2 f(1,2) ne assms(6,7) w(3) f(4,5)] by blast
  define t where "t = s3\<lparr>mScoreInternal := w_builtin c, mScoreRules := w_rules c\<rparr>"
  have "data_entries env (settings_map c) (s, n) = Some (t, n)"
    using s0(1) s1(1) s2(1) s3(1) assms(9) by (simp add: settings_map_def data_entries_append score_entries t_def)
  moreover have "rewritten s (w_count c) t"
    using rewritten_from [OF s3(2) f(3)] by (auto simp: t_def rewritten_def)
  ultimately show ?thesis by blast
qed

text \<open>C23: A service that has been disabled still takes over the machine's resolvers: settings that turn it off
  and change the number of resolvers in one go make it restore \<open>resolv.conf\<close> and then, since the
  slot for the number runs an update without looking at the flag, write the best resolvers of its
  pool into it, on Linux with the built-in score and unless as many are active as before.\<close>

theorem disabled_rewrites:
  assumes applet: "reachable applet_init (applet_moves aenv) a" "isLive (mLocalNet (window a))" "\<not> w_enabled (window a)"
    and server: "server_inv s" "mSystem s \<noteq> None" "\<not> mUpdatingDNS s" "mScoreInternal s" "mResolverPool s \<noteq> []"
      "platform_of (os env) = Linux" "can_write (os env) resolve_conf"
    and count: "mResolverCacheSize s \<noteq> w_count (window a)"
      "length (mResolverCache s) \<noteq> min (nat (w_count (window a))) (length (mResolverPool s))"
    and session: "i < length (mSessions s)" "sock_in (mSessions s ! i) = []" "mRXState (mRXPacket (mSessions s ! i)) = 0"
      "isLive (mSessions s ! i)" "stream_ok (cl_put_map (a_env aenv)) (get_map env) (settings_map (window a))"
  shows "\<exists>b bytes t y. applet_step aenv (Press ApplyRole) a = Some b \<and>
    sock_out (mLocalNet (window b)) = sock_out (mLocalNet (window a)) @ bytes \<and> session_readable env i bytes s = Some t \<and>
    mSystem t = Some y \<and> \<not> sys_enabled y \<and>
    files y resolve_conf = Some (conf_text (map (host_of (srv_heap t)) (take (nat (w_count (window a))) (mResolverPool t))))"
proof -
  let ?c = "window a" and ?put = "cl_put_map (a_env aenv)"
  have ok: "window_ok ?c" using applet_life.reach_inv [OF applet(1)] .
  have sent: "sock_out (mLocalNet (update_settings (a_env aenv) ?c)) = sock_out (mLocalNet ?c) @ frame ?put (settings_map ?c)"
    using update_settings_sends [of ?c "a_env aenv"] net_okD [OF window_okD [OF ok]] applet(2) by simp
  have "\<exists>t. session_readable env i (frame ?put (settings_map ?c)) s = Some t \<and> rewritten s (w_count ?c) t"
  proof (rule session_readable_ready [OF session(1) refl session(2,3,5), of "rewritten s (w_count ?c)"])
    fix n' assume n': "mData (mRXPacket n') = settings_map ?c" "isLive n' = isLive (mSessions s ! i)"
    obtain s1 where s1: "data_entries env (settings_map ?c) (s, n') = Some (s1, n')" "rewritten s (w_count ?c) s1"
      using disabled_entries [OF server ok applet(3) count] by blast
    then have "mSystem s1 \<noteq> None" by (auto simp: rewritten_def)
    then obtain t where t: "writeSettings env s1 = Some t" using writeSettings_returns by blast
    then have "rewritten s (w_count ?c) t" using writeSettings_frame [OF t] rewritten_cong [OF s1(2)] by blast
    with s1(1) t n' session(4) show "\<exists>t n''. dataReady env (s, n') = Some (t, n'') \<and> rewritten s (w_count ?c) t"
      by (simp add: dataReady_def)
  qed (auto simp: settings_map_def rewritten_def)
  then obtain t where t: "session_readable env i (frame ?put (settings_map ?c)) s = Some t" "rewritten s (w_count ?c) t" by blast
  from t(2) obtain y where "mSystem t = Some y" "\<not> sys_enabled y"
    "files y resolve_conf = Some (conf_text (map (host_of (srv_heap t)) (take (nat (w_count ?c)) (mResolverPool t))))"
    unfolding rewritten_def by auto
  then show ?thesis using sent t(1) by (auto simp: on_window_def clicked_def)
qed

section \<open>Polling the service\<close>

lemma pollKeyValue_still:
  assumes "platform_of (os env) = Linux" "mSystem s = Some y" "mTestDomains y \<noteq> []" "mInterfaceName y \<noteq> []"
  shows "\<exists>v. pollKeyValue env k s = Some (s, v) \<and> (k \<in> set all_keys \<longrightarrow> v \<noteq> None)"
proof -
  have "getTestDomains (os env) y = (y, mTestDomains y)" using assms(3) by (simp add: getTestDomains_def)
  moreover have "interfaceName (os env) y = (y, mInterfaceName y)" using assms(4) by (simp add: interfaceName_def)
  moreover obtain l where "getSystemResolverList (os env) y = (y, l)"
    using assms(1) by (auto simp: getSystemResolverList_def linux_getSystemResolverList_def)
  moreover have "s\<lparr>mSystem := Some y\<rparr> = s" using assms(2) by simp
  ultimately show ?thesis using assms(2)
    by (auto simp: pollKeyValue_def with_system_def all_keys_def)
qed

lemma poll_slot_still:
  "pollKeyValue env k s = Some (s, v) \<Longrightarrow> poll_slot env k (Some s) = (Some s, v)"
  by (simp add: poll_slot_def)

text \<open>The map of the answer: what the service has for each key.\<close>

fun answer_of :: "server_env \<Rightarrow> server \<Rightarrow> string list \<Rightarrow> data_map \<Rightarrow> data_map" where
  "answer_of env s [] m = m"
| "answer_of env s (k # ks) m =
     answer_of env s ks (case pollKeyValue env k s of Some (_, Some v) \<Rightarrow> qinsert k v m | _ \<Rightarrow> m)"

lemma poll_values_answer:
  "\<forall>k \<in> set keys. \<exists>v. pollKeyValue env k s = Some (s, v) \<Longrightarrow>
   \<exists>n1. poll_values (poll_slot env) keys (Some s, n) = (Some s, n1) \<and>
     mData (mTXPacket n1) = answer_of env s keys (mData (mTXPacket n))"
proof (induction keys arbitrary: n)
  case (Cons k ks)
  then obtain v where v: "pollKeyValue env k s = Some (s, v)" by auto
  with Cons.IH [of "case v of Some x \<Rightarrow> tx_set k x n | None \<Rightarrow> n"] Cons.prems show ?case
    by (cases v) (auto simp: poll_slot_def)
qed simp

lemma answer_of_lookup:
  "\<forall>k \<in> set keys. \<exists>v. pollKeyValue env k s = Some (s, Some v) \<Longrightarrow>
   qlookup (answer_of env s keys m) k =
     (if k \<in> set keys then map_option (the \<circ> snd) (pollKeyValue env k s) else qlookup m k)"
  by (induction keys arbitrary: m) auto

lemma answer_of_ok: "qmap_ok m \<Longrightarrow> qmap_ok (answer_of env s keys m)"
  by (induction keys arbitrary: m) (auto split: option.splits prod.splits)

lemma poll_answered:
  assumes "platform_of (os env) = Linux" "mSystem s = Some y" "mTestDomains y \<noteq> []" "mInterfaceName y \<noteq> []"
    "i < length (mSessions s)" "sock_in (mSessions s ! i) = []" "mRXState (mRXPacket (mSessions s ! i)) = 0"
    "isLive (mSessions s ! i)" "sock_valid (mSessions s ! i)" "mData (mTXPacket (mSessions s ! i)) = []"
    "stream_ok put (get_map env) [(''poll_keys'', VList keys)]"
  shows "\<exists>n1. session_readable env i (frame put [(''poll_keys'', VList keys)]) s =
      Some (s\<lparr>mSessions := (mSessions s)[i := n1]\<rparr>) \<and>
    sock_out n1 = sock_out (mSessions s ! i) @ frame (put_map env) (answer_of env s keys [])"
proof -
  let ?n = "mSessions s ! i" and ?bytes = "frame put [(''poll_keys'', VList keys)]"
  obtain p where p: "recv (get_map env) (?bytes @ []) (mRXPacket ?n) = (p, [], True)"
    "mData p = [(''poll_keys'', VList keys)]"
    using recv_coalesced [OF assms(7,11), of "[]"] by auto
  define n0 where "n0 = ?n\<lparr>mRXPacket := p, sock_in := []\<rparr>"
  have n0: "mData (mRXPacket n0) = [(''poll_keys'', VList keys)]" "isLive n0" "sock_valid n0"
    "mData (mTXPacket n0) = []" "sock_out n0 = sock_out ?n"
    using assms(8-10) p(2) by (simp_all add: n0_def isLive_def)
  obtain n1 where n1: "poll_values (poll_slot env) keys (Some s, n0) = (Some s, n1)"
    "mData (mTXPacket n1) = answer_of env s keys []"
    using poll_values_answer [of keys env s n0] pollKeyValue_still [OF assms(1-4)] n0(4) by metis
  note f = poll_values_frame [OF n1(1)]
  have "isLive n1" "sock_valid n1" using f n0 by (simp_all add: isLive_def)
  then have out: "sock_out (net_send (put_map env) True n1) = sock_out ?n @ frame (put_map env) (answer_of env s keys [])"
    using net_send_out [of n1 "put_map env" True] n1(2) f n0(5) by simp
  have "net_dataReady (put_map env) (poll_slot env) (ready_slot env) (Some s, n0) = (Some s, net_send (put_map env) True n1)"
    using n0(1) n1(1) by (simp add: net_dataReady_def)
  then have "readyRead (put_map env) (get_map env) (poll_slot env) (ready_slot env) (Some s, ?n\<lparr>sock_in := sock_in ?n @ ?bytes\<rparr>)
      = (Some s, net_send (put_map env) True n1)"
    using p(1) assms(6) by (simp add: readyRead_def n0_def)
  then show ?thesis using assms(5) out by (auto simp: session_readable_def)
qed

text \<open>C13: a poll is answered: on a Linux machine with the test domains and the interface known, the
  bytes \<open>pollAllKeys\<close> writes make a live session send one frame, whose map has for each
  requested key the value the service has for it at that moment, and no other key; nothing but
  the session changes.\<close>

theorem poll_served:
  assumes "platform_of (os env) = Linux" "mSystem s = Some y" "mTestDomains y \<noteq> []" "mInterfaceName y \<noteq> []"
    "i < length (mSessions s)" "sock_in (mSessions s ! i) = []" "mRXState (mRXPacket (mSessions s ! i)) = 0"
    "isLive (mSessions s ! i)" "sock_valid (mSessions s ! i)" "mData (mTXPacket (mSessions s ! i)) = []"
    "isLive (mLocalNet c)" "sock_valid (mLocalNet c)" "mData (mTXPacket (mLocalNet c)) = []"
    "sock_out (mLocalNet (pollAllKeys cenv c)) = sock_out (mLocalNet c) @ bytes"
    "stream_ok (cl_put_map cenv) (get_map env) [(''poll_keys'', VList all_keys)]"
  shows "\<exists>n1 reply. session_readable env i bytes s = Some (s\<lparr>mSessions := (mSessions s)[i := n1]\<rparr>) \<and>
    sock_out n1 = sock_out (mSessions s ! i) @ frame (put_map env) reply \<and>
    (\<forall>k \<in> set all_keys. \<exists>v. pollKeyValue env k s = Some (s, Some v) \<and> qlookup reply k = Some v) \<and>
    (\<forall>k. k \<notin> set all_keys \<longrightarrow> qlookup reply k = None)"
proof -
  have bytes: "bytes = frame (cl_put_map cenv) [(''poll_keys'', VList all_keys)]"
    using poll_sends [OF assms(11-13)] assms(14) by (simp add: pollAllKeys_def)
  have all: "\<forall>k \<in> set all_keys. \<exists>v. pollKeyValue env k s = Some (s, Some v)"
    using pollKeyValue_still [OF assms(1-4)] by (metis option.exhaust)
  note look = answer_of_lookup [OF all, of "[]"]
  obtain n1 where "session_readable env i bytes s = Some (s\<lparr>mSessions := (mSessions s)[i := n1]\<rparr>)"
    "sock_out n1 = sock_out (mSessions s ! i) @ frame (put_map env) (answer_of env s all_keys [])"
    using poll_answered [OF assms(1-10,15)] bytes by blast
  moreover have "\<forall>k \<in> set all_keys. \<exists>v. pollKeyValue env k s = Some (s, Some v) \<and>
      qlookup (answer_of env s all_keys []) k = Some v"
  proof
    fix k assume k: "k \<in> set all_keys"
    then obtain v where "pollKeyValue env k s = Some (s, Some v)" using all by blast
    then show "\<exists>v. pollKeyValue env k s = Some (s, Some v) \<and> qlookup (answer_of env s all_keys []) k = Some v"
      using k look [of k] by simp
  qed
  moreover have "\<forall>k. k \<notin> set all_keys \<longrightarrow> qlookup (answer_of env s all_keys []) k = None" using look by simp
  ultimately show ?thesis by blast
qed

section \<open>The dialog after a poll\<close>

text \<open>A row of the table, but for its score bar, and what it shows of a resolver.\<close>

definition row_cells :: "table_row \<Rightarrow> string option \<times> string option \<times> string option" where
  "row_cells r = (row_ip r, row_kind r, map_option fst (row_status r))"

definition resolver_cells :: "heap \<Rightarrow> nat \<Rightarrow> string option \<times> string option \<times> string option" where
  "resolver_cells h a =
     (Some (host_of h a), Some (mKind (objs h a)), Some (status_label (Resolver.status (objs h a))))"

text \<open>What the dialog shows after an answer, given what it showed before (\<open>c0\<close>).\<close>

definition mirrors :: "client_env \<Rightarrow> server_env \<Rightarrow> sys \<Rightarrow> server \<Rightarrow> client \<Rightarrow> client \<Rightarrow> bool" where
  "mirrors cenv env y s c0 c =
     (cl_port c = mTcpListenPort s \<and> w_refresh c = spin 1 9999 (mRefreshTimerPeriod s) \<and>
      w_count c = spin 1 100 (mResolverCacheSize s) \<and>
      (steady_table c0 \<longrightarrow> image_mset row_cells (mset (w_table c)) =
        image_mset (resolver_cells (srv_heap s)) (mset (mResolverPool s))) \<and>
      w_cache c = join_with [nl] (map (host_of (srv_heap s)) (mResolverCache s)) \<and>
      w_t1 c = join_with [nl] (getBootstrapT1List (os env) (files y)) \<and>
      w_domains c = join_with [nl] (pool_toStringList (mTestDomains y)) \<and>
      w_system c = join_with [nl] (snd (getSystemResolverList (os env) y)) \<and>
      (\<exists>old. w_journal c = old @ mLog s) \<and> (mScoreRules s \<noteq> [] \<longrightarrow> w_rules c = mScoreRules s) \<and>
      w_builtin c = check_radio cenv (w_builtin c0) (mScoreInternal s) \<and>
      w_ifaces c = interface_names (os env) \<and>
      w_iface c = selected (mInterfaceName y) (interface_names (os env)) c0 \<and>
      w_enabled c = sys_enabled y)"

text \<open>What the service answers to the keys of \<open>pollAllKeys\<close>.\<close>

lemma answers:
  assumes "platform_of (os env) = Linux" "mSystem s = Some y" "mTestDomains y \<noteq> []" "mInterfaceName y \<noteq> []"
  shows "pollKeyValue env ''tcp_listen_port'' s = Some (s, Some (VInt (mTcpListenPort s)))"
    "pollKeyValue env ''refresh_timer_period'' s = Some (s, Some (VInt (mRefreshTimerPeriod s)))"
    "pollKeyValue env ''resolver_cache_size'' s = Some (s, Some (VInt (mResolverCacheSize s)))"
    "pollKeyValue env ''resolver_pool'' s = Some (s, Some (VList (pool_toStrings (fmt_double env) (srv_heap s) (mResolverPool s))))"
    "pollKeyValue env ''resolver_cache'' s = Some (s, Some (VList (pool_toStrings (fmt_double env) (srv_heap s) (mResolverCache s))))"
    "pollKeyValue env ''bootstrap_t1_list'' s = Some (s, Some (VList (getBootstrapT1List (os env) (files y))))"
    "pollKeyValue env ''bootstrap_domains'' s = Some (s, Some (VList (pool_toStringList (mTestDomains y))))"
    "pollKeyValue env ''journal_text'' s = Some (s, Some (VList (mLog s)))"
    "pollKeyValue env ''score_rules'' s = Some (s, Some (VStr (mScoreRules s)))"
    "pollKeyValue env ''opennic_enabled'' s = Some (s, Some (VBool (sys_enabled y)))"
    "pollKeyValue env ''interface_list'' s = Some (s, Some (VList (interface_names (os env))))"
    "pollKeyValue env ''interface'' s = Some (s, Some (VStr (mInterfaceName y)))"
    "pollKeyValue env ''system_text'' s = Some (s, Some (VList (snd (getSystemResolverList (os env) y))))"
    "pollKeyValue env ''score_internal'' s = Some (s, Some (VBool (mScoreInternal s)))"
proof -
  have "getTestDomains (os env) y = (y, mTestDomains y)" using assms(3) by (simp add: getTestDomains_def)
  moreover have "interfaceName (os env) y = (y, mInterfaceName y)" using assms(4) by (simp add: interfaceName_def)
  moreover obtain l where "getSystemResolverList (os env) y = (y, l)"
    using assms(1) by (simp add: getSystemResolverList_def linux_getSystemResolverList_def)
  moreover have "s\<lparr>mSystem := Some y\<rparr> = s" using assms(2) by simp
  ultimately show "pollKeyValue env ''tcp_listen_port'' s = Some (s, Some (VInt (mTcpListenPort s)))"
    "pollKeyValue env ''refresh_timer_period'' s = Some (s, Some (VInt (mRefreshTimerPeriod s)))"
    "pollKeyValue env ''resolver_cache_size'' s = Some (s, Some (VInt (mResolverCacheSize s)))"
    "pollKeyValue env ''resolver_pool'' s = Some (s, Some (VList (pool_toStrings (fmt_double env) (srv_heap s) (mResolverPool s))))"
    "pollKeyValue env ''resolver_cache'' s = Some (s, Some (VList (pool_toStrings (fmt_double env) (srv_heap s) (mResolverCache s))))"
    "pollKeyValue env ''bootstrap_t1_list'' s = Some (s, Some (VList (getBootstrapT1List (os env) (files y))))"
    "pollKeyValue env ''bootstrap_domains'' s = Some (s, Some (VList (pool_toStringList (mTestDomains y))))"
    "pollKeyValue env ''journal_text'' s = Some (s, Some (VList (mLog s)))"
    "pollKeyValue env ''score_rules'' s = Some (s, Some (VStr (mScoreRules s)))"
    "pollKeyValue env ''opennic_enabled'' s = Some (s, Some (VBool (sys_enabled y)))"
    "pollKeyValue env ''interface_list'' s = Some (s, Some (VList (interface_names (os env))))"
    "pollKeyValue env ''interface'' s = Some (s, Some (VStr (mInterfaceName y)))"
    "pollKeyValue env ''system_text'' s = Some (s, Some (VList (snd (getSystemResolverList (os env) y))))"
    "pollKeyValue env ''score_internal'' s = Some (s, Some (VBool (mScoreInternal s)))"
    using assms(2) by (simp_all add: pollKeyValue_def with_system_def)
qed

lemma answer_of_distinct: "distinct (map fst (answer_of env s keys []))"
  using answer_of_ok [of "[]" env s keys] by (auto simp: qmap_ok_def strict_sorted_iff)

lemma answer_of_entries:
  assumes "\<forall>k \<in> set keys. \<exists>v. pollKeyValue env k s = Some (s, Some v)"
  shows "(k, v) \<in> set (answer_of env s keys []) \<longleftrightarrow> k \<in> set keys \<and> pollKeyValue env k s = Some (s, Some v)"
proof -
  have "(k, v) \<in> set (answer_of env s keys []) \<longleftrightarrow> qlookup (answer_of env s keys []) k = Some v"
    using answer_of_distinct [of env s keys] by (simp add: map_of_eq_Some_iff)
  also have "\<dots> \<longleftrightarrow> k \<in> set keys \<and> pollKeyValue env k s = Some (s, Some v)"
    using answer_of_lookup [OF assms, of "[]" k] assms by auto
  finally show ?thesis .
qed

text \<open>An applet that has handled the whole answer.\<close>

lemma mirrors_cong:
  "w_builtin d = w_builtin c0 \<Longrightarrow> w_ifaces d = w_ifaces c0 \<Longrightarrow> w_iface d = w_iface c0 \<Longrightarrow> steady_table d = steady_table c0 \<Longrightarrow>
   mirrors cenv env y s d c = mirrors cenv env y s c0 c"
  by (simp add: mirrors_def selected_def)

lemma answer_shown:
  assumes sys: "platform_of (os env) = Linux" "mSystem s = Some y" "mTestDomains y \<noteq> []" "mInterfaceName y \<noteq> []"
    and plain: "\<forall>a \<in> set (mResolverPool s @ mResolverCache s). plain_line (fmt_double env) (objs (srv_heap s) a)"
      "\<forall>a \<in> set (mResolverPool s). thousandth cenv (fmt_double env) (srv_heap s) a \<noteq> None"
    and c: "window_ok c" "sorts_rows cenv"
  shows "\<exists>c'. client_entries cenv (answer_of env s all_keys []) c = Some c' \<and> mirrors cenv env y s c c'"
proof -
  let ?fmt = "fmt_double env" and ?h = "srv_heap s"
  define m where "m = answer_of env s all_keys []"
  have all: "\<forall>k \<in> set all_keys. \<exists>v. pollKeyValue env k s = Some (s, Some v)"
    using pollKeyValue_still [OF sys] by (metis option.exhaust)
  note look = answer_of_entries [OF all, folded m_def]
  have d: "distinct (map fst m)" "qmap_ok m" using answer_of_ok [of "[]"] by (simp_all add: m_def answer_of_distinct qmap_ok_def)
  note ans = answers [OF sys, of]
  have drawn: "\<forall>a \<in> set (mResolverPool s). plain_line ?fmt (objs ?h a) \<and> thousandth cenv ?fmt ?h a \<noteq> None"
    using plain by simp
  have "\<forall>(k, v) \<in> set m. (k = ''resolver_pool'' \<longrightarrow> drawn_pool cenv ?fmt ?h v) \<and> (k = ''resolver_cache'' \<longrightarrow> plain_pool ?fmt ?h v)"
    using plain drawn by (auto simp: look ans plain_pool_def drawn_pool_def)
  from entries_return [OF this, of c] obtain c' where c': "client_entries cenv m c = Some c'" by (rule exE)
  have S: "shown cenv (steady_table c) k v c'" if "k \<in> set all_keys" "pollKeyValue env k s = Some (s, Some v)" for k v
    using entries_show [OF c' d(1) c(1)] c(2) look that by blast
  have k: "set all_keys = {''tcp_listen_port'', ''refresh_timer_period'', ''resolver_cache_size'', ''resolver_cache'',
      ''resolver_pool'', ''bootstrap_t1_list'', ''bootstrap_domains'', ''system_text'',
      ''journal_text'', ''score_rules'', ''score_internal'', ''interface_list'', ''interface'', ''opennic_enabled''}"
    by (simp add: all_keys_def)
  have "image_mset row_cells (mset (w_table c')) = image_mset (resolver_cells ?h) (mset (mResolverPool s))"
    if "steady_table c"
  proof -
    have "pool_shown cenv (pool_toStrings ?fmt ?h (mResolverPool s)) (w_table c')"
      using S [OF _ ans(4)] that by (simp add: k shown_def)
    then obtain ends where "mset (w_table c') = mset (map (pool_row cenv ?fmt ?h ends) (mResolverPool s))"
      using pool_rows [OF drawn] by (auto simp: pool_shown_def)
    then show ?thesis
      by (simp add: image_mset.compositionality comp_def row_cells_def [abs_def] resolver_cells_def [abs_def] pool_row_def)
  qed
  moreover have "w_cache c' = join_with [nl] (map (host_of ?h) (mResolverCache s))"
    using S [OF _ ans(5)] hosts_of_lines [of "mResolverCache s" ?fmt ?h] plain(1) by (simp add: k shown_def)
  moreover have "cl_port c' = mTcpListenPort s" using S [OF _ ans(1)] by (simp add: k shown_def)
  moreover have "w_refresh c' = spin 1 9999 (mRefreshTimerPeriod s)" using S [OF _ ans(2)] by (simp add: k shown_def)
  moreover have "w_count c' = spin 1 100 (mResolverCacheSize s)" using S [OF _ ans(3)] by (simp add: k shown_def)
  moreover have "w_t1 c' = join_with [nl] (getBootstrapT1List (os env) (files y))"
    using S [OF _ ans(6)] by (simp add: k shown_def)
  moreover have "w_domains c' = join_with [nl] (pool_toStringList (mTestDomains y))"
    using S [OF _ ans(7)] by (simp add: k shown_def)
  moreover have "w_system c' = join_with [nl] (snd (getSystemResolverList (os env) y))"
    using S [OF _ ans(13)] by (simp add: k shown_def)
  moreover have "\<exists>old. w_journal c' = old @ mLog s" using S [OF _ ans(8)] by (simp add: k shown_def)
  moreover have "mScoreRules s \<noteq> [] \<longrightarrow> w_rules c' = mScoreRules s" using S [OF _ ans(9)] by (simp add: k shown_def)
  moreover have "w_enabled c' = sys_enabled y" using S [OF _ ans(10)] by (simp add: k shown_def)
  moreover have "w_ifaces c' = interface_names (os env)" using S [OF _ ans(11)] by (simp add: k shown_def)
  moreover have "w_builtin c' = check_radio cenv (w_builtin c) (mScoreInternal s)"
    using entries_builtin [OF c' d(1), of "VBool (mScoreInternal s)"] by (simp add: look ans k)
  moreover have "w_iface c' = selected (mInterfaceName y) (interface_names (os env)) c"
    using entries_iface [OF c' d(2)] by (simp add: look ans k)
  ultimately have "mirrors cenv env y s c c'" unfolding mirrors_def by blast
  then show ?thesis using c' by (auto simp: m_def)
qed

text \<open>C9: The applet shows what the service has: when an applet, in whatever state it can be in,
  connects to a service on Linux whose test domains and interface are known, the session answers
  its poll with one frame, and once the applet has handled that frame its dialog shows the
  service's port, refresh period, number of resolvers (both as far as the boxes can hold them),
  every resolver of the active list in order, the bootstrap list, the domains, the system's own
  list of servers, the whole log, the score rules (unless the service has none), the interfaces
  and the enabled flag; and, unless the user has sorted the table by another column than the score's, one row for every resolver
  of the pool, with its address, kind and status. Two values are shown as the widgets take them: the button for the kind
  of score, which as an exclusive radio button may stay on, and the interface, which is looked for
  in the list the box had before the answer, so that on a first connection the first interface of
  the new list is selected. No field of a resolver may contain the separator, the thousandfold of
  every score must fit an int, and sorting must only rearrange the rows.\<close>

theorem display_in_sync:
  assumes applet: "reachable applet_init (applet_moves aenv) a" "isLive (mLocalNet (window a))"
      "sock_in (mLocalNet (window a)) = []"
    and system: "platform_of (os env) = Linux" "mSystem s = Some y" "mTestDomains y \<noteq> []" "mInterfaceName y \<noteq> []"
    and session: "i < length (mSessions s)" "sock_in (mSessions s ! i) = []" "mRXState (mRXPacket (mSessions s ! i)) = 0"
      "isLive (mSessions s ! i)" "sock_valid (mSessions s ! i)" "mData (mTXPacket (mSessions s ! i)) = []"
    and plain: "\<forall>r \<in> set (mResolverPool s @ mResolverCache s). plain_line (fmt_double env) (objs (srv_heap s) r)"
      "\<forall>r \<in> set (mResolverPool s). thousandth (a_env aenv) (fmt_double env) (srv_heap s) r \<noteq> None"
      "sorts_rows (a_env aenv)"
    and format: "stream_ok (cl_put_map (a_env aenv)) (get_map env) [(''poll_keys'', VList all_keys)]"
      "stream_ok (put_map env) (a_get aenv) (answer_of env s all_keys [])"
  shows "\<exists>a1 bytes n1 reply a2. applet_step aenv SocketConnected a = Some a1 \<and>
    sock_out (mLocalNet (window a1)) = sock_out (mLocalNet (window a)) @ bytes \<and>
    session_readable env i bytes s = Some (s\<lparr>mSessions := (mSessions s)[i := n1]\<rparr>) \<and>
    sock_out n1 = sock_out (mSessions s ! i) @ reply \<and>
    applet_step aenv (Incoming reply) a1 = Some a2 \<and> mirrors (a_env aenv) env y s (window a) (window a2)"
proof -
  let ?poll = "frame (cl_put_map (a_env aenv)) [(''poll_keys'', VList all_keys)]"
  define m where "m = answer_of env s all_keys []"
  define a1 where "a1 = on_window (tcpConnected (a_env aenv)) a"
  have step: "applet_step aenv SocketConnected a = Some a1" by (simp add: a1_def)
  have ok: "window_ok (window a)" "window_ok (window a1)"
    using applet_life.reach_inv [OF applet(1)] applet_life.reach_inv [OF reach_step [OF applet(1) step]] by blast+
  note sent = connected_ok [OF ok(1) applet(2), of "a_env aenv"]
  have a1: "sock_in (mLocalNet (window a1)) = []" "w_ifaces (window a1) = w_ifaces (window a)"
    "w_iface (window a1) = w_iface (window a)" "w_builtin (window a1) = w_builtin (window a)"
    "w_sorting (window a1) = w_sorting (window a)" "w_sort (window a1) = w_sort (window a)"
    using applet(3) by (simp_all add: a1_def on_window_def tcpConnected_def pollAllKeys_def setEnabledState_def poll_for_def
        cl_set_def cl_send_def)
      (simp add: net_send_def net_clear_def packet_send_def Let_def)
  obtain n1 where n1: "session_readable env i ?poll s = Some (s\<lparr>mSessions := (mSessions s)[i := n1]\<rparr>)"
    "sock_out n1 = sock_out (mSessions s ! i) @ frame (put_map env) m"
    using poll_answered [OF system session format(1)] by (auto simp: m_def)
  have all: "\<forall>k \<in> set all_keys. \<exists>v. pollKeyValue env k s = Some (s, Some v)"
    using pollKeyValue_still [OF system] by (metis option.exhaust)
  have "''poll_keys'' \<notin> set all_keys" "''tcp_listen_port'' \<in> set all_keys" by (simp_all add: all_keys_def)
  then have "qlookup m ''poll_keys'' = None" "qlookup m ''tcp_listen_port'' \<noteq> None"
    using answer_of_lookup [OF all, of "[]"] answers(1) [OF system] by (simp_all add: m_def)
  then have m: "\<forall>e \<in> set m. fst e \<noteq> ''poll_keys''" "m \<noteq> []" by (auto simp: map_of_eq_None_iff image_iff)
  define shows_it where "shows_it c = mirrors (a_env aenv) env y s (window a) c" for c
  have "\<exists>a2. incoming aenv (frame (put_map env) m) a1 = Some a2 \<and> shows_it (window a2)"
  proof (rule incoming_frame [OF a1(1) _ format(2) [folded m_def] m])
    show "mRXState (mRXPacket (mLocalNet (window a1))) = 0" using sent(5) by (simp add: a1_def on_window_def)
    fix n
    assume n: "isLive n = isLive (mLocalNet (window a1))" "sock_valid n = sock_valid (mLocalNet (window a1))"
      "mData (mTXPacket n) = mData (mTXPacket (mLocalNet (window a1)))" "mRXState (mRXPacket n) = 0"
    then have "net_ok n" using window_okD [OF ok(2)] by (simp add: net_ok_def)
    then have "window_ok ((window a1)\<lparr>mLocalNet := n, mBalloonStatus := []\<rparr>)"
      using window_ok_net [OF ok(2)] by simp
    from answer_shown [OF system plain(1,2) this plain(3)]
    show "\<exists>c. client_entries (a_env aenv) m ((window a1)\<lparr>mLocalNet := n, mBalloonStatus := []\<rparr>) = Some c \<and> shows_it c"
      using mirrors_cong [of "(window a1)\<lparr>mLocalNet := n, mBalloonStatus := []\<rparr>" "window a"] a1
      by (simp add: m_def shows_it_def steady_table_def)
  qed
  then obtain a2 where "applet_step aenv (Incoming (frame (put_map env) m)) a1 = Some a2" "shows_it (window a2)" by auto
  moreover have "sock_out (mLocalNet (window a1)) = sock_out (mLocalNet (window a)) @ ?poll"
    using sent(1) by (simp add: a1_def on_window_def)
  ultimately show ?thesis using step n1 unfolding shows_it_def by blast
qed

section \<open>The first answer of a disabled service\<close>

definition sends_more :: "client \<Rightarrow> client \<Rightarrow> bool" where
  \<comment> \<open>what was written before is still first on the wire\<close>
  "sends_more c c' = (\<exists>r. sock_out (mLocalNet c') = sock_out (mLocalNet c) @ r)"

lemma sends_more_refl [simp]: "mLocalNet c' = mLocalNet c \<Longrightarrow> sends_more c c'"
  by (simp add: sends_more_def)

lemma sends_more_trans: "sends_more a b \<Longrightarrow> sends_more b c \<Longrightarrow> sends_more a c"
  by (auto simp: sends_more_def)

lemma update_settings_more:
  "mLocalNet c = mLocalNet d \<Longrightarrow> sends_more d (update_settings env c)"
  by (simp add: sends_more_def update_settings_def Let_def cl_set_def cl_send_def net_send_def packet_send_def net_clear_def)

lemma client_entry_more: "client_entry env k v c = Some c' \<Longrightarrow> sends_more c c'"
  unfolding client_entry_def
  by (auto simp: bind_eq_Some_conv updateResolverPool_def sortByColumn_def enable_sorting_def set_interface_list_def
      set_interface_box_def set_enabled_box_def split: if_splits intro: update_settings_more)

lemma client_entries_more: "client_entries env es c = Some c' \<Longrightarrow> sends_more c c'"
proof (induction es arbitrary: c)
  case (Cons e es)
  obtain k v where e: "e = (k, v)" by (cases e)
  with Cons.prems obtain c1 where "client_entry env k v c = Some c1" "client_entries env es c1 = Some c'"
    by (auto simp: bind_eq_Some_conv)
  then show ?case using client_entry_more Cons.IH sends_more_trans by blast
qed simp

text \<open>The entries of a full answer up to the enabled flag, in key order.\<close>

definition answer_head :: "string list \<Rightarrow> string list \<Rightarrow> string \<Rightarrow> string list \<Rightarrow> string list \<Rightarrow> data_map" where
  "answer_head domains t1 iface ifaces journal =
     [(''bootstrap_domains'', VList domains), (''bootstrap_t1_list'', VList t1), (''interface'', VStr iface),
      (''interface_list'', VList ifaces), (''journal_text'', VList journal), (''opennic_enabled'', VBool False)]"

text \<open>The dialog as it is set up, but for the box unchecked and the first interface selected.\<close>

definition initial_dialog :: "net \<Rightarrow> string list \<Rightarrow> client" where
  "initial_dialog n ifaces =
     (new_client n)\<lparr>w_iface := (case ifaces of [] \<Rightarrow> [] | i # _ \<Rightarrow> i), w_enabled := False\<rparr>"

lemma settings_map_cong:
  "w_iface d = w_iface c \<Longrightarrow> w_enabled d = w_enabled c \<Longrightarrow> w_refresh d = w_refresh c \<Longrightarrow> w_count d = w_count c \<Longrightarrow>
   w_builtin d = w_builtin c \<Longrightarrow> w_rules d = w_rules c \<Longrightarrow> settings_map d = settings_map c"
  by (simp add: settings_map_def)

lemma answer_head_entries:
  "\<exists>d. client_entries env (answer_head domains t1 iface ifaces journal) (new_client n) = Some (update_settings env d) \<and>
    mLocalNet d = n \<and> settings_map d = settings_map (initial_dialog n ifaces)"
proof -
  define c1 where "c1 = set_interface_list ifaces ((new_client n)\<lparr>w_domains := join_with [nl] domains, w_t1 := join_with [nl] t1\<rparr>)"
  define d where "d = c1\<lparr>w_journal := show_journal [] journal, w_enabled := False\<rparr>"
  have "client_entries env (answer_head domains t1 iface ifaces journal) (new_client n) = Some (update_settings env d)"
    by (simp add: answer_head_def client_entry_def set_interface_box_def set_enabled_box_def d_def c1_def
        set_interface_list_def new_client_def)
  moreover have "settings_map d = settings_map (initial_dialog n ifaces)"
    by (rule settings_map_cong)
      (simp_all add: d_def c1_def initial_dialog_def set_interface_list_def new_client_def)
  ultimately show ?thesis by (intro exI [of _ d]) (simp add: d_def c1_def set_interface_list_def new_client_def)
qed

text \<open>C22: a service that is disabled loses its settings when an applet connects: the answer to the
  first poll unchecks the enabled box before the other values have been shown, so the applet
  at once sends the dialog's initial ones, and the service takes a refresh period of 5 minutes,
  3 resolvers and empty score rules, and saves them.\<close>

theorem first_answer_overwrites:
  assumes shown: "client_entries cenv (answer_head domains t1 iface ifaces journal @ others) (new_client net) = Some c"
    and up: "isLive net" "sock_valid net" "mData (mTXPacket net) = []" "sock_out net = []"
    and srv: "server_inv s" "mSystem s \<noteq> None" "i < length (mSessions s)" "sock_in (mSessions s ! i) = []"
      "mRXState (mRXPacket (mSessions s ! i)) = 0" "isLive (mSessions s ! i)" "save_status env = NoError"
    and fmt: "stream_ok (cl_put_map cenv) (get_map env) (settings_map (initial_dialog net ifaces))"
  shows "\<exists>bytes rest t. sock_out (mLocalNet c) = bytes @ rest \<and> session_readable env i bytes s = Some t \<and>
    mRefreshTimerPeriod t = 5 \<and> mResolverCacheSize t = 3 \<and> mScoreRules t = [] \<and>
    settings t ''refresh_timer_period'' = Some (VInt 5) \<and> settings t ''resolver_cache_size'' = Some (VInt 3) \<and>
    settings t ''score_rules'' = Some (VStr [])"
proof -
  let ?i = "initial_dialog net ifaces"
  obtain d where d: "client_entries cenv (answer_head domains t1 iface ifaces journal) (new_client net) = Some (update_settings cenv d)"
    "mLocalNet d = net" "settings_map d = settings_map ?i"
    using answer_head_entries by blast
  then have "sends_more (update_settings cenv d) c"
    using shown client_entries_more by (simp add: client_entries_append)
  moreover have "sock_out (mLocalNet (update_settings cenv d)) = frame (cl_put_map cenv) (settings_map ?i)"
    using update_settings_sends [of d cenv] d(2,3) up by simp
  ultimately obtain rest where out: "sock_out (mLocalNet c) = frame (cl_put_map cenv) (settings_map ?i) @ rest"
    by (auto simp: sends_more_def)
  have w: "w_refresh ?i = 5" "w_count ?i = 3" "w_rules ?i = []" by (simp_all add: initial_dialog_def new_client_def)
  have "\<exists>t. session_readable env i (frame (cl_put_map cenv) (settings_map ?i)) s = Some t \<and>
      applied_settings ?i t \<and> stored_settings ?i t"
    by (rule settings_received [OF srv(1,2) _ _ _ srv(7) srv(3-6) fmt]) (simp_all add: w)
  then obtain t where t: "session_readable env i (frame (cl_put_map cenv) (settings_map ?i)) s = Some t"
    "applied_settings ?i t" "stored_settings ?i t" by blast
  have "mRefreshTimerPeriod t = 5 \<and> mResolverCacheSize t = 3 \<and> mScoreRules t = [] \<and>
      settings t ''refresh_timer_period'' = Some (VInt 5) \<and> settings t ''resolver_cache_size'' = Some (VInt 3) \<and>
      settings t ''score_rules'' = Some (VStr [])"
    using t(2,3) w unfolding applied_settings_def stored_settings_def by simp
  then show ?thesis using out t(1) by blast
qed

section \<open>A service and an applet to try it on\<close>

text \<open>A service whose stream format knows one packet.\<close>

definition knows :: "data_map \<Rightarrow> server_env" where
  "knows m = sample_senv\<lparr>get_map := (\<lambda>bs. m)\<rparr>"

lemma knows_ok: "stream_ok (cl_put_map sample_cenv) (get_map (knows m)) m"
  by (simp add: stream_ok_def knows_def sample_cenv_def)

definition session_server :: server where
  "session_server = sample_server\<lparr>mSessions := [new_net True]\<rparr>"

lemma session_server_ok:
  "server_inv session_server" "mSystem session_server = Some sample_sys" "0 < length (mSessions session_server)"
  "mSessions session_server ! 0 = new_net True" "save_status (knows m) = NoError" "os (knows m) = sample_os"
  by (rule server_inv_cong [OF sample_server_inv])
    (simp_all add: session_server_def sample_server_def knows_def sample_senv_def)

lemma new_net_up: "isLive (new_net True)" "sock_valid (new_net True)" "mData (mTXPacket (new_net True)) = []"
  "sock_in (new_net True) = []" "sock_out (new_net True) = []" "mRXState (mRXPacket (new_net True)) = 0"
  by (simp_all add: new_net_def new_packet_def isLive_def)

text \<open>An applet that has connected, whose user has then set the period to 30 minutes.\<close>

definition edited_applet :: applet where
  "edited_applet = on_window (\<lambda>c. c\<lparr>w_refresh := spin 1 9999 30\<rparr>)
     (on_window (\<lambda>c. tcpStateChanged ConnectedState (c\<lparr>mLocalNet := socket_enters ConnectedState (mLocalNet c)\<rparr>))
       (on_window connectToService new_applet))"

lemma edited_applet_ok:
  "reachable applet_init (applet_moves env) edited_applet" "isLive (mLocalNet (window edited_applet))"
  "w_refresh (window edited_applet) = 30" "sock_in (mLocalNet (window edited_applet)) = []"
  using reach_step [OF reach_connected, of env "SetRefresh 30" edited_applet]
  by (simp_all add: edited_applet_def on_window_def tcpStateChanged_def socket_enters_def isLive_def spin_def
      connectToService_def new_applet_def setDisabledState_def new_client_def new_net_def)

lemma apply_button_witness:
  "\<exists>env bytes t. session_readable env 0 bytes session_server = Some t \<and> mRefreshTimerPeriod t = 30"
proof -
  have s: "stream_ok (cl_put_map (a_env sample_applet_env)) (get_map (knows (settings_map (window edited_applet))))
      (settings_map (window edited_applet))"
    using knows_ok by (simp add: sample_applet_env_def)
  show ?thesis
    using apply_button [OF edited_applet_ok(1,2) session_server_ok(1) _ _ _ _ _ _ s, of 0] session_server_ok new_net_up
      edited_applet_ok(3) by (auto simp: applied_settings_def)
qed

text \<open>The same applet with the service turned off in its dialog.\<close>

lemma off_applet_ok:
  "reachable applet_init (applet_moves env)
     (on_window (set_enabled_box (a_env env) False) edited_applet)"
  by (rule reach_step [OF edited_applet_ok(1), of _ "SetEnabled False"]) simp

lemma disabled_rewrites_witness:
  "\<exists>env bytes t y. session_readable env 0 bytes session_server = Some t \<and> mSystem t = Some y \<and> \<not> sys_enabled y \<and>
     files y resolve_conf = Some (conf_text (map (host_of (srv_heap t)) (take 3 (mResolverPool t))))"
proof -
  define a where "a = on_window (set_enabled_box sample_cenv False) edited_applet"
  obtain n where n: "set_enabled_box sample_cenv False (window edited_applet) =
      (window edited_applet)\<lparr>w_enabled := False, mLocalNet := n\<rparr>"
    using set_enabled_box_net by blast
  have e: "w_count (window edited_applet) = 3"
    by (simp add: edited_applet_def on_window_def tcpStateChanged_def connectToService_def new_applet_def setDisabledState_def
        new_client_def)
  have "isLive (mLocalNet (set_enabled_box sample_cenv False (window edited_applet)))"
    using edited_applet_ok(2)
    by (simp add: set_enabled_box_def update_settings_def Let_def cl_set_def cl_send_def net_send_def net_clear_def
        packet_send_def isLive_def)
  then have a: "reachable applet_init (applet_moves sample_applet_env) a" "isLive (mLocalNet (window a))"
    "\<not> w_enabled (window a)" "w_count (window a) = 3"
    using off_applet_ok [of sample_applet_env] n e by (simp_all add: a_def on_window_def sample_applet_env_def)
  have s: "\<not> mUpdatingDNS session_server" "mScoreInternal session_server" "mResolverPool session_server \<noteq> []"
    "mResolverCacheSize session_server \<noteq> w_count (window a)" "mResolverCache session_server = []" "mResolverPool session_server = [1, 3]"
    by (simp_all add: session_server_def sample_server_def a(4))
  have fmt: "stream_ok (cl_put_map (a_env sample_applet_env)) (get_map (knows (settings_map (window a)))) (settings_map (window a))"
    using knows_ok by (simp add: sample_applet_env_def)
  show ?thesis
    using disabled_rewrites [OF a(1-3) session_server_ok(1) _ s(1-3) _ _ s(4) _ _ _ _ _ fmt, of 0] s(5,6) session_server_ok
      new_net_up a(4) by auto
qed

definition polled_server :: server where
  "polled_server = session_server\<lparr>mSystem := Some (sample_sys\<lparr>mTestDomains := [fromString ''icann;a.b'']\<rparr>)\<rparr>"

lemma polled_server_simps: "mSystem polled_server = Some (sample_sys\<lparr>mTestDomains := [fromString ''icann;a.b'']\<rparr>)"
  "mSessions polled_server = [new_net True]" "mResolverCacheSize polled_server = 2"
  by (simp_all add: polled_server_def session_server_def sample_server_def)

definition synced_env :: applet_env where
  "synced_env = sample_applet_env\<lparr>a_get :=
     (\<lambda>bs. answer_of (knows [(''poll_keys'', VList all_keys)]) polled_server all_keys [])\<rparr>"

lemma display_in_sync_witness:
  "\<exists>env bytes reply a1 a2. applet_step synced_env SocketConnected edited_applet = Some a1 \<and>
     applet_step synced_env (Incoming reply) a1 = Some a2 \<and> w_refresh (window edited_applet) = 30 \<and>
     w_refresh (window a2) = 1 \<and> w_iface (window a2) = ''eth1'' \<and>
     image_mset row_cells (mset (w_table (window a2))) = image_mset (resolver_cells sample_heap) {#1, 3#}"
proof -
  let ?env = "knows [(''poll_keys'', VList all_keys)]" and ?y = "sample_sys\<lparr>mTestDomains := [fromString ''icann;a.b'']\<rparr>"
  have sys: "platform_of (os ?env) = Linux" "mSystem polled_server = Some ?y" "mTestDomains ?y \<noteq> []" "mInterfaceName ?y \<noteq> []"
    by (simp_all add: session_server_ok(6) polled_server_simps sample_sys_def)
  have plain: "\<forall>r \<in> set (mResolverPool polled_server @ mResolverCache polled_server).
      plain_line (fmt_double ?env) (objs (srv_heap polled_server) r)"
    by (auto simp: plain_line_def polled_server_def session_server_def sample_server_def sample_heap_def
        blank_resolver_def knows_def sample_senv_def char_of_def)
  have put: "put_map ?env = sample_put" "cl_put_map (a_env synced_env) = cl_put_map sample_cenv"
    by (simp_all add: knows_def sample_senv_def synced_env_def sample_applet_env_def)
  have fmt: "stream_ok (cl_put_map (a_env synced_env)) (get_map ?env) [(''poll_keys'', VList all_keys)]"
    "stream_ok (put_map ?env) (a_get synced_env) (answer_of ?env polled_server all_keys [])"
    using knows_ok put by (simp_all add: stream_ok_def synced_env_def sample_put_def)
  have srv: "mRefreshTimerPeriod polled_server = 1" "mResolverPool polled_server = [1, 3]" "srv_heap polled_server = sample_heap"
    by (simp_all add: polled_server_def session_server_def sample_server_def)
  have drawn: "\<forall>r \<in> set (mResolverPool polled_server).
      thousandth (a_env synced_env) (fmt_double ?env) (srv_heap polled_server) r \<noteq> None"
    by (simp add: srv thousandth_def synced_env_def sample_applet_env_def sample_cenv_def knows_def sample_senv_def
        toward_zero_def)
  have sorts: "sorts_rows (a_env synced_env)"
    by (simp add: sorts_rows_def synced_env_def sample_applet_env_def sample_cenv_def)
  have before: "steady_table (window edited_applet)" "w_ifaces (window edited_applet) = []" "w_iface (window edited_applet) = []"
    by (simp_all add: steady_table_def steady_def edited_applet_def on_window_def tcpStateChanged_def connectToService_def
        new_applet_def setDisabledState_def new_client_def)
  have "interface_names (os ?env) = [''eth1'']" by (simp add: session_server_ok(6) sample_os_def)
  with before have iface: "selected (mInterfaceName ?y) (interface_names (os ?env)) (window edited_applet) = ''eth1''"
    by (simp add: selected_def)
  obtain a1 reply a2 where run: "applet_step synced_env SocketConnected edited_applet = Some a1"
      "applet_step synced_env (Incoming reply) a1 = Some a2"
      "mirrors (a_env synced_env) ?env ?y polled_server (window edited_applet) (window a2)"
    using display_in_sync [OF edited_applet_ok(1,2,4) sys _ _ _ _ _ _ plain drawn sorts fmt, of 0] new_net_up
    by (auto simp: polled_server_simps)
  have "w_refresh (window a2) = 1" "w_iface (window a2) = ''eth1''"
    "image_mset row_cells (mset (w_table (window a2))) = image_mset (resolver_cells sample_heap) {#1, 3#}"
    using run(3) before(1) iface unfolding mirrors_def by (simp_all add: srv spin_def)
  then show ?thesis using run(1,2) edited_applet_ok(3) by blast
qed

lemma poll_served_witness:
  "\<exists>env bytes n1 reply. session_readable env 0 bytes polled_server = Some (polled_server\<lparr>mSessions := [n1]\<rparr>) \<and>
     sock_out n1 = frame (put_map env) reply \<and> qlookup reply ''resolver_cache_size'' = Some (VInt 2)"
proof -
  let ?c = "new_client (new_net True)" and ?env = "knows [(''poll_keys'', VList all_keys)]"
  have c: "mLocalNet ?c = new_net True" by (simp add: new_client_def)
  obtain bytes where b: "sock_out (mLocalNet (pollAllKeys sample_cenv ?c)) = sock_out (mLocalNet ?c) @ bytes"
    using poll_sends [of ?c sample_cenv all_keys] c new_net_up by (simp add: pollAllKeys_def)
  have p: "platform_of (os ?env) = Linux" "mTestDomains (sample_sys\<lparr>mTestDomains := [fromString ''icann;a.b'']\<rparr>) \<noteq> []"
    "mInterfaceName (sample_sys\<lparr>mTestDomains := [fromString ''icann;a.b'']\<rparr>) \<noteq> []"
    by (simp_all add: session_server_ok(6) sample_sys_def)
  have "pollKeyValue ?env ''resolver_cache_size'' polled_server = Some (polled_server, Some (VInt 2))"
    by (simp add: pollKeyValue_def polled_server_simps)
  moreover have "''resolver_cache_size'' \<in> set all_keys" by (simp add: all_keys_def)
  ultimately show ?thesis
    using poll_served [OF p(1) polled_server_simps(1) p(2,3) _ _ _ _ _ _ _ _ _ b knows_ok, of 0]
      new_net_up c by (fastforce simp: polled_server_simps)
qed

lemma first_answer_overwrites_witness:
  "\<exists>env bytes t. session_readable env 0 bytes session_server = Some t \<and> mRefreshTimerPeriod session_server = 1 \<and>
     mRefreshTimerPeriod t = 5"
proof -
  obtain d where d: "client_entries sample_cenv (answer_head [] [] ''eth1'' [''eth1''] [] @ []) (new_client (new_net True))
      = Some (update_settings sample_cenv d)"
    using answer_head_entries [of sample_cenv "[]" "[]" "''eth1''" "[''eth1'']" "[]" "new_net True"] by auto
  have "mRefreshTimerPeriod session_server = 1" by (simp add: session_server_def sample_server_def)
  then show ?thesis
    using first_answer_overwrites [OF d new_net_up(1-3,5) session_server_ok(1) _ _ _ _ _ _ knows_ok, of 0]
      session_server_ok new_net_up by auto
qed

end
